(* ===== verification/Gw_Prelude.thy ===== *)
theory Gw_Prelude
  imports Main "HOL-Library.Word"
begin

text \<open>
  Shared vocabulary of the gateway's model: the machine integers of the C code, the error
  numbers its functions return, the big-endian accessors of the platform
  (\<open>sys_get_be16\<close>, \<open>sys_put_be16\<close>), and the generic facts on words and lists that the
  component theories use.  \<open>byte_simps\<close> collects the facts that evaluate byte-level
  definitions, \<open>unat_simps\<close> those that move a word to its unsigned value.
\<close>

unbundle bit_operations_syntax

named_theorems byte_simps \<open>evaluation of byte-level definitions\<close>
named_theorems unat_simps \<open>unsigned value of word expressions\<close>

section \<open>Machine integers and error numbers\<close>

type_synonym u8 = "8 word"
type_synonym u16 = "16 word"
type_synonym u32 = "32 word"
type_synonym u64 = "64 word"
type_synonym bytes = "8 word list"

text \<open>The error numbers the modules return; a function of the code that returns
  \<open>0\<close> or \<open>-errno\<close> returns a value of \<open>errno + 'a\<close> here.\<close>

datatype errno =
    EINVAL | ENODEV | EIO | ENOTSUP | ETIMEDOUT | ECANCELED | ENOBUFS | ENOMEM | EAGAIN

section \<open>Chains of guards\<close>

text \<open>A chain of early returns with one result is one guard.\<close>

lemma if_else_merge: "(if a then x else if b then x else y) = (if a \<or> b then x else y)"
  by simp

lemma if_flip: "(a \<longleftrightarrow> \<not> b) \<Longrightarrow> (if a then x else y) = (if b then y else x)"
  by simp

section \<open>Unsigned values of bytes\<close>

lemma unat_u8_less [simp]: "unat (b :: u8) < 256"
  using unsigned_less [of b, where ?'a = nat] by simp

lemma unat_u8_le [simp]: "unat (b :: u8) \<le> 255"
  using unat_u8_less [of b] by linarith

lemma unat_u16_less [simp]: "unat (b :: u16) < 65536"
  using unsigned_less [of b, where ?'a = nat] by simp

lemma unat_u32_less [simp]: "unat (b :: u32) < 4294967296"
  using unsigned_less [of b, where ?'a = nat] by simp

lemma unat_ucast_u8_u16 [simp, unat_simps]: "unat (ucast (b :: u8) :: u16) = unat b"
  by (simp add: unsigned_ucast_eq take_bit_nat_eq_self_iff less_trans [OF unat_u8_less])

lemma unat_ucast_u8_u32 [simp, unat_simps]: "unat (ucast (b :: u8) :: u32) = unat b"
  by (simp add: unsigned_ucast_eq take_bit_nat_eq_self_iff less_trans [OF unat_u8_less])

lemma unat_ucast_u32_u64 [simp, unat_simps]: "unat (ucast (b :: u32) :: u64) = unat b"
  by (simp add: unsigned_ucast_eq take_bit_nat_eq_self_iff less_trans [OF unat_u32_less])

lemma unat_ucast_u16_u64 [simp, unat_simps]: "unat (ucast (b :: u16) :: u64) = unat b"
  by (simp add: unsigned_ucast_eq take_bit_nat_eq_self_iff less_trans [OF unat_u16_less])

lemma unat_of_nat_u8 [unat_simps]: "n < 256 \<Longrightarrow> unat (word_of_nat n :: u8) = n"
  by (simp add: unat_of_nat take_bit_nat_eq_self)

lemma unat_of_nat_u16 [unat_simps]: "n < 65536 \<Longrightarrow> unat (word_of_nat n :: u16) = n"
  by (simp add: unat_of_nat take_bit_nat_eq_self)

lemma unat_of_nat_u32 [unat_simps]: "n < 4294967296 \<Longrightarrow> unat (word_of_nat n :: u32) = n"
  by (simp add: unat_of_nat take_bit_nat_eq_self)

lemma unat_of_nat_u64 [unat_simps]: "n < 18446744073709551616 \<Longrightarrow> unat (word_of_nat n :: u64) = n"
  by (simp add: unat_of_nat take_bit_nat_eq_self)

lemma unat_ucast_u64_u16: "unat (w :: u64) < 65536 \<Longrightarrow> unat (ucast w :: u16) = unat w"
  by (simp add: unsigned_ucast_eq take_bit_nat_eq_self)

lemma unat_ucast_u64_u32: "unat (w :: u64) < 4294967296 \<Longrightarrow> unat (ucast w :: u32) = unat w"
  by (simp add: unsigned_ucast_eq take_bit_nat_eq_self)

lemma unat_add_u64: "unat (a :: u64) + unat b < 18446744073709551616 \<Longrightarrow> unat (a + b) = unat a + unat b"
  by (simp add: unat_word_ariths)

lemma u8_eq_iff: "(a :: u8) = b \<longleftrightarrow> unat a = unat b"
  by (simp add: word_unat_eq_iff)

section \<open>Big-endian 16-bit access\<close>

definition sys_get_be16 :: "u8 \<Rightarrow> u8 \<Rightarrow> u16" where
  "sys_get_be16 hi lo = push_bit 8 (ucast hi) OR ucast lo"

definition sys_put_be16 :: "u16 \<Rightarrow> bytes" where
  "sys_put_be16 v = [ucast (drop_bit 8 v), ucast v]"

lemma sys_get_be16_sum: "sys_get_be16 hi lo = push_bit 8 (ucast hi) + ucast lo"
proof -
  have "(push_bit 8 (ucast hi) :: u16) AND ucast lo = 0"
    by (rule bit_word_eqI) (auto simp: bit_simps dest: bit_imp_le_length)
  then show ?thesis
    by (simp add: sys_get_be16_def disjunctive_add_eq_or)
qed

lemma unat_sys_get_be16 [unat_simps]: "unat (sys_get_be16 hi lo) = 256 * unat hi + unat lo"
proof -
  have "unat hi < 256" "unat lo < 256" by simp_all
  then have b: "256 * unat hi + unat lo < 65536" by linarith
  have "unat (push_bit 8 (ucast hi) :: u16) = 256 * unat hi"
    by (simp add: unat_word_ariths push_bit_eq_mult)
  with b show ?thesis
    by (simp add: sys_get_be16_sum unat_word_ariths)
qed

lemma length_sys_put_be16 [simp]: "length (sys_put_be16 v) = 2"
  by (simp add: sys_put_be16_def)

lemma sys_get_put_be16 [simp]:
  "sys_get_be16 (ucast (drop_bit 8 v)) (ucast (v :: u16)) = v"
  by (rule bit_word_eqI) (auto simp: sys_get_be16_def bit_simps dest: bit_imp_le_length)

lemma sys_put_get_be16 [simp]: "sys_put_be16 (sys_get_be16 hi lo) = [hi, lo]"
proof -
  have "(ucast (drop_bit 8 (sys_get_be16 hi lo)) :: u8) = hi"
    by (rule bit_word_eqI) (auto simp: sys_get_be16_def bit_simps dest: bit_imp_le_length)
  moreover have "(ucast (sys_get_be16 hi lo) :: u8) = lo"
    by (rule bit_word_eqI) (auto simp: sys_get_be16_def bit_simps dest: bit_imp_le_length)
  ultimately show ?thesis by (simp add: sys_put_be16_def)
qed

section \<open>Tasks driven by events\<close>

text \<open>The contract of a task that consumes events one at a time: an event that meets its
  assumption keeps the invariant.  A task that also writes a trace only appends to it, and what
  one event appends is described by \<open>gives\<close>.\<close>

locale event_task =
  fixes ok :: "'e \<Rightarrow> bool"
    and inv :: "'s \<Rightarrow> bool"
    and step :: "'e \<Rightarrow> 's \<Rightarrow> 's"
  assumes step_inv: "ok e \<Longrightarrow> inv s \<Longrightarrow> inv (step e s)"

context event_task begin

lemma run_inv: "list_all ok es \<Longrightarrow> inv s \<Longrightarrow> inv (fold step es s)"
  by (induction es arbitrary: s) (simp_all add: step_inv)

end

locale tracing_task = event_task ok inv step
  for ok :: "'e \<Rightarrow> bool" and inv :: "'s \<Rightarrow> bool" and step :: "'e \<Rightarrow> 's \<Rightarrow> 's" +
  fixes trace :: "'s \<Rightarrow> 'o list"
    and gives :: "'e \<Rightarrow> 'o list \<Rightarrow> bool"
  assumes step_trace: "ok e \<Longrightarrow> inv s \<Longrightarrow> \<exists>out. trace (step e s) = trace s @ out \<and> gives e out"

context tracing_task begin

lemma run_trace:
  "list_all ok es \<Longrightarrow> inv s \<Longrightarrow>
     \<exists>outs. trace (fold step es s) = trace s @ concat outs \<and> list_all2 gives es outs"
proof (induction es arbitrary: s)
  case (Cons e es)
  obtain out where o1: "trace (step e s) = trace s @ out" "gives e out"
    using step_trace [of e s] Cons.prems by auto
  obtain outs where "trace (fold step es (step e s)) = trace (step e s) @ concat outs"
    "list_all2 gives es outs"
    using Cons.IH [of "step e s"] Cons.prems step_inv [of e s] by auto
  with o1 show ?case by (intro exI [of _ "out # outs"]) simp
qed simp

end

text \<open>A run of a component with outputs, and a component each of whose operations is an operation of
  another one: every run of the first is a run of the second.\<close>

primrec run_steps :: "('e \<Rightarrow> 's \<Rightarrow> 'o \<times> 's) \<Rightarrow> 'e list \<Rightarrow> 's \<Rightarrow> 'o list \<times> 's" where
  "run_steps step [] s = ([], s)"
| "run_steps step (e # es) s =
     (let (out, s1) = step e s; (outs, s2) = run_steps step es s1 in (out # outs, s2))"

lemma run_steps_state: "snd (run_steps step es s) = fold (\<lambda>e s. snd (step e s)) es s"
  by (induction es arbitrary: s) (simp_all split: prod.split, metis snd_conv)

locale forward_sim =
  fixes abs_state :: "'c \<Rightarrow> 'a"
    and match :: "'e \<Rightarrow> 'f \<Rightarrow> bool"
    and cstep :: "'e \<Rightarrow> 'c \<Rightarrow> 'o \<times> 'c"
    and astep :: "'f \<Rightarrow> 'a \<Rightarrow> 'o \<times> 'a"
  assumes step_sim: "\<exists>f. match e f \<and> astep f (abs_state c) = map_prod id abs_state (cstep e c)"

context forward_sim begin

lemma run_sim:
  "\<exists>fs. list_all2 match es fs \<and>
     run_steps astep fs (abs_state c) = map_prod id abs_state (run_steps cstep es c)"
proof (induction es arbitrary: c)
  case (Cons e es)
  obtain out c1 where o1: "cstep e c = (out, c1)" by fastforce
  obtain f where "match e f" "astep f (abs_state c) = (out, abs_state c1)"
    using step_sim [of e c] o1 by auto
  moreover obtain fs where "list_all2 match es fs"
    "run_steps astep fs (abs_state c1) = map_prod id abs_state (run_steps cstep es c1)"
    using Cons.IH by blast
  ultimately show ?case using o1 by (intro exI [of _ "f # fs"]) (simp split: prod.split)
qed simp

end

end
