(* ===== verification/Tcp_Frame.thy ===== *)
theory Tcp_Frame
  imports Gw_Prelude
begin

text \<open>
  \<^verbatim>\<open>src/tcp_gateway.c\<close>, the frames: how the length of a received frame is found in the
  handshake (\<open>gw_srv_rx_frame_info\<close>, compact frames) and in the session
  (\<open>gw_srv_sess_rx_frame_info\<close>, frames with a length field), how the board builds its own
  compact frames, and the hexadecimal version string of the CONNECT body.

  The locale \<open>stream_parser\<close> states what a frame recogniser must satisfy so that cutting a
  byte stream into frames does not depend on how TCP cuts the stream into chunks; both
  recognisers are shown to satisfy it.
\<close>

section \<open>Constants\<close>

abbreviation (input) GW_STX :: u8 where "GW_STX \<equiv> 0x55"
abbreviation (input) GW_ETX :: u8 where "GW_ETX \<equiv> 0x03"
abbreviation (input) GW_SRV_RX_HDR3_LEN :: nat where "GW_SRV_RX_HDR3_LEN \<equiv> 3"
abbreviation (input) GW_SRV_SESS_RX_HDR_LEN :: nat where "GW_SRV_SESS_RX_HDR_LEN \<equiv> 5"
abbreviation (input) GW_SRV_SESS_RX_TAIL_LEN :: nat where "GW_SRV_SESS_RX_TAIL_LEN \<equiv> 1"
abbreviation (input) GW_SYNC_PAYLOAD_LEN :: nat where "GW_SYNC_PAYLOAD_LEN \<equiv> 14"
abbreviation (input) GW_SYNC_COMPACT_LEN :: nat where "GW_SYNC_COMPACT_LEN \<equiv> 18"
abbreviation (input) GW_MSG_CONNECT :: u8 where "GW_MSG_CONNECT \<equiv> 0x80"
abbreviation (input) GW_MSG_ACK :: u8 where "GW_MSG_ACK \<equiv> 0x81"
abbreviation (input) GW_MSG_MODBUS_RESP :: u8 where "GW_MSG_MODBUS_RESP \<equiv> 0x82"
abbreviation (input) GW_MSG_ALARM :: u8 where "GW_MSG_ALARM \<equiv> 0x8E"
abbreviation (input) GW_MSG_SYNC :: u8 where "GW_MSG_SYNC \<equiv> 0x01"
abbreviation (input) GW_MSG_MODBUS_REQ :: u8 where "GW_MSG_MODBUS_REQ \<equiv> 0x02"
abbreviation (input) GW_BODY_CAP :: nat where "GW_BODY_CAP \<equiv> 256"
abbreviation (input) GW_MAX_BODY :: nat where "GW_MAX_BODY \<equiv> 256"
abbreviation (input) GW_RX_BUF_SIZE :: nat where "GW_RX_BUF_SIZE \<equiv> 384"

text \<open>The size of \<open>gw_tx_frame\<close>: header, time, body and tail, 5 + (9 + 256) + 1.\<close>

abbreviation (input) GW_TX_FRAME_SIZE :: nat where "GW_TX_FRAME_SIZE \<equiv> 271"

section \<open>Recognising a frame\<close>

text \<open>The results \<open>0\<close>, \<open>-1\<close> with the reason \<open>*why_out\<close>, and \<open>1\<close> with \<open>*need_out\<close>
  and \<open>*bl_out\<close>.\<close>

datatype frame_info = Short | Bad nat | Frame nat nat

text \<open>The search for ETX; \<open>i\<close> is the index of the head of the list in the frame.\<close>

fun compact_scan :: "nat \<Rightarrow> bytes \<Rightarrow> frame_info" where
  "compact_scan i [] = Short"
| "compact_scan i (b # bs) =
     (if b = GW_ETX then
        (if i - GW_SRV_RX_HDR3_LEN > GW_MAX_BODY then Bad 3 else Frame (i + 1) (i - GW_SRV_RX_HDR3_LEN))
      else if i - GW_SRV_RX_HDR3_LEN \<ge> GW_MAX_BODY then Bad 3
      else compact_scan (i + 1) bs)"

definition gw_srv_rx_frame_info :: "bytes \<Rightarrow> frame_info" where
  "gw_srv_rx_frame_info p =
     (if length p < GW_SRV_RX_HDR3_LEN then Short
      else if p ! 0 \<noteq> GW_STX then Bad 2
      else if p ! 1 = GW_MSG_SYNC then
        (if length p < GW_SYNC_COMPACT_LEN then Short
         else if p ! (GW_SYNC_COMPACT_LEN - 1) \<noteq> GW_ETX then Bad 5
         else Frame GW_SYNC_COMPACT_LEN GW_SYNC_PAYLOAD_LEN)
      else compact_scan GW_SRV_RX_HDR3_LEN (drop GW_SRV_RX_HDR3_LEN p))"

definition gw_srv_sess_rx_frame_info :: "bytes \<Rightarrow> frame_info" where
  "gw_srv_sess_rx_frame_info p =
     (if length p < GW_SRV_SESS_RX_HDR_LEN + GW_SRV_SESS_RX_TAIL_LEN then Short
      else if p ! 0 \<noteq> GW_STX then Bad 2
      else
        let body_len = unat (sys_get_be16 (p ! 1) (p ! 2))
        in if body_len > GW_MAX_BODY then Bad 3
           else
             let need = GW_SRV_SESS_RX_HDR_LEN + body_len + GW_SRV_SESS_RX_TAIL_LEN
             in if length p < need then Short
                else if p ! (GW_SRV_SESS_RX_HDR_LEN + body_len) \<noteq> GW_ETX then Bad 5
                else Frame need body_len)"

section \<open>Building frames\<close>

definition gw_build_compact_tx :: "nat \<Rightarrow> u8 \<Rightarrow> u8 \<Rightarrow> bytes \<Rightarrow> errno + bytes" where
  "gw_build_compact_tx out_cap msg_type seq body =
     (let need = 3 + length body + 1
      in if out_cap < need \<or> length body > GW_MAX_BODY then Inl EINVAL
         else Inr ([GW_STX, msg_type, seq] @ body @ [GW_ETX]))"

section \<open>The version string\<close>

text \<open>Characters are their codes; the list is the string without its terminating null.\<close>

definition gw_hex_digit :: "u8 \<Rightarrow> u8 option" where
  "gw_hex_digit c =
     (if c \<ge> 0x30 \<and> c \<le> 0x39 then Some (c - 0x30)
      else if c \<ge> 0x61 \<and> c \<le> 0x66 then Some (10 + (c - 0x61))
      else if c \<ge> 0x41 \<and> c \<le> 0x46 then Some (10 + (c - 0x41))
      else None)"

definition skip_blanks :: "bytes \<Rightarrow> bytes" where
  "skip_blanks = dropWhile (\<lambda>c. c = 0x20 \<or> c = 0x09)"

lemma length_skip_blanks: "length (skip_blanks xs) \<le> length xs"
  by (simp add: skip_blanks_def length_dropWhile_le)

function parse_hex_loop :: "bytes \<Rightarrow> nat \<Rightarrow> bytes \<Rightarrow> bytes option" where
  "parse_hex_loop src dst_cap dst =
     (case skip_blanks src of
        [] \<Rightarrow> Some dst
      | c1 # src1 \<Rightarrow>
          (case gw_hex_digit c1 of
             None \<Rightarrow> None
           | Some hi \<Rightarrow>
               (case skip_blanks src1 of
                  [] \<Rightarrow> None
                | c2 # src2 \<Rightarrow>
                    (case gw_hex_digit c2 of
                       None \<Rightarrow> None
                     | Some lo \<Rightarrow>
                         if length dst \<ge> dst_cap then None
                         else parse_hex_loop src2 dst_cap (dst @ [push_bit 4 hi OR lo])))))"
  by pat_completeness auto
termination
proof (relation "measure (\<lambda>(src, cap, dst). length src)")
  fix src :: bytes and c1 src1 hi c2 src2 lo dst and dst_cap :: nat
  assume "skip_blanks src = c1 # src1" "skip_blanks src1 = c2 # src2"
  with length_skip_blanks [of src] length_skip_blanks [of src1]
  show "((src2, dst_cap, dst @ [push_bit 4 hi OR lo]), src, dst_cap, dst)
      \<in> measure (\<lambda>(src, cap, dst). length src)"
    by simp
qed simp

declare parse_hex_loop.simps [simp del]

definition gw_parse_hex_into :: "bytes \<Rightarrow> nat \<Rightarrow> bytes option" where
  "gw_parse_hex_into src dst_cap = parse_hex_loop src dst_cap []"

text \<open>The CONNECT body: master code, device index, version.  The master code is the configured
  string up to its null byte, 32 bytes at most.\<close>

definition gw_init_connect_body :: "bytes \<Rightarrow> nat \<Rightarrow> bytes \<Rightarrow> bytes" where
  "gw_init_connect_body master_code device_index version_hex =
     (let master = take 32 (takeWhile (\<lambda>c. c \<noteq> 0) master_code);
          master' = (if length master + 4 > GW_BODY_CAP then take (GW_BODY_CAP - 4) master else master)
      in master' @ [word_of_nat (device_index mod 256)] @
         (case gw_parse_hex_into (take 47 version_hex) 3 of
            Some ver \<Rightarrow> if length ver = 3 then ver else [0x02, 0x00, 0x00]
          | None \<Rightarrow> [0x02, 0x00, 0x00]))"

section \<open>Cutting a stream into frames\<close>

text \<open>The reference: skip to the next STX, ask the recogniser, drop one byte of a bad frame,
  take a good one, and keep what is not decided yet.  The frames are given with their header
  and tail, and the rest starts with STX or is empty.\<close>

definition to_stx :: "bytes \<Rightarrow> bytes" where
  "to_stx = dropWhile (\<lambda>b. b \<noteq> GW_STX)"

lemma length_to_stx: "length (to_stx a) \<le> length a"
  by (simp add: to_stx_def length_dropWhile_le)

lemma to_stx_append: "to_stx (a @ c) = (if to_stx a = [] then to_stx c else to_stx a @ c)"
  unfolding to_stx_def by (induction a) (simp_all del: dropWhile_eq_Nil_conv)

lemma to_stx_Nil [simp]: "to_stx [] = []"
  by (simp add: to_stx_def)

lemma to_stx_idem [simp]: "to_stx (to_stx a) = to_stx a"
  unfolding to_stx_def by (induction a) auto

lemma to_stx_append_left: "to_stx (to_stx a @ c) = to_stx (a @ c)"
  by (simp add: to_stx_append)

function cut_stream :: "nat \<Rightarrow> (bytes \<Rightarrow> frame_info) \<Rightarrow> bytes \<Rightarrow> bytes list \<times> bytes" where
  "cut_stream minlen info buf =
     (let b = to_stx buf
      in if b = [] \<or> length b < minlen then ([], b)
         else case info b of
                Short \<Rightarrow> ([], b)
              | Bad why \<Rightarrow> cut_stream minlen info (tl b)
              | Frame need bl \<Rightarrow>
                  if need = 0 \<or> length b < need then ([], b)
                  else let (fs, r) = cut_stream minlen info (drop need b) in (take need b # fs, r))"
  by pat_completeness auto
termination
proof (relation "measure (\<lambda>(m, info, buf). length buf)")
  fix minlen :: nat and info :: "bytes \<Rightarrow> frame_info" and buf b :: bytes and why need bl :: nat
  assume b: "b = to_stx buf" "\<not> (b = [] \<or> length b < minlen)"
  have le: "length b \<le> length buf" using b(1) by (simp add: length_to_stx)
  with b(2) show "((minlen, info, tl b), minlen, info, buf) \<in> measure (\<lambda>(m, info, buf). length buf)"
    by (cases b) auto
  assume "\<not> (need = 0 \<or> length b < need)"
  with b(2) le show "((minlen, info, drop need b), minlen, info, buf)
      \<in> measure (\<lambda>(m, info, buf). length buf)"
    by auto
qed simp

declare cut_stream.simps [simp del]

lemma cut_stream_to_stx: "to_stx a = to_stx c \<Longrightarrow> cut_stream m info a = cut_stream m info c"
  by (simp add: cut_stream.simps [of m info a] cut_stream.simps [of m info c])

locale stream_parser =
  fixes minlen maxlen :: nat
    and info :: "bytes \<Rightarrow> frame_info"
  assumes minlen_pos: "0 < minlen"
    and frame_stable: "info p = Frame n bl \<Longrightarrow> info (p @ q) = Frame n bl"
    and bad_stable: "info p = Bad w \<Longrightarrow> info (p @ q) = Bad w"
    and frame_len: "info p = Frame n bl \<Longrightarrow> minlen \<le> n \<and> n \<le> length p"
    and frame_prefix: "info p = Frame n bl \<Longrightarrow> info (take n p) = Frame n bl"
    and short_len: "info p = Short \<Longrightarrow> length p < maxlen"
    and minlen_le: "minlen \<le> maxlen"

context stream_parser begin

text \<open>The cutting does not depend on how the stream arrives.\<close>

lemma cut_append:
  "cut_stream minlen info (a @ c) =
     (let (fs, r) = cut_stream minlen info a; (gs, r') = cut_stream minlen info (r @ c)
      in (fs @ gs, r'))"
proof (induction "length a" arbitrary: a rule: less_induct)
  case less
  let ?b = "to_stx a"
  have le: "length ?b \<le> length a" by (rule length_to_stx)
  show ?case
  proof (cases "?b = [] \<or> length ?b < minlen \<or> info ?b = Short")
    case True
    then have "cut_stream minlen info a = ([], ?b)" by (auto simp: cut_stream.simps [of _ _ a] Let_def)
    moreover have "cut_stream minlen info (a @ c) = cut_stream minlen info (?b @ c)"
      by (rule cut_stream_to_stx) (simp add: to_stx_append_left)
    ultimately show ?thesis by (auto split: prod.split)
  next
    case False
    then have b: "?b \<noteq> []" "\<not> length ?b < minlen" "\<not> length (?b @ c) < minlen" by auto
    have app: "to_stx (a @ c) = ?b @ c" using b(1) by (simp add: to_stx_append)
    from False consider w where "info ?b = Bad w" | n bl where "info ?b = Frame n bl"
      by (cases "info ?b") auto
    then show ?thesis
    proof cases
      case 1
      have "cut_stream minlen info a = cut_stream minlen info (tl ?b)"
        using b 1 by (simp add: cut_stream.simps [of _ _ a] Let_def)
      moreover have "cut_stream minlen info (a @ c) = cut_stream minlen info (tl ?b @ c)"
        using b bad_stable [OF 1, of c] by (simp add: cut_stream.simps [of _ _ "a @ c"] app Let_def)
      moreover have "length (tl ?b) < length a" using b(1) le by (cases ?b) auto
      ultimately show ?thesis using less [of "tl ?b"] by simp
    next
      case (2 n bl)
      note fl = frame_len [OF 2]
      have n: "n \<noteq> 0" using fl minlen_pos by linarith
      have "cut_stream minlen info a =
          (let (fs, r) = cut_stream minlen info (drop n ?b) in (take n ?b # fs, r))"
        using b 2 n fl by (simp add: cut_stream.simps [of _ _ a] Let_def)
      moreover have "cut_stream minlen info (a @ c) =
          (let (fs, r) = cut_stream minlen info (drop n ?b @ c) in (take n ?b # fs, r))"
        using b frame_stable [OF 2, of c] n fl
        by (simp add: cut_stream.simps [of _ _ "a @ c"] app Let_def)
      moreover have "length (drop n ?b) < length a"
        using b(1) le n length_greater_0_conv [of ?b] unfolding length_drop by linarith
      ultimately show ?thesis using less [of "drop n ?b"] by (simp split: prod.splits)
    qed
  qed
qed

text \<open>What is kept never fills a buffer of \<open>maxlen\<close> bytes.\<close>

lemma cut_rest:
  "cut_stream minlen info a = (fs, r) \<Longrightarrow> length r < maxlen \<and> to_stx r = r"
proof (induction "length a" arbitrary: a fs rule: less_induct)
  case less
  let ?b = "to_stx a"
  have le: "length ?b \<le> length a" by (rule length_to_stx)
  show ?case
  proof (cases "?b = [] \<or> length ?b < minlen \<or> info ?b = Short")
    case True
    then have "r = ?b"
      using less.prems by (auto simp: cut_stream.simps [of _ _ a] Let_def split: if_splits)
    with True short_len minlen_le minlen_pos show ?thesis by auto
  next
    case False
    then have b: "?b \<noteq> []" "\<not> length ?b < minlen" by auto
    from False consider w where "info ?b = Bad w" | n bl where "info ?b = Frame n bl"
      by (cases "info ?b") auto
    then show ?thesis
    proof cases
      case 1
      have "cut_stream minlen info (tl ?b) = (fs, r)"
        using less.prems b 1 by (simp add: cut_stream.simps [of _ _ a] Let_def)
      moreover have "length (tl ?b) < length a" using b(1) le by (cases ?b) auto
      ultimately show ?thesis using less.hyps by blast
    next
      case (2 n bl)
      note fl = frame_len [OF 2]
      have n: "n \<noteq> 0" using fl minlen_pos by linarith
      obtain gs where "cut_stream minlen info (drop n ?b) = (gs, r)"
        using less.prems b 2 n fl by (auto simp: cut_stream.simps [of _ _ a] Let_def split: prod.splits)
      moreover have "length (drop n ?b) < length a"
        using b(1) le n length_greater_0_conv [of ?b] unfolding length_drop by linarith
      ultimately show ?thesis using less.hyps by blast
    qed
  qed
qed

text \<open>A stream that arrives in any number of chunks.\<close>

lemma cut_chunks:
  "fold (\<lambda>c (fs, r). let (gs, r') = cut_stream minlen info (r @ c) in (fs @ gs, r')) cs ([], []) =
     cut_stream minlen info (concat cs)"
proof -
  have nil: "cut_stream minlen info [] = ([], [])" by (simp add: cut_stream.simps)
  have "fold (\<lambda>c (fs, r). let (gs, r') = cut_stream minlen info (r @ c) in (fs @ gs, r')) cs
      (cut_stream minlen info a) = cut_stream minlen info (a @ concat cs)" for a
  proof (induction cs arbitrary: a)
    case Nil
    then show ?case by simp
  next
    case (Cons c cs)
    have "(case cut_stream minlen info a of
        (fs, r) \<Rightarrow> let (gs, r') = cut_stream minlen info (r @ c) in (fs @ gs, r')) =
      cut_stream minlen info (a @ c)"
      using cut_append [of a c] by (simp add: Let_def)
    with Cons.IH [of "a @ c"] show ?case by simp
  qed
  from this [of "[]"] show ?thesis by (simp add: nil)
qed

text \<open>A frame after bytes that are no STX is found, and the stream goes on behind it.\<close>

lemma cut_resync:
  assumes "GW_STX \<notin> set noise" "info f = Frame (length f) bl" "f \<noteq> []" "f ! 0 = GW_STX"
  shows "cut_stream minlen info (noise @ f @ rest) =
    (let (fs, r) = cut_stream minlen info rest in (f # fs, r))"
proof -
  have "to_stx f = f" using assms(3,4) by (cases f) (auto simp: to_stx_def)
  moreover have "to_stx noise = []" using assms(1) by (auto simp: to_stx_def)
  ultimately have "to_stx (noise @ f @ rest) = f @ rest" using assms(3) by (simp add: to_stx_append)
  moreover have "info (f @ rest) = Frame (length f) bl" using frame_stable [OF assms(2)] .
  ultimately show ?thesis
    using frame_len [OF assms(2)] assms(3) by (simp add: cut_stream.simps [of _ _ "noise @ f @ rest"] Let_def)
qed

end

section \<open>The two recognisers\<close>

lemma compact_scan_append:
  "compact_scan i xs \<noteq> Short \<Longrightarrow> compact_scan i (xs @ ys) = compact_scan i xs"
  by (induction i xs rule: compact_scan.induct) (auto split: if_splits)

lemma compact_scan_Frame:
  "compact_scan i xs = Frame n bl \<Longrightarrow> 3 \<le> i \<Longrightarrow>
     i < n \<and> n \<le> i + length xs \<and> n = bl + 4 \<and> bl \<le> 256 \<and> xs ! (n - 1 - i) = GW_ETX \<and>
     compact_scan i (take (n - i) xs) = Frame n bl"
proof (induction i xs rule: compact_scan.induct)
  case (1 i)
  then show ?case by simp
next
  case (2 i b bs)
  show ?case
  proof (cases "b = GW_ETX")
    case True
    with 2 show ?thesis by (auto split: if_splits)
  next
    case False
    with 2 have r: "compact_scan (i + 1) bs = Frame n bl" "\<not> i - 3 \<ge> 256" by (simp_all split: if_splits)
    have "3 \<le> i + 1" using 2 by simp
    note IH = 2(1) [OF False r(2,1) this]
    from IH have k: "n - 1 - i = Suc (n - 1 - (i + 1))" "n - i = Suc (n - (i + 1))" by linarith+
    have "(b # bs) ! (n - 1 - i) = GW_ETX" unfolding k(1) nth_Cons_Suc using IH by blast
    moreover from IH have "compact_scan (i + 1) (take (n - (i + 1)) bs) = Frame n bl" by blast
    then have "compact_scan i (take (n - i) (b # bs)) = Frame n bl"
      unfolding k(2) take_Suc_Cons compact_scan.simps(2) using r(2) False by (simp only: if_False)
    moreover have "i < n" "n \<le> i + length (b # bs)" using IH by auto
    ultimately show ?thesis using IH by blast
  qed
qed

lemma compact_scan_Short: "compact_scan i xs = Short \<Longrightarrow> 3 \<le> i \<Longrightarrow> i \<le> 259 \<Longrightarrow> i + length xs \<le> 259"
  by (induction i xs rule: compact_scan.induct) (auto split: if_splits)

lemma compact_frame_len:
  assumes "gw_srv_rx_frame_info p = Frame n bl"
  shows "n = bl + 4 \<and> bl \<le> 256 \<and> n \<le> length p \<and> p ! 0 = GW_STX \<and> p ! (n - 1) = GW_ETX \<and>
    (p ! 1 = GW_MSG_SYNC \<longrightarrow> bl = 14) \<and> gw_srv_rx_frame_info (take n p) = Frame n bl"
proof (cases "p ! 1 = GW_MSG_SYNC")
  case True
  with assms show ?thesis by (auto simp: gw_srv_rx_frame_info_def split: if_splits)
next
  case False
  then have p: "3 \<le> length p" "p ! 0 = GW_STX" "compact_scan 3 (drop 3 p) = Frame n bl"
    using assms by (auto simp: gw_srv_rx_frame_info_def split: if_splits)
  note c = compact_scan_Frame [OF p(3)]
  have d: "n = bl + 4" "n \<le> length p" using c p(1) by auto
  then have "drop 3 p ! (n - 1 - 3) = p ! (n - 1)" using p(1) by simp
  moreover have "drop 3 (take n p) = take (n - 3) (drop 3 p)" by (simp add: drop_take)
  ultimately show ?thesis
    using c d p False by (simp add: gw_srv_rx_frame_info_def)
qed

lemma sess_frame_len:
  assumes "gw_srv_sess_rx_frame_info p = Frame n bl"
  shows "n = bl + 6 \<and> bl \<le> 256 \<and> n \<le> length p \<and> p ! 0 = GW_STX \<and> p ! (n - 1) = GW_ETX \<and>
    bl = unat (sys_get_be16 (p ! 1) (p ! 2)) \<and> gw_srv_sess_rx_frame_info (take n p) = Frame n bl"
  using assms by (auto simp: gw_srv_sess_rx_frame_info_def Let_def split: if_splits)

lemma sess_info_append:
  assumes "gw_srv_sess_rx_frame_info p \<noteq> Short"
  shows "gw_srv_sess_rx_frame_info (p @ q) = gw_srv_sess_rx_frame_info p"
proof -
  let ?bl = "unat (sys_get_be16 (p ! 1) (p ! 2))"
  have len: "\<not> length p < 6" "\<not> length (p @ q) < 6"
    using assms by (auto simp: gw_srv_sess_rx_frame_info_def)
  then have "0 < length p" "1 < length p" "2 < length p" by linarith+
  then have nth: "(p @ q) ! 0 = p ! 0" "(p @ q) ! 1 = p ! 1" "(p @ q) ! 2 = p ! 2"
    by (simp_all only: nth_append if_True)
  show ?thesis
  proof (cases "p ! 0 \<noteq> GW_STX \<or> ?bl > 256")
    case True
    with len nth show ?thesis by (auto simp: gw_srv_sess_rx_frame_info_def Let_def)
  next
    case False
    then have need: "\<not> length p < 5 + ?bl + 1"
      using assms len by (auto simp: gw_srv_sess_rx_frame_info_def Let_def)
    then have "\<not> length (p @ q) < 5 + ?bl + 1" "(p @ q) ! (5 + ?bl) = p ! (5 + ?bl)"
      by (simp_all add: nth_append)
    with False len nth need show ?thesis
      unfolding gw_srv_sess_rx_frame_info_def Let_def by simp
  qed
qed

lemma hs_info_append:
  assumes "gw_srv_rx_frame_info p \<noteq> Short"
  shows "gw_srv_rx_frame_info (p @ q) = gw_srv_rx_frame_info p"
proof -
  have len: "\<not> length p < 3" "\<not> length (p @ q) < 3"
    using assms by (auto simp: gw_srv_rx_frame_info_def)
  then have "0 < length p" "1 < length p" by linarith+
  then have nth: "(p @ q) ! 0 = p ! 0" "(p @ q) ! 1 = p ! 1"
    by (simp_all only: nth_append if_True)
  show ?thesis
  proof (cases "p ! 0 = GW_STX \<and> p ! 1 = GW_MSG_SYNC")
    case True
    with assms have "\<not> length p < 18" by (auto simp: gw_srv_rx_frame_info_def split: if_splits)
    then show ?thesis using True len nth by (simp add: gw_srv_rx_frame_info_def nth_append)
  next
    case False
    with assms len nth compact_scan_append [of 3 "drop 3 p" q] show ?thesis
      by (auto simp: gw_srv_rx_frame_info_def split: if_splits)
  qed
qed

interpretation hs: stream_parser 3 260 gw_srv_rx_frame_info
proof unfold_locales
  fix p q n bl w
  show "gw_srv_rx_frame_info p = Frame n bl \<Longrightarrow> gw_srv_rx_frame_info (p @ q) = Frame n bl"
    using hs_info_append [of p q] by simp
  show "gw_srv_rx_frame_info p = Bad w \<Longrightarrow> gw_srv_rx_frame_info (p @ q) = Bad w"
    using hs_info_append [of p q] by simp
  show "gw_srv_rx_frame_info p = Short \<Longrightarrow> length p < 260"
    using compact_scan_Short [of 3 "drop 3 p"]
    by (auto simp: gw_srv_rx_frame_info_def split: if_splits)
qed (auto dest: compact_frame_len)

interpretation sess: stream_parser 6 262 gw_srv_sess_rx_frame_info
proof unfold_locales
  fix p q n bl w
  show "gw_srv_sess_rx_frame_info p = Frame n bl \<Longrightarrow> gw_srv_sess_rx_frame_info (p @ q) = Frame n bl"
    using sess_info_append [of p q] by simp
  show "gw_srv_sess_rx_frame_info p = Bad w \<Longrightarrow> gw_srv_sess_rx_frame_info (p @ q) = Bad w"
    using sess_info_append [of p q] by simp
  show "gw_srv_sess_rx_frame_info p = Short \<Longrightarrow> length p < 262"
    by (auto simp: gw_srv_sess_rx_frame_info_def Let_def split: if_splits)
qed (auto dest: sess_frame_len)

section \<open>Properties of the frames\<close>

text \<open>A frame as the server builds it for the session.\<close>

definition sess_frame :: "u8 \<Rightarrow> u8 \<Rightarrow> bytes \<Rightarrow> bytes" where
  "sess_frame msg_type seq body =
     [GW_STX] @ sys_put_be16 (word_of_nat (length body)) @ [msg_type, seq] @ body @ [GW_ETX]"

lemma length_sess_frame [simp]: "length (sess_frame m q body) = length body + 6"
  by (simp add: sess_frame_def)

lemma sess_frame_info:
  assumes "length body \<le> GW_MAX_BODY"
  shows "gw_srv_sess_rx_frame_info (sess_frame m q body) = Frame (length body + 6) (length body)"
proof -
  have "unat (word_of_nat (length body) :: u16) = length body" using assms by (intro unat_of_nat_u16) simp
  moreover have "sess_frame m q body =
      [GW_STX, ucast (drop_bit 8 (word_of_nat (length body) :: u16)), ucast (word_of_nat (length body) :: u16), m, q] @
      body @ [GW_ETX]"
    by (simp add: sess_frame_def sys_put_be16_def)
  ultimately show ?thesis
    using assms by (simp add: gw_srv_sess_rx_frame_info_def Let_def nth_append)
qed

lemma cut_messages:
  assumes "\<forall>(noise, m, q, body) \<in> set msgs. GW_STX \<notin> set noise \<and> length body \<le> GW_MAX_BODY"
  shows "cut_stream 6 gw_srv_sess_rx_frame_info
      (concat (map (\<lambda>(noise, m, q, body). noise @ sess_frame m q body) msgs)) =
    (map (\<lambda>(noise, m, q, body). sess_frame m q body) msgs, [])"
  using assms
proof (induction msgs)
  case Nil
  then show ?case by (simp add: cut_stream.simps)
next
  case (Cons msg msgs)
  obtain noise m q body where msg: "msg = (noise, m, q, body)" by (cases msg)
  have n: "GW_STX \<notin> set noise" "length body \<le> GW_MAX_BODY" using Cons.prems msg by simp_all
  have f: "sess_frame m q body \<noteq> []" "sess_frame m q body ! 0 = GW_STX" by (simp_all add: sess_frame_def)
  have "gw_srv_sess_rx_frame_info (sess_frame m q body) = Frame (length (sess_frame m q body)) (length body)"
    using sess_frame_info [OF n(2)] by simp
  from sess.cut_resync [OF n(1) this f] Cons show ?case by (simp add: msg)
qed



text \<open>What the board sends compactly reads back: for every compact frame the board builds,
  the handshake recogniser finds exactly its body, provided a SYNC type carries 14 bytes and
  any other body contains no ETX byte.\<close>

theorem compact_build_parse:
  assumes "gw_build_compact_tx cap m q body = Inr f"
    and "if m = GW_MSG_SYNC then length body = 14 else GW_ETX \<notin> set body"
  shows "gw_srv_rx_frame_info (f @ rest) = Frame (length body + 4) (length body) \<and>
         take (length body) (drop 3 f) = body \<and> f ! 1 = m \<and> f ! 2 = q \<and> length f \<le> cap"
proof -
  from assms(1) have f: "f = [GW_STX, m, q] @ body @ [GW_ETX]" and len: "length body \<le> 256"
    "length f \<le> cap"
    by (auto simp: gw_build_compact_tx_def Let_def split: if_splits)
  have scan: "compact_scan i (body @ [GW_ETX]) = Frame (i + length body + 1) (i + length body - 3)"
    if "GW_ETX \<notin> set body" "i + length body \<le> 259" "3 \<le> i" for i
    using that
  proof (induction body arbitrary: i)
    case (Cons b body)
    from Cons.prems have "compact_scan (i + 1) (body @ [GW_ETX]) =
        Frame (i + 1 + length body + 1) (i + 1 + length body - 3)"
      by (intro Cons.IH) auto
    with Cons.prems show ?case by auto
  qed auto
  have "gw_srv_rx_frame_info f = Frame (length body + 4) (length body)"
  proof (cases "m = GW_MSG_SYNC")
    case True
    with assms(2) have "length body = 14" by simp
    then show ?thesis by (simp add: f True gw_srv_rx_frame_info_def nth_append)
  next
    case False
    with assms(2) have "compact_scan 3 (body @ [GW_ETX]) = Frame (length body + 4) (length body)"
      using scan [of 3] len by simp
    then show ?thesis using False by (simp add: f gw_srv_rx_frame_info_def)
  qed
  with hs.frame_stable [OF this, of rest] len f show ?thesis by simp
qed

theorem compact_build_parse_witness:
  "gw_srv_rx_frame_info ([0x55, 0x80, 0, 0x41, 0x42, 1, 2, 0, 0, 3] @ [0x55]) = Frame 10 6"
  using compact_build_parse [of 271 "0x80" 0 "[0x41, 0x42, 1, 2, 0, 0]" "[0x55, 0x80, 0, 0x41, 0x42, 1, 2, 0, 0, 3]" "[0x55]"]
  by (simp add: gw_build_compact_tx_def)

end
