(* ===== verification/Gw_Error.thy ===== *)
theory Gw_Error
  imports Gw_Prelude
begin

text \<open>
  \<^verbatim>\<open>src/gw_error.c\<close>: the one-byte error latch that the UDP payload and the TCP alarm
  frame report, and the validation of the 14-byte SYNC body (9 bytes of time, 5 bytes of
  serial line configuration).  The latch \<open>gw_err_code\<close> is an explicit argument.  The
  platform's \<open>timeutil_timegm\<close> is not part of the repository: it is the parameter
  \<open>timegm\<close> of the definitions, and what a property relies on is its documented
  conversion of a calendar date to a POSIX epoch offset.
\<close>

section \<open>Error codes\<close>

abbreviation (input) GW_ERR_NONE :: u8 where "GW_ERR_NONE \<equiv> 0"
abbreviation (input) GW_ERR_INIT_CFG :: u8 where "GW_ERR_INIT_CFG \<equiv> 1"
abbreviation (input) GW_ERR_RS232_NO_RESPONSE :: u8 where "GW_ERR_RS232_NO_RESPONSE \<equiv> 2"
abbreviation (input) GW_ERR_ADC7327_SPI :: u8 where "GW_ERR_ADC7327_SPI \<equiv> 3"
abbreviation (input) GW_ERR_TCP_COMM :: u8 where "GW_ERR_TCP_COMM \<equiv> 4"
abbreviation (input) GW_ERR_UDP_COMM :: u8 where "GW_ERR_UDP_COMM \<equiv> 5"

abbreviation (input) GW_TIME_WIRE_LEN :: nat where "GW_TIME_WIRE_LEN \<equiv> 9"
abbreviation (input) GW_RS232_CFG_WIRE_LEN :: nat where "GW_RS232_CFG_WIRE_LEN \<equiv> 5"
abbreviation (input) GW_SYNC_BODY_LEN :: nat where
  "GW_SYNC_BODY_LEN \<equiv> GW_TIME_WIRE_LEN + GW_RS232_CFG_WIRE_LEN"
abbreviation (input) GW_SYNC_RS232_OFFSET :: nat where "GW_SYNC_RS232_OFFSET \<equiv> GW_TIME_WIRE_LEN"

abbreviation (input) GW_RS232_MODBUS_RETRIES :: nat where "GW_RS232_MODBUS_RETRIES \<equiv> 5"

section \<open>The latch\<close>

definition gw_error_set :: "u8 \<Rightarrow> u8 \<Rightarrow> u8" where
  "gw_error_set code st = (if code > GW_ERR_UDP_COMM then st else code)"

definition gw_error_clear :: "u8 \<Rightarrow> u8" where
  "gw_error_clear st = GW_ERR_NONE"

definition gw_error_get :: "u8 \<Rightarrow> u8" where
  "gw_error_get st = st"

text \<open>The codes the latch may hold.\<close>

definition err_wf :: "u8 \<Rightarrow> bool" where
  "err_wf st \<longleftrightarrow> st \<le> GW_ERR_UDP_COMM"

lemma err_wf_clear [simp]: "err_wf (gw_error_clear st)"
  by (simp add: err_wf_def gw_error_clear_def)

lemma err_wf_set [simp]: "err_wf st \<Longrightarrow> err_wf (gw_error_set c st)"
  by (auto simp: err_wf_def gw_error_set_def)

lemma gw_error_get_clear [simp]: "gw_error_get (gw_error_clear st) = GW_ERR_NONE"
  by (simp add: gw_error_get_def gw_error_clear_def)

lemma gw_error_get_set [simp]:
  "gw_error_get (gw_error_set c st) = (if c \<le> GW_ERR_UDP_COMM then c else gw_error_get st)"
  by (auto simp: gw_error_get_def gw_error_set_def)

section \<open>Validation of the SYNC body\<close>

text \<open>A null pointer is \<open>None\<close>; a pointer with a length is \<open>Some\<close> of the bytes.\<close>

definition gw_rs232_wire_cfg_check :: "bytes option \<Rightarrow> u8" where
  "gw_rs232_wire_cfg_check cfgp =
     (case cfgp of
        None \<Rightarrow> GW_ERR_INIT_CFG
      | Some cfg \<Rightarrow>
          if \<not> (cfg ! 0 = 0x00 \<or> cfg ! 0 = 0x01) then GW_ERR_INIT_CFG
          else if \<not> (cfg ! 1 = 0x00 \<or> cfg ! 1 = 0x01) then GW_ERR_INIT_CFG
          else if \<not> (cfg ! 2 = 0x00 \<or> cfg ! 2 = 0x01) then GW_ERR_INIT_CFG
          else if \<not> (cfg ! 3 = 0x00 \<or> cfg ! 3 = 0x01 \<or> cfg ! 3 = 0x02) then GW_ERR_INIT_CFG
          else if \<not> (cfg ! 4 = 0x00 \<or> cfg ! 4 = 0x01) then GW_ERR_INIT_CFG
          else GW_ERR_NONE)"

text \<open>\<open>struct tm\<close>, the fields the code fills in.\<close>

record tm =
  tm_year :: int
  tm_mon :: int
  tm_mday :: int
  tm_hour :: int
  tm_min :: int
  tm_sec :: int

definition sync_body_tm :: "bytes \<Rightarrow> tm" where
  "sync_body_tm body =
     \<lparr>tm_year = uint (sys_get_be16 (body ! 0) (body ! 1)) - 1900,
      tm_mon = uint (body ! 2) - 1, tm_mday = uint (body ! 3),
      tm_hour = uint (body ! 4), tm_min = uint (body ! 5), tm_sec = uint (body ! 6)\<rparr>"

definition gw_sync_body_check :: "(tm \<Rightarrow> int) \<Rightarrow> bytes option \<Rightarrow> u8" where
  "gw_sync_body_check timegm bodyp =
     (case bodyp of
        None \<Rightarrow> GW_ERR_INIT_CFG
      | Some body \<Rightarrow>
          if length body \<noteq> GW_SYNC_BODY_LEN then GW_ERR_INIT_CFG
          else if gw_rs232_wire_cfg_check (Some (drop GW_SYNC_RS232_OFFSET body)) \<noteq> GW_ERR_NONE
          then GW_ERR_INIT_CFG
          else
            let year = sys_get_be16 (body ! 0) (body ! 1);
                mon = body ! 2; day = body ! 3; hour = body ! 4;
                min = body ! 5; sec = body ! 6;
                msec = sys_get_be16 (body ! 7) (body ! 8)
            in if year < 2000 \<or> year > 2099 then GW_ERR_INIT_CFG
               else if mon < 1 \<or> mon > 12 then GW_ERR_INIT_CFG
               else if day < 1 \<or> day > 31 then GW_ERR_INIT_CFG
               else if hour > 23 \<or> min > 59 \<or> sec > 59 then GW_ERR_INIT_CFG
               else if msec > 999 then GW_ERR_INIT_CFG
               else if timegm (sync_body_tm body) = - 1 then GW_ERR_INIT_CFG
               else GW_ERR_NONE)"

text \<open>What the two checks accept, field by field.\<close>

definition wire_cfg_ok :: "bytes \<Rightarrow> bool" where
  "wire_cfg_ok cfg \<longleftrightarrow> length cfg = GW_RS232_CFG_WIRE_LEN \<and>
     list_all2 (\<le>) (map unat cfg) [1, 1, 1, 2, 1]"

definition wire_time_ok :: "bytes \<Rightarrow> bool" where
  "wire_time_ok t \<longleftrightarrow> length t = GW_TIME_WIRE_LEN \<and>
     unat (sys_get_be16 (t ! 0) (t ! 1)) \<in> {2000..2099} \<and>
     unat (t ! 2) \<in> {1..12} \<and> unat (t ! 3) \<in> {1..31} \<and>
     unat (t ! 4) \<le> 23 \<and> unat (t ! 5) \<le> 59 \<and> unat (t ! 6) \<le> 59 \<and>
     unat (sys_get_be16 (t ! 7) (t ! 8)) \<le> 999"

lemma unat_le_1_iff: "unat (b :: u8) \<le> Suc 0 \<longleftrightarrow> b = 0 \<or> b = 1"
  by (auto simp: word_unat_eq_iff)

lemma unat_le_2_iff: "unat (b :: u8) \<le> 2 \<longleftrightarrow> b = 0 \<or> b = 1 \<or> b = 2"
  by (auto simp: word_unat_eq_iff)

lemma length_5_conv: "length xs = 5 \<longleftrightarrow> (\<exists>a b c d e. xs = [a, b, c, d, e])"
  by (auto simp: length_Suc_conv numeral_eq_Suc)

lemma wire_cfg_check_iff:
  assumes "length cfg = GW_RS232_CFG_WIRE_LEN"
  shows "gw_rs232_wire_cfg_check (Some cfg) = GW_ERR_NONE \<longleftrightarrow> wire_cfg_ok cfg"
proof -
  obtain a b c d e where [simp]: "cfg = [a, b, c, d, e]"
    using assms unfolding length_5_conv by blast
  show ?thesis
    by (simp add: gw_rs232_wire_cfg_check_def wire_cfg_ok_def unat_le_1_iff unat_le_2_iff
        if_else_merge)
qed

lemma word_range_unat:
  "\<not> ((w :: 'a::len word) < a \<or> w > b) \<longleftrightarrow> unat w \<in> {unat a..unat b}"
  by (auto simp: word_less_nat_alt not_less)

lemma word_le_unat: "\<not> (w :: 'a::len word) > b \<longleftrightarrow> unat w \<le> unat b"
  by (simp add: word_less_nat_alt not_less)

lemma wire_time_ok_take:
  assumes "length body = GW_SYNC_BODY_LEN"
  shows "wire_time_ok (take 9 body) \<longleftrightarrow>
     \<not> (sys_get_be16 (body ! 0) (body ! 1) < 2000 \<or> sys_get_be16 (body ! 0) (body ! 1) > 2099) \<and>
     \<not> (body ! 2 < 1 \<or> body ! 2 > 12) \<and> \<not> (body ! 3 < 1 \<or> body ! 3 > 31) \<and>
     \<not> body ! 4 > 23 \<and> \<not> body ! 5 > 59 \<and> \<not> body ! 6 > 59 \<and>
     \<not> sys_get_be16 (body ! 7) (body ! 8) > 999"
proof -
  have num: "unat (2000 :: u16) = 2000" "unat (2099 :: u16) = 2099" "unat (999 :: u16) = 999"
    "unat (1 :: u8) = 1" "unat (12 :: u8) = 12" "unat (31 :: u8) = 31" "unat (23 :: u8) = 23"
    "unat (59 :: u8) = 59"
    by simp_all
  have nth: "take 9 body ! 0 = body ! 0" "take 9 body ! 1 = body ! 1"
    "take 9 body ! 2 = body ! 2" "take 9 body ! 3 = body ! 3" "take 9 body ! 4 = body ! 4"
    "take 9 body ! 5 = body ! 5" "take 9 body ! 6 = body ! 6" "take 9 body ! 7 = body ! 7"
    "take 9 body ! 8 = body ! 8" and len: "length (take 9 body) = 9"
    using assms by simp_all
  show ?thesis
    unfolding word_range_unat word_le_unat wire_time_ok_def num nth len by blast
qed

lemma sync_body_check_range: "gw_sync_body_check timegm bodyp \<in> {GW_ERR_NONE, GW_ERR_INIT_CFG}"
  by (simp add: gw_sync_body_check_def Let_def split: option.split)

lemma sync_body_check_ok:
  "gw_sync_body_check timegm (Some body) = GW_ERR_NONE \<longleftrightarrow>
     length body = 14 \<and> wire_time_ok (take 9 body) \<and> wire_cfg_ok (drop 9 body) \<and>
     timegm (sync_body_tm body) \<noteq> - 1"
proof (cases "length body = 14")
  case True
  then have "length (drop 9 body) = GW_RS232_CFG_WIRE_LEN" by simp
  note cfg = wire_cfg_check_iff [OF this]
  have time: "length body = GW_SYNC_BODY_LEN" using True by simp
  have if_none: "(if P then GW_ERR_INIT_CFG else GW_ERR_NONE) = GW_ERR_NONE \<longleftrightarrow> \<not> P" for P
    by simp
  show ?thesis
    unfolding gw_sync_body_check_def Let_def option.case if_else_merge
      wire_time_ok_take [OF time] if_none using True time cfg by blast
next
  case False
  then show ?thesis by (simp add: gw_sync_body_check_def)
qed

text \<open>C19: \<open>gw_sync_body_check\<close> accepts a SYNC body exactly when it is 14 bytes long, its
  time part is in range (year 2000 to 2099, month, day, hour, minute, second, millisecond),
  its five serial line bytes are codes the line driver knows, and the platform can convert
  the date.  Every other body, and a null pointer, gives \<open>GW_ERR_INIT_CFG\<close>.\<close>

theorem gw_sync_body_check_iff:
  "gw_sync_body_check timegm bodyp =
     (case bodyp of
        None \<Rightarrow> GW_ERR_INIT_CFG
      | Some body \<Rightarrow>
          if length body = 14 \<and> wire_time_ok (take 9 body) \<and> wire_cfg_ok (drop 9 body) \<and>
             timegm (sync_body_tm body) \<noteq> - 1
          then GW_ERR_NONE else GW_ERR_INIT_CFG)"
proof (cases bodyp)
  case None
  then show ?thesis by (simp add: gw_sync_body_check_def)
next
  case (Some body)
  then show ?thesis
    using sync_body_check_ok [of timegm body] sync_body_check_range [of timegm "Some body"]
    by auto
qed

end
