(* ===== verification/Time_Helper.thy ===== *)
theory Time_Helper
  imports Gw_Error "HOL-Library.Product_Lexorder"
begin

text \<open>
  \<^verbatim>\<open>src/time_helper.c\<close>: the wall clock of the gateway.  The clock state (the statics
  \<open>wall_synced\<close>, \<open>sync_unix_sec\<close>, \<open>sync_msec\<close>, \<open>sync_uptime_ms\<close>) is a record;
  the platform's uptime is an argument of the functions that read it.  The spin lock
  around the state makes each access atomic, so an access is one step of the model.
  The first section gives the calendar the code is measured against.
\<close>

section \<open>The calendar\<close>

definition leap :: "nat \<Rightarrow> bool" where
  "leap y \<longleftrightarrow> (y mod 4 = 0 \<and> y mod 100 \<noteq> 0) \<or> y mod 400 = 0"

definition year_len :: "nat \<Rightarrow> nat" where
  "year_len y = 365 + (if leap y then 1 else 0)"

definition month_lens :: "nat \<Rightarrow> nat list" where
  "month_lens y = [31, if leap y then 29 else 28, 31, 30, 31, 30, 31, 31, 30, 31, 30, 31]"

text \<open>Days from 1970-01-01 to the first day of year \<open>y\<close>, and from the first day of the
  year to the first of month \<open>m\<close> (counted from 1).\<close>

definition days_before_year :: "nat \<Rightarrow> nat" where
  "days_before_year y = (\<Sum>k = 1970..<y. year_len k)"

definition days_before_month :: "nat \<Rightarrow> nat \<Rightarrow> nat" where
  "days_before_month y m = sum_list (take (m - 1) (month_lens y))"

record datetime_t =
  dt_year :: u16
  dt_month :: u8
  dt_day :: u8
  dt_hour :: u8
  dt_min :: u8
  dt_sec :: u8

definition datetime_valid :: "datetime_t \<Rightarrow> bool" where
  "datetime_valid dt \<longleftrightarrow>
     1970 \<le> unat (dt_year dt) \<and> 1 \<le> unat (dt_month dt) \<and> unat (dt_month dt) \<le> 12 \<and>
     1 \<le> unat (dt_day dt) \<and> unat (dt_day dt) \<le> month_lens (unat (dt_year dt)) ! (unat (dt_month dt) - 1) \<and>
     unat (dt_hour dt) \<le> 23 \<and> unat (dt_min dt) \<le> 59 \<and> unat (dt_sec dt) \<le> 59"

text \<open>Seconds from 1970-01-01T00:00:00Z to a date.\<close>

definition civil_seconds :: "datetime_t \<Rightarrow> nat" where
  "civil_seconds dt =
     86400 * (days_before_year (unat (dt_year dt)) +
              days_before_month (unat (dt_year dt)) (unat (dt_month dt)) + (unat (dt_day dt) - 1)) +
     3600 * unat (dt_hour dt) + 60 * unat (dt_min dt) + unat (dt_sec dt)"

section \<open>From seconds to a date\<close>

text \<open>The year loop and the month loop of \<open>seconds_to_datetime\<close>.  The subtractions on
  the C code's \<open>uint32_t\<close> locals are guarded by the loop conditions, and their values stay
  below \<open>2 ^ 32\<close>, so they are naturals here; the stores into the fields of
  \<open>datetime_t\<close> truncate to the width of the field.\<close>

function year_loop :: "nat \<Rightarrow> nat \<Rightarrow> nat \<times> nat" where
  "year_loop d y =
     (if d \<ge> 365 + (if (y mod 4 = 0 \<and> y mod 100 \<noteq> 0) \<or> y mod 400 = 0 then 1 else 0)
      then year_loop
             (d - (365 + (if (y mod 4 = 0 \<and> y mod 100 \<noteq> 0) \<or> y mod 400 = 0 then 1 else 0)))
             (y + 1)
      else (d, y))"
  by pat_completeness auto
termination
  by (relation "measure fst") auto

declare year_loop.simps [simp del]

fun month_loop :: "nat list \<Rightarrow> nat \<Rightarrow> nat \<Rightarrow> nat \<times> nat" where
  "month_loop [] d month = (d, month)"
| "month_loop (m # ms) d month =
     (if d < m then (d, month) else month_loop ms (d - m) (month + 1))"

definition seconds_to_datetime :: "u32 \<Rightarrow> datetime_t" where
  "seconds_to_datetime s0 =
     (let d0 = unat s0 div 86400; r = unat s0 mod 86400;
          h = r div 3600; r' = r mod 3600; m = r' div 60; s = r' mod 60;
          (d1, y) = year_loop d0 1970;
          md = [31, 28, 31, 30, 31, 30, 31, 31, 30, 31, 30, 31];
          md' = (if (y mod 4 = 0 \<and> y mod 100 \<noteq> 0) \<or> y mod 400 = 0 then md[1 := 29] else md);
          (d2, mon) = month_loop md' d1 1
      in \<lparr>dt_year = word_of_nat y, dt_month = word_of_nat mon, dt_day = word_of_nat (d2 + 1),
          dt_hour = word_of_nat h, dt_min = word_of_nat m, dt_sec = word_of_nat s\<rparr>)"

lemma year_loop_step:
  "year_loop d y = (if d \<ge> year_len y then year_loop (d - year_len y) (y + 1) else (d, y))"
  by (subst year_loop.simps) (simp add: year_len_def leap_def)

lemma year_loop_result:
  "year_loop d y = (r, y') \<Longrightarrow> y \<le> y' \<and> r < year_len y' \<and> d = (\<Sum>k = y..<y'. year_len k) + r"
proof (induction d y rule: year_loop.induct)
  case (1 d y)
  show ?case
  proof (cases "d \<ge> year_len y")
    case True
    with "1.prems" have rec: "year_loop (d - year_len y) (y + 1) = (r, y')"
      by (simp add: year_loop_step [of d y])
    have "y + 1 \<le> y' \<and> r < year_len y' \<and> d - year_len y = (\<Sum>k = y + 1..<y'. year_len k) + r"
      using "1.IH" True rec by (simp add: year_len_def leap_def)
    with True show ?thesis
      using sum.atLeast_Suc_lessThan [of y y' year_len] by auto
  next
    case False
    with "1.prems" show ?thesis by (simp add: year_loop_step [of d y])
  qed
qed

lemma year_loop_eq:
  assumes "y \<le> y'" "r < year_len y'"
  shows "year_loop ((\<Sum>k = y..<y'. year_len k) + r) y = (r, y')"
  using assms(1)
proof (induction rule: inc_induct)
  case base
  show ?case using assms(2) by (simp add: year_loop_step)
next
  case (step n)
  then have "(\<Sum>k = n..<y'. year_len k) + r = year_len n + ((\<Sum>k = Suc n..<y'. year_len k) + r)"
    by (simp add: sum.atLeast_Suc_lessThan)
  with step.IH show ?case
    by (subst year_loop_step) simp
qed

lemma month_loop_result:
  "month_loop ms d m0 = (r, m) \<Longrightarrow> d < sum_list ms \<Longrightarrow>
     \<exists>j < length ms. m = m0 + j \<and> r < ms ! j \<and> d = sum_list (take j ms) + r"
proof (induction ms arbitrary: d m0)
  case Nil
  then show ?case by simp
next
  case (Cons x ms)
  show ?case
  proof (cases "d < x")
    case True
    with Cons.prems show ?thesis by auto
  next
    case False
    then have "month_loop ms (d - x) (m0 + 1) = (r, m)" "d - x < sum_list ms"
      using Cons.prems by auto
    from Cons.IH [OF this] obtain j where
      "j < length ms" "m = m0 + 1 + j" "r < ms ! j" "d - x = sum_list (take j ms) + r"
      by blast
    with False show ?thesis by (intro exI [of _ "Suc j"]) simp
  qed
qed

lemma month_loop_eq:
  "j < length ms \<Longrightarrow> r < ms ! j \<Longrightarrow> month_loop ms (sum_list (take j ms) + r) m0 = (r, m0 + j)"
proof (induction ms arbitrary: j m0)
  case Nil
  then show ?case by simp
next
  case (Cons x ms)
  then show ?case by (cases j) auto
qed

lemma month_lens_sum: "sum_list (month_lens y) = year_len y"
  by (simp add: month_lens_def year_len_def)

lemma length_month_lens [simp]: "length (month_lens y) = 12"
  by (simp add: month_lens_def)

lemma month_lens_le: "j < 12 \<Longrightarrow> month_lens y ! j \<le> 31"
  by (auto simp: month_lens_def numeral_eq_Suc less_Suc_eq_0_disj)

lemma seconds_to_datetime_fields:
  assumes "year_loop (unat s div 86400) 1970 = (d1, y)" "month_loop (month_lens y) d1 1 = (d2, mon)"
  shows "seconds_to_datetime s =
    \<lparr>dt_year = word_of_nat y, dt_month = word_of_nat mon, dt_day = word_of_nat (d2 + 1),
     dt_hour = word_of_nat (unat s mod 86400 div 3600),
     dt_min = word_of_nat (unat s mod 86400 mod 3600 div 60),
     dt_sec = word_of_nat (unat s mod 86400 mod 3600 mod 60)\<rparr>"
proof -
  have "(if (y mod 4 = 0 \<and> y mod 100 \<noteq> 0) \<or> y mod 400 = 0
         then [31, 28, 31, 30, 31, 30, 31, 31, 30, 31, 30, 31][1 := 29]
         else [31, 28, 31, 30, 31, 30, 31, 31, 30, 31, 30, 31]) = month_lens y"
    by (auto simp: month_lens_def leap_def)
  then show ?thesis
    unfolding seconds_to_datetime_def Let_def assms(1) prod.case using assms(2) by simp
qed

lemma sum_year_len_ge: "365 * (y - 1970) \<le> (\<Sum>k = 1970..<y. year_len k)"
proof -
  have "(\<Sum>k = 1970..<y. 365) \<le> (\<Sum>k = 1970..<y. year_len k)"
    by (rule sum_mono) (simp add: year_len_def)
  then show ?thesis by simp
qed

lemma sum_year_len_le: "(\<Sum>k = 1970..<y. year_len k) \<le> 366 * (y - 1970)"
proof -
  have "(\<Sum>k = 1970..<y. year_len k) \<le> (\<Sum>k = 1970..<y. 366)"
    by (rule sum_mono) (simp add: year_len_def)
  then show ?thesis by simp
qed

lemma split_seconds:
  fixes n :: nat
  shows "n = 86400 * (n div 86400) + 3600 * (n mod 86400 div 3600) +
           60 * (n mod 86400 mod 3600 div 60) + n mod 86400 mod 3600 mod 60"
    and "n mod 86400 div 3600 \<le> 23" "n mod 86400 mod 3600 div 60 \<le> 59"
    and "n mod 86400 mod 3600 mod 60 \<le> 59"
proof -
  let ?r = "n mod 86400"
  have "?r < 86400" by simp
  then show "?r div 3600 \<le> 23" by linarith
  have "?r mod 3600 < 3600" by simp
  then show "?r mod 3600 div 60 \<le> 59" by linarith
  show "?r mod 3600 mod 60 \<le> 59" using mod_less_divisor [of 60 "?r mod 3600"] by linarith
  show "n = 86400 * (n div 86400) + 3600 * (?r div 3600) +
      60 * (?r mod 3600 div 60) + ?r mod 3600 mod 60"
    using mult_div_mod_eq [of 86400 n] mult_div_mod_eq [of 3600 ?r]
      mult_div_mod_eq [of 60 "?r mod 3600"] by linarith
qed

lemma day_split: "(r :: nat) < 86400 \<Longrightarrow> (86400 * d + r) div 86400 = d \<and> (86400 * d + r) mod 86400 = r"
  by simp

lemma hms_unique:
  fixes h m s :: nat
  assumes "h \<le> 23" "m \<le> 59" "s \<le> 59"
  shows "(3600 * h + 60 * m + s) div 3600 = h \<and> (3600 * h + 60 * m + s) mod 3600 div 60 = m \<and>
    (3600 * h + 60 * m + s) mod 3600 mod 60 = s"
proof -
  have r: "60 * m + s < 3600" using assms(2,3) by linarith
  have e: "3600 * h + 60 * m + s = 3600 * h + (60 * m + s)" by simp
  have "(3600 * h + (60 * m + s)) div 3600 = h" "(3600 * h + (60 * m + s)) mod 3600 = 60 * m + s"
    using r by simp_all
  moreover have "(60 * m + s) div 60 = m" "(60 * m + s) mod 60 = s"
    using assms(3) by simp_all
  ultimately show ?thesis unfolding e by presburger
qed

lemma seconds_to_datetime_date:
  "datetime_valid (seconds_to_datetime s) \<and> civil_seconds (seconds_to_datetime s) = unat s"
proof -
  obtain d1 y where yl: "year_loop (unat s div 86400) 1970 = (d1, y)"
    by (cases "year_loop (unat s div 86400) 1970")
  obtain d2 mon where ml: "month_loop (month_lens y) d1 1 = (d2, mon)"
    by (cases "month_loop (month_lens y) d1 1")
  from year_loop_result [OF yl] have y: "1970 \<le> y" "d1 < year_len y"
    and days: "unat s div 86400 = days_before_year y + d1"
    by (simp_all add: days_before_year_def)
  have "unat s div 86400 \<le> 49710"
    using unat_u32_less [of s] by linarith
  with days sum_year_len_ge [of y] have ub: "y \<le> 2106"
    by (simp add: days_before_year_def)
  from month_loop_result [OF ml] y(2) obtain j where j: "j < 12" "mon = 1 + j"
    "d2 < month_lens y ! j" "d1 = sum_list (take j (month_lens y)) + d2"
    by (auto simp: month_lens_sum)
  have d2: "d2 < 31" using j(3) month_lens_le [OF j(1), of y] by linarith
  note fields = seconds_to_datetime_fields [OF yl ml]
  note hms = split_seconds [of "unat s"]
  have un: "unat (dt_year (seconds_to_datetime s)) = y"
    "unat (dt_month (seconds_to_datetime s)) = mon" "unat (dt_day (seconds_to_datetime s)) = d2 + 1"
    "unat (dt_hour (seconds_to_datetime s)) = unat s mod 86400 div 3600"
    "unat (dt_min (seconds_to_datetime s)) = unat s mod 86400 mod 3600 div 60"
    "unat (dt_sec (seconds_to_datetime s)) = unat s mod 86400 mod 3600 mod 60"
    unfolding fields datetime_t.select_convs using ub j(1,2) d2 hms(2-4)
    by (intro unat_of_nat_u8 unat_of_nat_u16; linarith)+
  have "civil_seconds (seconds_to_datetime s) = unat s"
    unfolding civil_seconds_def un days_before_month_def using hms(1) days j(2,4) by simp
  moreover have "datetime_valid (seconds_to_datetime s)"
    unfolding datetime_valid_def un using y(1) j hms(2-4) by simp
  ultimately show ?thesis by blast
qed

text \<open>Dates are ordered field by field, from the year down.\<close>

definition datetime_key :: "'a datetime_t_scheme \<Rightarrow> u16 \<times> u8 \<times> u8 \<times> u8 \<times> u8 \<times> u8 \<times> 'a" where
  "datetime_key dt = (dt_year dt, dt_month dt, dt_day dt, dt_hour dt, dt_min dt, dt_sec dt, datetime_t.more dt)"

lemma datetime_key_inject [simp]: "datetime_key a = datetime_key b \<longleftrightarrow> a = b"
  by (cases a; cases b) (simp add: datetime_key_def)

instantiation datetime_t_ext :: (linorder) linorder
begin

definition less_eq_datetime_t_ext :: "'a datetime_t_scheme \<Rightarrow> 'a datetime_t_scheme \<Rightarrow> bool" where
  "less_eq_datetime_t_ext a b \<longleftrightarrow> datetime_key a \<le> datetime_key b"

definition less_datetime_t_ext :: "'a datetime_t_scheme \<Rightarrow> 'a datetime_t_scheme \<Rightarrow> bool" where
  "less_datetime_t_ext a b \<longleftrightarrow> datetime_key a < datetime_key b"

instance
proof
  fix a b c :: "'a datetime_t_scheme"
  show "a < b \<longleftrightarrow> a \<le> b \<and> \<not> b \<le> a"
    unfolding less_eq_datetime_t_ext_def less_datetime_t_ext_def by (rule less_le_not_le)
  show "a \<le> a" "a \<le> b \<or> b \<le> a" unfolding less_eq_datetime_t_ext_def by (rule order.refl linear)+
  show "a \<le> b \<Longrightarrow> b \<le> c \<Longrightarrow> a \<le> c" unfolding less_eq_datetime_t_ext_def by (rule order.trans)
  assume "a \<le> b" "b \<le> a"
  then have "datetime_key a = datetime_key b"
    unfolding less_eq_datetime_t_ext_def by (rule antisym)
  then show "a = b" by simp
qed

end

lemma datetime_less_cases:
  assumes "(a :: datetime_t) < b"
  obtains (Year) "unat (dt_year a) < unat (dt_year b)"
    | (Month) "dt_year a = dt_year b" "unat (dt_month a) < unat (dt_month b)"
    | (Day) "dt_year a = dt_year b" "dt_month a = dt_month b" "unat (dt_day a) < unat (dt_day b)"
    | (Clock) "dt_year a = dt_year b" "dt_month a = dt_month b" "dt_day a = dt_day b"
        "(dt_hour a, dt_min a, dt_sec a) < (dt_hour b, dt_min b, dt_sec b)"
  using assms unfolding less_datetime_t_ext_def datetime_key_def
  by (auto simp: le_less word_less_nat_alt)

text \<open>The day of a valid date lies in its month, and the days of a month before the next one.\<close>

lemma valid_day:
  assumes "datetime_valid dt"
  shows "days_before_month (unat (dt_year dt)) (unat (dt_month dt)) + unat (dt_day dt) \<le>
           sum_list (take (unat (dt_month dt)) (month_lens (unat (dt_year dt))))"
    and "1 \<le> unat (dt_day dt)"
    and "3600 * unat (dt_hour dt) + 60 * unat (dt_min dt) + unat (dt_sec dt) < 86400"
proof -
  let ?m = "unat (dt_month dt)" and ?l = "month_lens (unat (dt_year dt))"
  from assms have m: "Suc (?m - 1) = ?m" "?m - 1 < length ?l" "unat (dt_day dt) \<le> ?l ! (?m - 1)"
    by (auto simp: datetime_valid_def)
  have "take ?m ?l = take (?m - 1) ?l @ [?l ! (?m - 1)]"
    using take_Suc_conv_app_nth [OF m(2)] m(1) by simp
  with m(3) show "days_before_month (unat (dt_year dt)) ?m + unat (dt_day dt) \<le> sum_list (take ?m ?l)"
    by (simp add: days_before_month_def)
  show "1 \<le> unat (dt_day dt)" using assms by (simp add: datetime_valid_def)
  have "unat (dt_hour dt) \<le> 23" "unat (dt_min dt) \<le> 59" "unat (dt_sec dt) \<le> 59"
    using assms by (simp_all add: datetime_valid_def)
  then show "3600 * unat (dt_hour dt) + 60 * unat (dt_min dt) + unat (dt_sec dt) < 86400" by linarith
qed

lemma sum_list_take_mono: "i \<le> j \<Longrightarrow> sum_list (take i ms) \<le> (sum_list (take j ms) :: nat)"
  by (metis le_iff_add take_add sum_list_append)

lemma days_before_year_step: "1970 \<le> y \<Longrightarrow> y < z \<Longrightarrow> days_before_year y + year_len y \<le> days_before_year z"
proof -
  assume y: "1970 \<le> y" "y < z"
  have "days_before_year y + year_len y = (\<Sum>k = 1970..<Suc y. year_len k)"
    using y(1) by (simp add: days_before_year_def)
  also have "\<dots> \<le> days_before_year z"
    unfolding days_before_year_def using y(2) by (intro sum_mono2) auto
  finally show ?thesis .
qed

lemma day_order: "(d :: nat) < d' \<Longrightarrow> r < 86400 \<Longrightarrow> 86400 * d + r < 86400 * d' + r'"
  by linarith

lemma civil_seconds_less:
  assumes "datetime_valid a" "datetime_valid b" "a < b"
  shows "civil_seconds a < civil_seconds b"
proof -
  define day where "day dt = days_before_year (unat (dt_year dt)) +
      days_before_month (unat (dt_year dt)) (unat (dt_month dt)) + (unat (dt_day dt) - 1)" for dt :: datetime_t
  have cs: "civil_seconds dt = 86400 * day dt +
      (3600 * unat (dt_hour dt) + 60 * unat (dt_min dt) + unat (dt_sec dt))" for dt
    by (simp add: civil_seconds_def day_def)
  note va = valid_day [OF assms(1)]
  have later: ?thesis if "day a < day b"
    unfolding cs using that va(3) by (rule day_order)
  from assms(3) show ?thesis
  proof (cases rule: datetime_less_cases)
    case Year
    have "sum_list (take (unat (dt_month a)) (month_lens (unat (dt_year a)))) \<le> year_len (unat (dt_year a))"
      using sum_list_take_mono [of "unat (dt_month a)" 12 "month_lens (unat (dt_year a))"] assms(1)
      by (simp add: datetime_valid_def month_lens_sum)
    moreover have "days_before_year (unat (dt_year a)) + year_len (unat (dt_year a)) \<le>
        days_before_year (unat (dt_year b))"
      using Year assms(1) by (intro days_before_year_step) (simp_all add: datetime_valid_def)
    ultimately show ?thesis using va(1,2) by (intro later) (simp add: day_def)
  next
    case Month
    have "sum_list (take (unat (dt_month a)) (month_lens (unat (dt_year a)))) \<le>
        days_before_month (unat (dt_year b)) (unat (dt_month b))"
      unfolding days_before_month_def Month(1) using Month(2) by (intro sum_list_take_mono) simp
    then show ?thesis using va(1,2) Month(1) by (intro later) (simp add: day_def)
  next
    case Day
    then show ?thesis using va(2) by (intro later) (simp add: day_def)
  next
    case Clock
    have "day a = day b" using Clock(1-3) by (simp add: day_def)
    moreover have "3600 * unat (dt_hour a) + 60 * unat (dt_min a) + unat (dt_sec a) <
        3600 * unat (dt_hour b) + 60 * unat (dt_min b) + unat (dt_sec b)"
    proof -
      have "unat (dt_min a) \<le> 59" "unat (dt_sec a) \<le> 59" using assms(1) by (simp_all add: datetime_valid_def)
      with Clock(4) show ?thesis by (auto simp: word_less_nat_alt le_less)
    qed
    ultimately show ?thesis unfolding cs by simp
  qed
qed

lemma seconds_to_datetime_mono: "strict_mono seconds_to_datetime"
proof (rule strict_monoI)
  fix s s' :: u32
  assume "s < s'"
  then have u: "unat s < unat s'" by (simp add: word_less_nat_alt)
  let ?a = "seconds_to_datetime s" and ?b = "seconds_to_datetime s'"
  have "\<not> ?b < ?a"
    using civil_seconds_less [of ?b ?a] seconds_to_datetime_date [of s] seconds_to_datetime_date [of s'] u
    by fastforce
  moreover have "?a \<noteq> ?b"
    using seconds_to_datetime_date [of s] seconds_to_datetime_date [of s'] u by force
  ultimately show "?a < ?b" by auto
qed

text \<open>C17: \<open>seconds_to_datetime\<close> turns every 32-bit second count into a valid calendar date
  (leap years included), and that date is the one the count denotes: counting the seconds
  from 1970-01-01T00:00:00Z to it gives the argument back.  Later counts give later dates,
  compared field by field from the year down.\<close>

theorem seconds_to_datetime_correct:
  "datetime_valid (seconds_to_datetime s) \<and> civil_seconds (seconds_to_datetime s) = unat s \<and>
   strict_mono seconds_to_datetime"
  using seconds_to_datetime_date seconds_to_datetime_mono by blast

lemma seconds_to_datetime_year: "unat (dt_year (seconds_to_datetime s)) \<in> {1970..2106}"
proof -
  let ?y = "unat (dt_year (seconds_to_datetime s))"
  have c: "datetime_valid (seconds_to_datetime s)" "civil_seconds (seconds_to_datetime s) = unat s"
    using seconds_to_datetime_date by blast+
  have "86400 * days_before_year ?y \<le> unat s" unfolding c(2) [symmetric] civil_seconds_def by simp
  then have "days_before_year ?y \<le> 49710" using unat_u32_less [of s] by linarith
  with sum_year_len_ge [of ?y] have "?y \<le> 2106" by (simp add: days_before_year_def)
  then show ?thesis using c(1) by (simp add: datetime_valid_def)
qed

lemma datetime_seconds_inverse:
  assumes "datetime_valid dt" "civil_seconds dt < 2 ^ 32"
  shows "seconds_to_datetime (word_of_nat (civil_seconds dt)) = dt"
proof -
  let ?y = "unat (dt_year dt)" and ?j = "unat (dt_month dt) - 1" and ?d = "unat (dt_day dt) - 1"
  let ?D = "days_before_year ?y + days_before_month ?y (unat (dt_month dt)) + ?d"
  let ?r = "3600 * unat (dt_hour dt) + 60 * unat (dt_min dt) + unat (dt_sec dt)"
  from assms(1) have v: "1970 \<le> ?y" "?j < 12" "?d < month_lens ?y ! ?j"
    "unat (dt_hour dt) \<le> 23" "unat (dt_min dt) \<le> 59" "unat (dt_sec dt) \<le> 59"
    "unat (dt_month dt) = 1 + ?j" "unat (dt_day dt) = ?d + 1"
    unfolding datetime_valid_def by linarith+
  have cs: "civil_seconds dt = 86400 * ?D + ?r"
    by (simp add: civil_seconds_def)
  have r: "?r < 86400" using v(4-6) by linarith
  have un: "unat (word_of_nat (civil_seconds dt) :: u32) = 86400 * ?D + ?r"
    using assms(2) cs by (subst unat_of_nat_u32) simp_all
  have D: "(86400 * ?D + ?r) div 86400 = ?D" "(86400 * ?D + ?r) mod 86400 = ?r"
    using day_split [OF r, of ?D] by blast+
  have h: "?r div 3600 = unat (dt_hour dt)" "?r mod 3600 div 60 = unat (dt_min dt)"
    "?r mod 3600 mod 60 = unat (dt_sec dt)"
    using hms_unique [OF v(4-6)] by blast+
  let ?d1 = "days_before_month ?y (unat (dt_month dt)) + ?d"
  have ml: "month_loop (month_lens ?y) ?d1 1 = (?d, 1 + ?j)"
    unfolding days_before_month_def using v(2,3) by (intro month_loop_eq) simp_all
  have "sum_list (take (Suc ?j) (month_lens ?y)) \<le> sum_list (month_lens ?y)"
    by (metis append_take_drop_id le_add1 sum_list_append)
  then have "?d1 < year_len ?y"
    using v(2,3) by (simp add: days_before_month_def month_lens_sum take_Suc_conv_app_nth)
  then have "year_loop (days_before_year ?y + ?d1) 1970 = (?d1, ?y)"
    unfolding days_before_year_def using v(1) by (rule year_loop_eq [rotated])
  then have yl: "year_loop (unat (word_of_nat (civil_seconds dt) :: u32) div 86400) 1970 = (?d1, ?y)"
    unfolding un D(1) by (simp only: add.assoc)
  have "word_of_nat (?d + 1) = dt_day dt" "word_of_nat (1 + ?j) = dt_month dt"
    unfolding v(7,8) [symmetric] by simp_all
  then show ?thesis
    unfolding seconds_to_datetime_fields [OF yl ml] un D h by simp
qed

section \<open>The wall clock\<close>

abbreviation (input) BOOT_EPOCH_SEC :: u32 where "BOOT_EPOCH_SEC \<equiv> 1735660800"

record clock_state =
  wall_synced :: bool
  sync_unix_sec :: u64
  sync_msec :: u16
  sync_uptime_ms :: int

definition clock_init :: clock_state where
  "clock_init = \<lparr>wall_synced = False, sync_unix_sec = 0, sync_msec = 0, sync_uptime_ms = 0\<rparr>"

definition time_sync_from_tcp_timesync_body ::
    "(tm \<Rightarrow> int) \<Rightarrow> int \<Rightarrow> bytes option \<Rightarrow> clock_state \<Rightarrow> clock_state" where
  "time_sync_from_tcp_timesync_body timegm uptime bodyp cl =
     (case bodyp of
        None \<Rightarrow> cl
      | Some body \<Rightarrow>
          if length body < 9 then cl
          else
            let msec = sys_get_be16 (body ! 7) (body ! 8); tu = timegm (sync_body_tm body)
            in if tu = - 1 then cl
               else \<lparr>wall_synced = True, sync_unix_sec = word_of_int tu,
                     sync_msec = (if msec \<le> 999 then msec else 0), sync_uptime_ms = uptime\<rparr>)"

text \<open>\<open>uptime\<close> is \<open>k_uptime_get()\<close>; \<open>k_uptime_get_32()\<close> is its low 32 bits.\<close>

definition get_now_unix_ms :: "int \<Rightarrow> clock_state \<Rightarrow> u64 \<times> u16" where
  "get_now_unix_ms uptime cl =
     (if wall_synced cl then
        let delta_ms = uptime - sync_uptime_ms cl;
            delta_ms' = (if delta_ms < 0 then 0 else delta_ms);
            total_ms = (ucast (sync_msec cl) :: u64) + word_of_int delta_ms';
            unix_sec = sync_unix_sec cl + total_ms div 1000;
            msec = ucast (total_ms mod 1000);
            unix_sec' = (if unix_sec > 0xFFFFFFFF then 0xFFFFFFFF else unix_sec)
        in (unix_sec', msec)
      else
        let uptime_ms = (word_of_int uptime :: u32)
        in (ucast (BOOT_EPOCH_SEC + uptime_ms div 1000), ucast (uptime_ms mod 1000)))"

definition clamp_unix :: "u64 \<Rightarrow> u64" where
  "clamp_unix unix_sec = (if unix_sec > 0xFFFFFFFF then 0xFFFFFFFF else unix_sec)"

definition get_datetime :: "int \<Rightarrow> clock_state \<Rightarrow> datetime_t" where
  "get_datetime uptime cl =
     (let (unix_sec, msec) = get_now_unix_ms uptime cl
      in seconds_to_datetime (ucast (clamp_unix unix_sec)))"

definition get_datetime_ms :: "int \<Rightarrow> clock_state \<Rightarrow> datetime_t \<times> u16" where
  "get_datetime_ms uptime cl =
     (let (unix_sec, msec) = get_now_unix_ms uptime cl
      in (seconds_to_datetime (ucast (clamp_unix unix_sec)), msec))"

definition time_encode_now_9 :: "int \<Rightarrow> clock_state \<Rightarrow> bytes" where
  "time_encode_now_9 uptime cl =
     (let (unix_sec, msec) = get_now_unix_ms uptime cl;
          dt = seconds_to_datetime (ucast (clamp_unix unix_sec))
      in sys_put_be16 (dt_year dt) @ [dt_month dt, dt_day dt, dt_hour dt, dt_min dt, dt_sec dt] @
         sys_put_be16 msec)"

lemma length_time_encode_now_9 [simp]: "length (time_encode_now_9 uptime cl) = 9"
  by (simp add: time_encode_now_9_def Let_def split: prod.split)

text \<open>The documented behaviour of \<open>timeutil_timegm\<close>: the POSIX epoch offset of a
  valid calendar date.\<close>

definition datetime_tm :: "datetime_t \<Rightarrow> tm" where
  "datetime_tm dt =
     \<lparr>tm_year = uint (dt_year dt) - 1900, tm_mon = uint (dt_month dt) - 1, tm_mday = uint (dt_day dt),
      tm_hour = uint (dt_hour dt), tm_min = uint (dt_min dt), tm_sec = uint (dt_sec dt)\<rparr>"

definition timegm_posix :: "(tm \<Rightarrow> int) \<Rightarrow> bool" where
  "timegm_posix timegm \<longleftrightarrow>
     (\<forall>dt. datetime_valid dt \<longrightarrow> timegm (datetime_tm dt) = int (civil_seconds dt))"

text \<open>The date a SYNC body carries.\<close>

definition sync_body_datetime :: "bytes \<Rightarrow> datetime_t" where
  "sync_body_datetime body =
     \<lparr>dt_year = sys_get_be16 (body ! 0) (body ! 1), dt_month = body ! 2, dt_day = body ! 3,
      dt_hour = body ! 4, dt_min = body ! 5, dt_sec = body ! 6\<rparr>"

lemma sync_body_tm_datetime: "sync_body_tm body = datetime_tm (sync_body_datetime body)"
  by (simp add: sync_body_tm_def datetime_tm_def sync_body_datetime_def)

text \<open>The clock never steps outside 32-bit seconds.\<close>

lemma get_now_unix_ms_bound: "fst (get_now_unix_ms uptime cl) \<le> 0xFFFFFFFF"
proof (cases "wall_synced cl")
  case True
  then show ?thesis by (simp add: get_now_unix_ms_def Let_def not_less)
next
  case False
  have "unat (ucast (w :: u32) :: u64) \<le> 4294967295" for w
    using unat_u32_less [of w] unfolding unat_ucast_u32_u64 by linarith
  then show ?thesis
    using False by (simp add: get_now_unix_ms_def Let_def word_le_nat_alt)
qed

lemma get_now_unix_ms_msec: "unat (snd (get_now_unix_ms uptime cl)) \<le> 999"
proof -
  have a: "unat (ucast (w mod 1000) :: u16) = unat (w mod 1000)" "unat (w mod 1000) \<le> 999" for w :: u64
  proof -
    have "unat (w mod 1000) = unat w mod 1000" by (simp add: unat_mod_distrib)
    then show "unat (w mod 1000) \<le> 999" by simp
    then show "unat (ucast (w mod 1000) :: u16) = unat (w mod 1000)" by (intro unat_ucast_u64_u16) simp
  qed
  have b: "unat (ucast (w mod 1000) :: u16) \<le> 999" for w :: u32
  proof -
    have m: "unat (w mod 1000) = unat w mod 1000" by (simp add: unat_mod_distrib)
    then have "unat (w mod 1000) < 65536" by simp
    then have "unat (ucast (w mod 1000) :: u16) = unat (w mod 1000)"
      by (simp add: unsigned_ucast_eq take_bit_nat_eq_self)
    with m show ?thesis by simp
  qed
  show ?thesis using a b by (simp add: get_now_unix_ms_def Let_def)
qed

text \<open>The clock reading in natural numbers, before the 32-bit clamp.\<close>

lemma get_now_unix_ms_synced:
  assumes "wall_synced cl" "unat (sync_msec cl) \<le> 999"
    and tot: "tot = unat (sync_msec cl) + nat (uptime - sync_uptime_ms cl)"
    and bound: "unat (sync_unix_sec cl) + tot div 1000 \<le> 0xFFFFFFFF"
    and now: "get_now_unix_ms uptime cl = (s, ms)"
  shows "unat s = unat (sync_unix_sec cl) + tot div 1000 \<and> unat ms = tot mod 1000"
proof -
  let ?delta = "nat (uptime - sync_uptime_ms cl)"
  let ?t = "(ucast (sync_msec cl) :: u64) + word_of_nat ?delta"
  have delta: "word_of_int (if uptime - sync_uptime_ms cl < 0 then 0 else uptime - sync_uptime_ms cl)
      = (word_of_nat ?delta :: u64)"
    by simp
  have "?t = word_of_nat tot" by (simp add: tot)
  moreover have "tot < 18446744073709551616" using bound by linarith
  ultimately have t: "unat ?t = tot" by (simp only: unat_of_nat_u64)
  have sd: "unat (?t div 1000) = tot div 1000" "unat (?t mod 1000) = tot mod 1000"
    by (simp_all only: unat_div_distrib unat_mod_distrib t) simp_all
  have sum: "unat (sync_unix_sec cl + ?t div 1000) = unat (sync_unix_sec cl) + tot div 1000"
  proof -
    have "unat (sync_unix_sec cl) + unat (?t div 1000) < 18446744073709551616"
      unfolding sd using bound by linarith
    then show ?thesis by (simp only: unat_add_u64 sd)
  qed
  have le: "\<not> sync_unix_sec cl + ?t div 1000 > 0xFFFFFFFF"
    unfolding word_le_unat sum using bound by simp
  have "s = sync_unix_sec cl + ?t div 1000" "ms = ucast (?t mod 1000)"
    using now assms(1) le unfolding get_now_unix_ms_def Let_def delta by simp_all
  then show ?thesis
    using sum sd(2) by (simp add: unat_ucast_u64_u16 del: unat_add_u64)
qed

text \<open>Once synchronised, the clock advances with the uptime to the millisecond: as long
  as the second count fits 32 bits, the time read \<open>uptime - sync_uptime_ms\<close> milliseconds
  after the synchronisation is the synchronised time plus exactly that many
  milliseconds, and an uptime that went backwards reads the synchronised time itself.\<close>

theorem clock_advances:
  assumes "wall_synced cl" "unat (sync_msec cl) \<le> 999"
    and "unat (sync_unix_sec cl) + (unat (sync_msec cl) + nat (uptime - sync_uptime_ms cl)) div 1000
           \<le> 0xFFFFFFFF"
    and "get_now_unix_ms uptime cl = (s, ms)"
  shows "1000 * unat s + unat ms =
           1000 * unat (sync_unix_sec cl) + unat (sync_msec cl) + nat (uptime - sync_uptime_ms cl) \<and>
         unat ms \<le> 999"
  using get_now_unix_ms_synced [OF assms(1,2) refl assms(3,4)] by auto

theorem clock_advances_witness:
  "get_now_unix_ms 12345
     \<lparr>wall_synced = True, sync_unix_sec = 1700000000, sync_msec = 700, sync_uptime_ms = 2000\<rparr> =
   (1700000011, 45)"
proof -
  let ?cl = "\<lparr>wall_synced = True, sync_unix_sec = 1700000000, sync_msec = 700, sync_uptime_ms = 2000\<rparr>"
  obtain s ms where n: "get_now_unix_ms 12345 ?cl = (s, ms)" by (cases "get_now_unix_ms 12345 ?cl")
  have a: "1000 * unat s + unat ms = 1700000011045" "unat ms \<le> 999"
    using clock_advances [OF _ _ _ n] by simp_all
  from a(2) have "(1000 * unat s + unat ms) div 1000 = unat s" "(1000 * unat s + unat ms) mod 1000 = unat ms"
    by simp_all
  then have "unat s = unat (1700000011 :: u64)" "unat ms = unat (45 :: u16)"
    unfolding a(1) by simp_all
  then show ?thesis unfolding n by (simp only: word_unat_eq_iff [symmetric])
qed

lemma seconds_of_days_bound:
  "(D :: nat) \<le> 47579 \<Longrightarrow> h \<le> 23 \<Longrightarrow> m \<le> 59 \<Longrightarrow> s \<le> 59 \<Longrightarrow>
     86400 * D + 3600 * h + 60 * m + s < 4294967296"
  by linarith

lemma civil_seconds_bound:
  assumes "datetime_valid dt" "unat (dt_year dt) \<le> 2099"
  shows "civil_seconds dt < 4294967296"
proof -
  let ?y = "unat (dt_year dt)" and ?j = "unat (dt_month dt) - 1"
  from assms(1) have v: "?j < 12" "unat (dt_day dt) - 1 < month_lens ?y ! ?j"
    "unat (dt_hour dt) \<le> 23" "unat (dt_min dt) \<le> 59" "unat (dt_sec dt) \<le> 59"
    unfolding datetime_valid_def by linarith+
  have "sum_list (take (Suc ?j) (month_lens ?y)) \<le> sum_list (month_lens ?y)"
    by (metis append_take_drop_id le_add1 sum_list_append)
  then have "days_before_month ?y (unat (dt_month dt)) + (unat (dt_day dt) - 1) < year_len ?y"
    using v(1,2) by (simp add: days_before_month_def month_lens_sum take_Suc_conv_app_nth)
  moreover have "year_len ?y \<le> 366" by (simp add: year_len_def)
  moreover have "days_before_year ?y \<le> 366 * 129"
    using sum_year_len_le [of ?y] assms(2) unfolding days_before_year_def by linarith
  ultimately have "days_before_year ?y + days_before_month ?y (unat (dt_month dt)) +
      (unat (dt_day dt) - 1) \<le> 47579"
    by linarith
  then show ?thesis
    unfolding civil_seconds_def using v(3-5) by (rule seconds_of_days_bound)
qed

lemma list_9_nth: "length xs \<ge> 9 \<Longrightarrow>
    take 9 xs = [xs ! 0, xs ! 1, xs ! 2, xs ! 3, xs ! 4, xs ! 5, xs ! 6, xs ! 7, xs ! 8]"
  by (rule nth_equalityI) (auto simp: numeral_eq_Suc less_Suc_eq_0_disj)

lemma sync_then_datetime:
  assumes "timegm_posix timegm" "9 \<le> length body" "wire_time_ok (take 9 body)"
    and "unat (body ! 3) \<le>
           month_lens (unat (sys_get_be16 (body ! 0) (body ! 1))) ! (unat (body ! 2) - 1)"
  shows "get_datetime_ms uptime (time_sync_from_tcp_timesync_body timegm uptime (Some body) cl) =
    (sync_body_datetime body, sys_get_be16 (body ! 7) (body ! 8))"
proof -
  let ?dt = "sync_body_datetime body" and ?ms = "sys_get_be16 (body ! 7) (body ! 8)"
  let ?cl = "time_sync_from_tcp_timesync_body timegm uptime (Some body) cl"
  note take9 = list_9_nth [OF assms(2)]
  have t: "unat (sys_get_be16 (body ! 0) (body ! 1)) \<in> {2000..2099}" "unat (body ! 2) \<in> {1..12}"
    "unat (body ! 3) \<in> {1..31}" "unat (body ! 4) \<le> 23" "unat (body ! 5) \<le> 59"
    "unat (body ! 6) \<le> 59" "unat ?ms \<le> 999"
    using assms(3) unfolding wire_time_ok_def take9 by simp_all
  have valid: "datetime_valid ?dt"
    unfolding datetime_valid_def sync_body_datetime_def datetime_t.select_convs
    using t assms(4) by simp
  then have cs: "civil_seconds ?dt < 4294967296"
    using t(1) by (intro civil_seconds_bound) (simp_all add: sync_body_datetime_def)
  have tg: "timegm (sync_body_tm body) = int (civil_seconds ?dt)"
    using assms(1) valid by (simp add: sync_body_tm_datetime timegm_posix_def)
  have "?ms \<le> 999" using t(7) by (simp add: word_le_nat_alt)
  then have cl: "?cl = \<lparr>wall_synced = True, sync_unix_sec = word_of_nat (civil_seconds ?dt),
      sync_msec = ?ms, sync_uptime_ms = uptime\<rparr>"
    using assms(2) tg by (simp add: time_sync_from_tcp_timesync_body_def Let_def)
  have un: "unat (word_of_nat (civil_seconds ?dt) :: u64) = civil_seconds ?dt"
    using cs by (intro unat_of_nat_u64) linarith
  obtain s ms where now: "get_now_unix_ms uptime ?cl = (s, ms)"
    by (cases "get_now_unix_ms uptime ?cl")
  have "unat s = civil_seconds ?dt + unat ?ms div 1000 \<and> unat ms = unat ?ms mod 1000"
    using get_now_unix_ms_synced [OF _ _ refl _ now] t(7) un cs by (simp add: cl)
  then have s: "unat s = civil_seconds ?dt" and ms: "ms = ?ms"
    using t(7) by (simp_all add: word_unat_eq_iff)
  have "clamp_unix s = s"
    using cs s by (simp add: clamp_unix_def word_less_nat_alt)
  moreover have "(ucast s :: u32) = word_of_nat (civil_seconds ?dt)"
    using cs s by (simp add: word_unat_eq_iff unat_ucast_u64_u32 unat_of_nat_u32)
  moreover have "seconds_to_datetime (word_of_nat (civil_seconds ?dt)) = ?dt"
    using datetime_seconds_inverse [OF valid] cs by simp
  ultimately show ?thesis unfolding get_datetime_ms_def now Let_def prod.case ms by simp
qed

lemma time_encode_datetime:
  "get_datetime_ms uptime cl = (dt, msec) \<Longrightarrow> time_encode_now_9 uptime cl =
     sys_put_be16 (dt_year dt) @ [dt_month dt, dt_day dt, dt_hour dt, dt_min dt, dt_sec dt] @ sys_put_be16 msec"
  by (auto simp: time_encode_now_9_def get_datetime_ms_def Let_def split: prod.splits)

text \<open>C18: Time synchronisation and time encoding are inverse: right after a SYNC body with a
  real calendar date was applied, the nine bytes \<open>time_encode_now_9\<close> puts into a reply are
  the nine time bytes of that body.\<close>

theorem sync_encode_roundtrip:
  assumes "timegm_posix timegm" "9 \<le> length body" "wire_time_ok (take 9 body)"
    and "unat (body ! 3) \<le>
           month_lens (unat (sys_get_be16 (body ! 0) (body ! 1))) ! (unat (body ! 2) - 1)"
  shows "time_encode_now_9 uptime
           (time_sync_from_tcp_timesync_body timegm uptime (Some body) cl) = take 9 body"
  unfolding time_encode_datetime [OF sync_then_datetime [OF assms]] list_9_nth [OF assms(2)]
  by (simp add: sync_body_datetime_def)

text \<open>A concrete conversion with the documented behaviour.\<close>

definition tm_datetime :: "tm \<Rightarrow> datetime_t" where
  "tm_datetime t =
     \<lparr>dt_year = word_of_int (tm_year t + 1900), dt_month = word_of_int (tm_mon t + 1),
      dt_day = word_of_int (tm_mday t), dt_hour = word_of_int (tm_hour t),
      dt_min = word_of_int (tm_min t), dt_sec = word_of_int (tm_sec t)\<rparr>"

definition posix_timegm :: "tm \<Rightarrow> int" where
  "posix_timegm t = int (civil_seconds (tm_datetime t))"

lemma timegm_posix_posix_timegm: "timegm_posix posix_timegm"
proof -
  have "tm_datetime (datetime_tm dt) = dt" for dt
    by (cases dt) (simp add: tm_datetime_def datetime_tm_def)
  then show ?thesis by (simp add: timegm_posix_def posix_timegm_def)
qed

theorem sync_encode_roundtrip_witness:
  "time_encode_now_9 5000 (time_sync_from_tcp_timesync_body posix_timegm 5000
      (Some [0x07, 0xE8, 2, 29, 23, 59, 58, 0x03, 0xE7, 0, 0, 0, 0, 0]) clock_init) =
    [0x07, 0xE8, 2, 29, 23, 59, 58, 0x03, 0xE7]"
  by (subst sync_encode_roundtrip [OF timegm_posix_posix_timegm])
    (simp_all add: wire_time_ok_def month_lens_def leap_def sys_get_be16_def)

end
