(* ===== verification/Sync_Gate.thy ===== *)
theory Sync_Gate
  imports Time_Helper
begin

text \<open>
  \<^verbatim>\<open>src/sync_gate.c\<close>: the gate that keeps the UDP service closed until the server's first
  time synchronisation.  The state is the wall clock of \<^verbatim>\<open>src/time_helper.c\<close> and the flag
  \<open>sg_time_ok\<close>.
\<close>

record sync_gate =
  sg_clock :: clock_state
  sg_time_ok :: bool

definition sg_init :: sync_gate where
  "sg_init = \<lparr>sg_clock = clock_init, sg_time_ok = False\<rparr>"

definition sg_timesync_from_tcp_notify ::
    "(tm \<Rightarrow> int) \<Rightarrow> int \<Rightarrow> bytes option \<Rightarrow> sync_gate \<Rightarrow> sync_gate" where
  "sg_timesync_from_tcp_notify timegm uptime bodyp g =
     g\<lparr>sg_clock := time_sync_from_tcp_timesync_body timegm uptime bodyp (sg_clock g),
       sg_time_ok := True\<rparr>"

definition sg_udp_allowed :: "sync_gate \<Rightarrow> bool" where
  "sg_udp_allowed g = sg_time_ok g"

text \<open>An open gate stands for a synchronised clock whose millisecond part is in range.\<close>

definition gate_wf :: "sync_gate \<Rightarrow> bool" where
  "gate_wf g \<longleftrightarrow> (sg_udp_allowed g \<longrightarrow> wall_synced (sg_clock g)) \<and> unat (sync_msec (sg_clock g)) \<le> 999"

lemma gate_wf_init [simp]: "gate_wf sg_init"
  by (simp add: gate_wf_def sg_init_def sg_udp_allowed_def clock_init_def)

text \<open>The gate itself opens on every notification; the callers apply it only to a body that
  \<open>gw_sync_body_check\<close> accepted, and then the clock is set.\<close>

lemma sg_udp_allowed_notify [simp]: "sg_udp_allowed (sg_timesync_from_tcp_notify timegm u b g)"
  by (simp add: sg_udp_allowed_def sg_timesync_from_tcp_notify_def)

lemma time_sync_take_9:
  "9 \<le> length body \<Longrightarrow> time_sync_from_tcp_timesync_body timegm u (Some (take 9 body)) cl =
     time_sync_from_tcp_timesync_body timegm u (Some body) cl"
  by (simp add: time_sync_from_tcp_timesync_body_def sync_body_tm_def)

lemma gate_wf_notify:
  assumes "gw_sync_body_check timegm (Some body) = GW_ERR_NONE"
  shows "gate_wf (sg_timesync_from_tcp_notify timegm u (Some (take 9 body)) g)"
proof -
  from assms have b: "length body = 14" "timegm (sync_body_tm body) \<noteq> - 1"
    unfolding sync_body_check_ok by blast+
  then show ?thesis
    by (simp add: gate_wf_def sg_timesync_from_tcp_notify_def time_sync_take_9)
      (simp add: time_sync_from_tcp_timesync_body_def Let_def word_le_nat_alt)
qed

end
