(* ===== verification/Rx_Ring.thy ===== *)
theory Rx_Ring
  imports Gw_Prelude
begin

text \<open>
  \<^verbatim>\<open>src/rs232.c\<close>, the interrupt-side receive ring of a serial port: a 512-byte array with a
  head and a tail index, filled by the interrupt handler (\<open>rs232_irq_rx_ring_push\<close>, which
  drops the oldest byte when the ring is full) and emptied by the receive loops
  (\<open>rs232_irq_rx_ring_pop\<close>).  Every operation runs under the port's spin lock and is one
  atomic step here.

  The locale \<open>bounded_fifo\<close> is the contract the receive loops rely on: a queue of at
  most \<open>cap\<close> items that keeps the newest ones.  The ring is shown to provide it with
  capacity 511.
\<close>

section \<open>The last elements of a list\<close>

definition last_n :: "nat \<Rightarrow> 'a list \<Rightarrow> 'a list" where
  "last_n n xs = drop (length xs - n) xs"

lemma last_n_id [simp]: "length xs \<le> n \<Longrightarrow> last_n n xs = xs"
  by (simp add: last_n_def)

lemma length_last_n [simp]: "length (last_n n xs) = min n (length xs)"
  by (simp add: last_n_def)

lemma last_n_append: "last_n n (last_n n xs @ ys) = last_n n (xs @ ys)"
proof (cases "length xs \<le> n")
  case False
  then show ?thesis by (simp add: last_n_def) (simp add: add.commute)
qed simp

section \<open>The queue contract\<close>

locale bounded_fifo =
  fixes cap :: nat
    and inv :: "'q \<Rightarrow> bool"
    and items :: "'q \<Rightarrow> 'b list"
    and push :: "'b list \<Rightarrow> 'q \<Rightarrow> 'q"
    and pop :: "'q \<Rightarrow> ('b \<times> 'q) option"
    and reset :: "'q \<Rightarrow> 'q"
  assumes inv_push: "inv q \<Longrightarrow> inv (push bs q)"
    and items_push: "inv q \<Longrightarrow> items (push bs q) = last_n cap (items q @ bs)"
    and pop_None: "inv q \<Longrightarrow> pop q = None \<longleftrightarrow> items q = []"
    and pop_Some: "inv q \<Longrightarrow> pop q = Some (b, q') \<Longrightarrow> inv q' \<and> items q = b # items q'"
    and inv_reset: "inv q \<Longrightarrow> inv (reset q)"
    and items_reset: "inv q \<Longrightarrow> items (reset q) = []"
    and items_cap: "inv q \<Longrightarrow> length (items q) \<le> cap"

text \<open>Popping until the queue is empty, with a bound on the number of pops: what was taken
  out, and the queue left.\<close>

fun pop_all :: "('q \<Rightarrow> ('b \<times> 'q) option) \<Rightarrow> nat \<Rightarrow> 'q \<Rightarrow> 'b list \<times> 'q" where
  "pop_all pop 0 q = ([], q)"
| "pop_all pop (Suc fuel) q =
     (case pop q of
        None \<Rightarrow> ([], q)
      | Some (b, q') \<Rightarrow> let (bs, q'') = pop_all pop fuel q' in (b # bs, q''))"

context bounded_fifo begin

lemma pop_Cons:
  assumes "inv q" "items q = b # bs"
  obtains q' where "pop q = Some (b, q')" "inv q'" "items q' = bs"
proof -
  from assms obtain c q' where "pop q = Some (c, q')"
    using pop_None [OF assms(1)] by (cases "pop q") auto
  with pop_Some [OF assms(1) this] assms(2) that show thesis by simp
qed

lemma pop_all_fuel:
  "inv q \<Longrightarrow> pop_all pop fuel q = (bs, q') \<Longrightarrow>
     inv q' \<and> bs = take fuel (items q) \<and> items q' = drop fuel (items q)"
proof (induction fuel arbitrary: q bs q')
  case 0
  then show ?case by simp
next
  case (Suc fuel)
  show ?case
  proof (cases "items q")
    case Nil
    then show ?thesis using Suc.prems pop_None [of q] by simp
  next
    case (Cons b xs)
    then obtain q1 where q1: "pop q = Some (b, q1)" "inv q1" "items q1 = xs"
      using pop_Cons [OF Suc.prems(1)] by metis
    obtain cs q2 where rec: "pop_all pop fuel q1 = (cs, q2)" by (cases "pop_all pop fuel q1")
    from Suc.IH [OF q1(2) rec] Suc.prems(2) q1 rec Cons show ?thesis by simp
  qed
qed

text \<open>\<open>cap\<close> pops empty the queue, in arrival order.\<close>

lemma drain_all:
  assumes "inv q" "cap \<le> fuel" "pop_all pop fuel q = (bs, q')"
  shows "bs = items q \<and> inv q' \<and> items q' = []"
  using pop_all_fuel [OF assms(1,3)] items_cap [OF assms(1)] assms(2) by simp

text \<open>Bytes pushed since the queue was last empty come out unchanged when they fit.\<close>

lemma push_fold:
  "inv q \<Longrightarrow> inv (fold push bss q) \<and> items (fold push bss q) = last_n cap (items q @ concat bss)"
proof (induction bss arbitrary: q)
  case Nil
  then show ?case using items_cap [of q] by simp
next
  case (Cons bs bss)
  from Cons.IH [OF inv_push [OF Cons.prems, of bs]]
  show ?case by (simp add: items_push [OF Cons.prems] last_n_append)
qed

lemma push_pop_fits:
  assumes "inv q" "items q = []" "length (concat bss) \<le> cap" "cap \<le> fuel"
    and "pop_all pop fuel (fold push bss q) = (bs, q')"
  shows "bs = concat bss"
proof -
  have "inv (fold push bss q)" "items (fold push bss q) = concat bss"
    using push_fold [OF assms(1), of bss] assms(2,3) by simp_all
  with drain_all [OF this(1) assms(4,5)] show ?thesis by simp
qed

end

section \<open>The ring\<close>

abbreviation (input) RS232_IRQ_RX_RING_SZ :: u16 where "RS232_IRQ_RX_RING_SZ \<equiv> 512"

record rx_ring =
  ring_buf :: bytes
  ring_head :: u16
  ring_tail :: u16

definition ring_init :: rx_ring where
  "ring_init = \<lparr>ring_buf = replicate 512 0, ring_head = 0, ring_tail = 0\<rparr>"

definition rs232_irq_rx_ring_reset :: "rx_ring \<Rightarrow> rx_ring" where
  "rs232_irq_rx_ring_reset r = r\<lparr>ring_head := 0, ring_tail := 0\<rparr>"

text \<open>One round of the push loop, and the loop.\<close>

definition ring_push_byte :: "u8 \<Rightarrow> rx_ring \<Rightarrow> rx_ring" where
  "ring_push_byte b r =
     (let nh = (ring_head r + 1) mod RS232_IRQ_RX_RING_SZ;
          tl' = (if nh = ring_tail r then (ring_tail r + 1) mod RS232_IRQ_RX_RING_SZ
                 else ring_tail r)
      in r\<lparr>ring_tail := tl', ring_buf := (ring_buf r)[unat (ring_head r) := b],
           ring_head := nh\<rparr>)"

definition rs232_irq_rx_ring_push :: "bytes \<Rightarrow> rx_ring \<Rightarrow> rx_ring" where
  "rs232_irq_rx_ring_push p r = fold ring_push_byte p r"

definition rs232_irq_rx_ring_pop :: "rx_ring \<Rightarrow> (u8 \<times> rx_ring) option" where
  "rs232_irq_rx_ring_pop r =
     (if ring_head r = ring_tail r then None
      else Some (ring_buf r ! unat (ring_tail r),
                 r\<lparr>ring_tail := (ring_tail r + 1) mod RS232_IRQ_RX_RING_SZ\<rparr>))"

text \<open>The interrupt handler: what the successive calls of \<open>uart_fifo_read\<close> return goes into
  the ring; the loop stops at the first empty read.\<close>

fun rs232_uart_irq_isr :: "bytes list \<Rightarrow> rx_ring \<Rightarrow> rx_ring" where
  "rs232_uart_irq_isr [] r = r"
| "rs232_uart_irq_isr (chunk # reads) r =
     (if chunk = [] then r else rs232_uart_irq_isr reads (rs232_irq_rx_ring_push chunk r))"

section \<open>The ring is a bounded queue\<close>

definition ring_wf :: "rx_ring \<Rightarrow> bool" where
  "ring_wf r \<longleftrightarrow> length (ring_buf r) = 512 \<and> unat (ring_head r) < 512 \<and> unat (ring_tail r) < 512"

definition ring_count :: "rx_ring \<Rightarrow> nat" where
  "ring_count r = (unat (ring_head r) + 512 - unat (ring_tail r)) mod 512"

definition ring_items :: "rx_ring \<Rightarrow> bytes" where
  "ring_items r =
     map (\<lambda>i. ring_buf r ! ((unat (ring_tail r) + i) mod 512)) [0..<ring_count r]"

text \<open>Arithmetic of the indices: \<open>window buf t c\<close> reads \<open>c\<close> slots from slot \<open>t\<close> on.\<close>

definition window :: "'a list \<Rightarrow> nat \<Rightarrow> nat \<Rightarrow> 'a list" where
  "window buf t c = map (\<lambda>i. buf ! ((t + i) mod length buf)) [0..<c]"

lemma length_window [simp]: "length (window buf t c) = c"
  by (simp add: window_def)

lemma window_mod: "window buf (t mod length buf) c = window buf t c"
  by (simp add: window_def mod_add_left_eq)

lemma window_Suc: "window buf t (Suc c) = buf ! (t mod length buf) # window buf (Suc t) c"
proof -
  have "[0..<Suc c] = 0 # map Suc [0..<c]" by (simp only: map_Suc_upt upt_conv_Cons zero_less_Suc)
  then show ?thesis by (simp add: window_def del: upt_Suc)
qed

lemma mod_add_inj:
  fixes i c n t :: nat
  assumes "i < c" "c < n"
  shows "(t + i) mod n \<noteq> (t + c) mod n"
proof
  assume "(t + i) mod n = (t + c) mod n"
  then have "n dvd (t + c) - (t + i)" using assms by (metis add_le_cancel_left less_imp_le mod_eq_dvd_iff_nat)
  then show False using assms by (auto dest: dvd_imp_le)
qed

lemma window_update:
  assumes "c < length buf"
  shows "window (buf[(t + c) mod length buf := b]) t (Suc c) = window buf t c @ [b]"
proof (rule nth_equalityI)
  fix i assume "i < length (window (buf[(t + c) mod length buf := b]) t (Suc c))"
  then consider "i < c" | "i = c" by fastforce
  then show "window (buf[(t + c) mod length buf := b]) t (Suc c) ! i = (window buf t c @ [b]) ! i"
  proof cases
    case 1
    with assms mod_add_inj [of i c "length buf" t] show ?thesis
      by (simp add: window_def nth_append del: upt_Suc)
  next
    case 2
    have "(t + c) mod length buf < length buf" using assms by (intro mod_less_divisor) linarith
    with 2 show ?thesis by (simp add: window_def nth_append del: upt_Suc)
  qed
qed simp

lemma ring_items_window: "length (ring_buf r) = 512 \<Longrightarrow>
    ring_items r = window (ring_buf r) (unat (ring_tail r)) (ring_count r)"
  by (simp add: ring_items_def window_def)

lemma unat_ring_next [simp]: "unat ((h + 1 :: u16) mod 512) = Suc (unat h) mod 512"
proof -
  have "unat (h + 1 :: u16) mod 512 = Suc (unat h) mod 65536 mod 512"
    by (simp add: unat_word_ariths)
  also have "\<dots> = Suc (unat h) mod 512" by (rule mod_mod_cancel) simp
  finally show ?thesis by (simp add: unat_mod_distrib)
qed

lemma ring_head_count:
  assumes "ring_wf r"
  shows "unat (ring_head r) = (unat (ring_tail r) + ring_count r) mod 512" "ring_count r < 512"
proof -
  have "(unat (ring_tail r) + ring_count r) mod 512 =
      (unat (ring_tail r) + (unat (ring_head r) + 512 - unat (ring_tail r))) mod 512"
    by (simp add: ring_count_def mod_add_right_eq)
  also have "\<dots> = unat (ring_head r)" using assms by (simp add: ring_wf_def)
  finally show "unat (ring_head r) = (unat (ring_tail r) + ring_count r) mod 512" by simp
qed (simp add: ring_count_def)

lemma ring_countI:
  assumes "unat (ring_tail r) < 512" "c < 512"
    and "unat (ring_head r) = (unat (ring_tail r) + c) mod 512"
  shows "ring_count r = c"
  using assms by (simp add: ring_count_def mod_if split: if_splits)

lemma ring_wf_init [simp]: "ring_wf ring_init"
  by (simp add: ring_wf_def ring_init_def)

lemma ring_push_byte_spec:
  assumes "ring_wf r"
  shows "ring_wf (ring_push_byte b r) \<and>
         ring_items (ring_push_byte b r) = last_n 511 (ring_items r @ [b])"
proof -
  let ?r = "ring_push_byte b r" and ?t = "unat (ring_tail r)" and ?c = "ring_count r"
  note wf = assms [unfolded ring_wf_def]
  note hd = ring_head_count [OF assms]
  have wf': "ring_wf ?r"
    using wf by (simp add: ring_wf_def ring_push_byte_def Let_def)
  have buf: "ring_buf ?r = (ring_buf r)[(?t + ?c) mod 512 := b]"
    by (simp add: ring_push_byte_def Let_def hd(1))
  have head: "unat (ring_head ?r) = Suc (?t + ?c) mod 512"
    by (simp add: ring_push_byte_def Let_def hd(1) mod_Suc_eq)
  note win = ring_items_window [of r] ring_items_window [of ?r]
  have full: "(ring_head r + 1) mod 512 = ring_tail r \<longleftrightarrow> ?c = 511"
  proof -
    have "(ring_head r + 1) mod 512 = ring_tail r \<longleftrightarrow> Suc (?t + ?c) mod 512 = ?t"
      by (simp add: word_unat_eq_iff hd(1) mod_Suc_eq)
    also have "\<dots> \<longleftrightarrow> ?c = 511"
      using wf hd(2) by (auto simp: mod_if split: if_splits)
    finally show ?thesis .
  qed
  have "ring_items ?r = last_n 511 (ring_items r @ [b])"
  proof (cases "?c = 511")
    case False
    with full have tl: "ring_tail ?r = ring_tail r" by (simp add: ring_push_byte_def Let_def)
    have "ring_count ?r = Suc ?c"
      using wf hd(2) False by (intro ring_countI) (simp_all add: tl head)
    then show ?thesis
      using wf hd(2) False window_update [of ?c "ring_buf r" ?t b] by (simp add: win buf tl)
  next
    case True
    with full have tl: "unat (ring_tail ?r) = Suc ?t mod 512" by (simp add: ring_push_byte_def Let_def)
    have cnt: "ring_count ?r = 511"
      using wf True by (intro ring_countI) (simp_all add: tl head mod_simps)
    have "ring_items ?r = window (ring_buf ?r) (Suc ?t) 511"
      using wf window_mod [of "ring_buf ?r" "Suc ?t"] by (simp add: win buf tl cnt)
    also have "\<dots> = tl (window (ring_buf ?r) ?t 512)"
      using window_Suc [of "ring_buf ?r" ?t 511] by simp
    also have "window (ring_buf ?r) ?t 512 = ring_items r @ [b]"
      using wf True window_update [of 511 "ring_buf r" ?t b] by (simp add: win buf)
    finally have "ring_items ?r = tl (ring_items r @ [b])" .
    moreover have "length (ring_items r) = 511" using True by (simp add: ring_items_def)
    ultimately show ?thesis by (cases "ring_items r") (simp_all add: last_n_def)
  qed
  with wf' show ?thesis by blast
qed

lemma ring_push_spec:
  "ring_wf r \<Longrightarrow> ring_wf (rs232_irq_rx_ring_push bs r) \<and>
     ring_items (rs232_irq_rx_ring_push bs r) = last_n 511 (ring_items r @ bs)"
proof (induction bs arbitrary: r)
  case Nil
  then show ?case
    using ring_head_count(2) [of r] by (simp add: rs232_irq_rx_ring_push_def ring_items_def)
next
  case (Cons b bs)
  note step = ring_push_byte_spec [OF Cons.prems, of b]
  from Cons.IH [OF step [THEN conjunct1]] step last_n_append [of 511 "ring_items r @ [b]" bs]
  show ?case by (simp add: rs232_irq_rx_ring_push_def)
qed

lemma ring_pop_Some:
  assumes "ring_wf r" "rs232_irq_rx_ring_pop r = Some (b, r')"
  shows "ring_wf r' \<and> ring_items r = b # ring_items r'"
proof -
  let ?t = "unat (ring_tail r)"
  note wf = assms(1) [unfolded ring_wf_def]
  note hd = ring_head_count [OF assms(1)]
  from assms(2) have ne: "ring_head r \<noteq> ring_tail r" and b: "b = ring_buf r ! ?t"
    and r': "r' = r\<lparr>ring_tail := (ring_tail r + 1) mod 512\<rparr>"
    by (auto simp: rs232_irq_rx_ring_pop_def split: if_splits)
  have "ring_count r \<noteq> 0"
    using ne hd(1) wf by (intro notI) (simp add: word_unat_eq_iff)
  then obtain c where c: "ring_count r = Suc c" by (cases "ring_count r") auto
  have wf': "ring_wf r'" using wf by (simp add: ring_wf_def r')
  have cnt: "ring_count r' = c"
    using hd wf by (intro ring_countI) (simp_all add: r' c mod_simps)
  have "ring_items r = b # window (ring_buf r) (Suc ?t) c"
    using wf by (simp add: ring_items_window c window_Suc b)
  also have "window (ring_buf r) (Suc ?t) c = ring_items r'"
    using wf window_mod [of "ring_buf r" "Suc ?t" c] ring_items_window [of r']
    unfolding cnt by (simp add: r')
  finally show ?thesis using wf' by blast
qed

lemma ring_pop_None:
  assumes "ring_wf r"
  shows "rs232_irq_rx_ring_pop r = None \<longleftrightarrow> ring_items r = []"
proof -
  have "ring_head r = ring_tail r \<longleftrightarrow> ring_count r = 0"
    using ring_head_count [OF assms] assms
    by (auto simp: ring_count_def ring_wf_def word_unat_eq_iff)
  then show ?thesis by (simp add: rs232_irq_rx_ring_pop_def ring_items_def)
qed

interpretation rx: bounded_fifo 511 ring_wf ring_items rs232_irq_rx_ring_push
    rs232_irq_rx_ring_pop rs232_irq_rx_ring_reset
proof unfold_locales
  fix r :: rx_ring assume wf: "ring_wf r"
  show "length (ring_items r) \<le> 511"
    using ring_head_count(2) [OF wf] by (simp add: ring_items_def)
  show "ring_wf (rs232_irq_rx_ring_reset r)"
    using wf by (simp add: ring_wf_def rs232_irq_rx_ring_reset_def)
  show "ring_items (rs232_irq_rx_ring_reset r) = []"
    by (simp add: ring_items_def ring_count_def rs232_irq_rx_ring_reset_def)
qed (simp_all add: ring_push_spec ring_pop_None ring_pop_Some)

text \<open>The handler is a sequence of pushes.\<close>

lemma isr_fold:
  "rs232_uart_irq_isr reads r =
     fold rs232_irq_rx_ring_push (takeWhile (\<lambda>c. c \<noteq> []) reads) r"
  by (induction reads arbitrary: r) simp_all

lemma isr_wf [simp]: "ring_wf r \<Longrightarrow> ring_wf (rs232_uart_irq_isr reads r)"
  by (simp add: isr_fold rx.push_fold)

lemma isr_items:
  "ring_wf r \<Longrightarrow> ring_items (rs232_uart_irq_isr reads r) =
     last_n 511 (ring_items r @ concat (takeWhile (\<lambda>c. c \<noteq> []) reads))"
  by (simp add: isr_fold rx.push_fold)

text \<open>C14: The interrupt handler and the receive loop hand bytes over in order and without loss:
  whatever the ring held, after a reset the bytes of any sequence of interrupts that brings at
  most 511 bytes come out of \<open>rs232_irq_rx_ring_pop\<close> exactly as the UART delivered them;
  and when more arrive, exactly the newest 511 of them do.\<close>

theorem ring_delivers_in_order:
  assumes "ring_wf r"
    and "pop_all rs232_irq_rx_ring_pop 511
           (fold rs232_uart_irq_isr irqs (rs232_irq_rx_ring_reset r)) = (bs, r')"
  shows "bs = last_n 511 (concat (map (\<lambda>reads. concat (takeWhile (\<lambda>c. c \<noteq> []) reads)) irqs)) \<and>
         ring_items r' = []"
proof -
  have spec: "ring_wf (fold rs232_uart_irq_isr irqs q) \<and>
      ring_items (fold rs232_uart_irq_isr irqs q) = last_n 511 (ring_items q @
        concat (map (\<lambda>reads. concat (takeWhile (\<lambda>c. c \<noteq> []) reads)) irqs))"
    if "ring_wf q" for q
    using that
  proof (induction irqs arbitrary: q)
    case Nil
    then show ?case using rx.items_cap [of q] by simp
  next
    case (Cons reads irqs)
    from Cons.IH [OF isr_wf [OF Cons.prems, of reads]]
    show ?case by (simp add: isr_items [OF Cons.prems] last_n_append)
  qed
  note q = spec [OF rx.inv_reset [OF assms(1)]]
  from rx.drain_all [OF q [THEN conjunct1] le_refl assms(2)] q rx.items_reset [OF assms(1)]
  show ?thesis by simp
qed

theorem ring_delivers_in_order_witness:
  "fst (pop_all rs232_irq_rx_ring_pop 511
     (fold rs232_uart_irq_isr [[[1, 2, 3], [4]], [[5], [], [9]]] (rs232_irq_rx_ring_reset ring_init))) =
   [1, 2, 3, 4, 5]"
proof -
  obtain bs r' where p: "pop_all rs232_irq_rx_ring_pop 511
     (fold rs232_uart_irq_isr [[[1, 2, 3], [4]], [[5], [], [9]]]
        (rs232_irq_rx_ring_reset ring_init)) = (bs, r')"
    by (cases "pop_all rs232_irq_rx_ring_pop 511
     (fold rs232_uart_irq_isr [[[1, 2, 3], [4]], [[5], [], [9]]]
        (rs232_irq_rx_ring_reset ring_init))") auto
  show ?thesis
    unfolding p fst_conv using ring_delivers_in_order [OF ring_wf_init p] by simp
qed

end
