(* ===== verification/Modbus_Codec.thy ===== *)
theory Modbus_Codec
  imports Gw_Prelude
begin

text \<open>
  \<^verbatim>\<open>src/rs232.c\<close>, the pure part of the Modbus bridge: CRC-16 and LRC, the translation
  between RTU frames and Modbus ASCII frames, the prediction of the response length from the
  request, and the alignment of the received bytes to the request
  (\<open>rs232_modbus_align_pass_through\<close>).  Buffers with a length are byte lists; a function
  that returns \<open>-1\<close> or a length, filling a buffer, returns an option of the bytes.
\<close>

section \<open>Check sums\<close>

definition rs232_lrc :: "bytes \<Rightarrow> u8" where
  "rs232_lrc data = NOT (fold (\<lambda>b s. s + b) data 0) + 1"

definition crc16_bit :: "u16 \<Rightarrow> u16" where
  "crc16_bit crc = (if crc AND 1 \<noteq> 0 then drop_bit 1 crc XOR 0xA001 else drop_bit 1 crc)"

definition crc16_byte :: "u8 \<Rightarrow> u16 \<Rightarrow> u16" where
  "crc16_byte b crc = (crc16_bit ^^ 8) (crc XOR ucast b)"

definition rs232_crc16 :: "bytes \<Rightarrow> u16" where
  "rs232_crc16 data = fold crc16_byte data 0xFFFF"

text \<open>The two bytes the decoder appends, low byte first.\<close>

definition crc16_bytes :: "u16 \<Rightarrow> bytes" where
  "crc16_bytes crc = [ucast (crc AND 0xFF), ucast (drop_bit 8 crc)]"

lemma lrc_fold: "fold (\<lambda>b s. s + b) data s = s + sum_list (data :: bytes)"
  by (induction data arbitrary: s) (simp_all add: ac_simps)

lemma rs232_lrc_sum: "rs232_lrc data = - sum_list data"
  by (simp add: rs232_lrc_def lrc_fold minus_eq_not_plus_1)

lemma crc16_bit_even: "\<not> bit w 0 \<Longrightarrow> crc16_bit w = drop_bit 1 w"
  by (simp add: crc16_bit_def and_one_eq even_iff_mod_2_eq_zero bit_0)

lemma crc16_bit_odd: "bit w 0 \<Longrightarrow> crc16_bit w = drop_bit 1 w XOR 0xA001"
  by (simp add: crc16_bit_def and_one_eq odd_iff_mod_2_eq_one bit_0)

lemma crc16_bit_top: "bit (crc16_bit w) 15 = bit w 0"
proof (cases "bit w 0")
  case True
  have "\<not> bit w 16" by (simp add: bit_word.rep_eq)
  with True show ?thesis by (simp add: crc16_bit_odd bit_simps)
next
  case False
  have "\<not> bit w 16" by (simp add: bit_word.rep_eq)
  with False show ?thesis by (simp add: crc16_bit_even bit_simps)
qed

lemma xor_right_cancel: "(a :: 'a::len word) XOR c = b XOR c \<longleftrightarrow> a = b"
  by (metis xor.assoc xor.right_neutral xor_self_eq)

text \<open>A round of the register loses nothing, so neither does a byte.\<close>

lemma crc16_bit_inj: "crc16_bit v = crc16_bit w \<Longrightarrow> v = w"
proof -
  assume eq: "crc16_bit v = crc16_bit w"
  then have b0: "bit v 0 = bit w 0" using crc16_bit_top by metis
  have "drop_bit 1 v = drop_bit 1 w"
  proof (cases "bit v 0")
    case True
    with eq b0 show ?thesis by (simp add: crc16_bit_odd xor_right_cancel)
  next
    case False
    with eq b0 show ?thesis by (simp add: crc16_bit_even)
  qed
  then have "bit v (Suc n) = bit w (Suc n)" for n
    by (metis bit_drop_bit_eq comp_apply plus_1_eq_Suc)
  with b0 show "v = w" by (intro bit_eqI) (metis not0_implies_Suc)
qed

lemma crc16_pow_inj: "(crc16_bit ^^ n) v = (crc16_bit ^^ n) w \<Longrightarrow> v = w"
  by (induction n) (auto dest: crc16_bit_inj)

lemma crc16_byte_inj: "crc16_byte b v = crc16_byte b w \<Longrightarrow> v = w"
  unfolding crc16_byte_def using crc16_pow_inj xor_right_cancel by blast

lemma crc16_fold_inj: "fold crc16_byte data v = fold crc16_byte data w \<Longrightarrow> v = w"
  by (induction data arbitrary: v w) (auto dest: crc16_byte_inj)

text \<open>Rounds are linear, and a register whose low bits are clear is only shifted.\<close>

lemma crc16_bit_xor: "crc16_bit (v XOR w) = crc16_bit v XOR crc16_bit w"
  by (cases "bit v 0"; cases "bit w 0")
    (simp_all add: crc16_bit_odd crc16_bit_even bit_xor_iff drop_bit_xor ac_simps
      bit.xor_left_self)

lemma crc16_pow_xor: "(crc16_bit ^^ n) (v XOR w) = (crc16_bit ^^ n) v XOR (crc16_bit ^^ n) w"
  by (induction n) (simp_all add: crc16_bit_xor)

lemma crc16_pow_shift:
  "(\<And>i. i < n \<Longrightarrow> \<not> bit w i) \<Longrightarrow> (crc16_bit ^^ n) w = drop_bit n w"
proof (induction n arbitrary: w)
  case (Suc n)
  have "(crc16_bit ^^ Suc n) w = (crc16_bit ^^ n) (crc16_bit w)"
    by (simp add: funpow_swap1)
  also have "\<dots> = (crc16_bit ^^ n) (drop_bit 1 w)" using Suc.prems by (simp add: crc16_bit_even)
  also have "\<dots> = drop_bit n (drop_bit 1 w)" using Suc.prems by (intro Suc.IH) (simp add: bit_simps)
  finally show ?case by simp
qed simp

lemma crc16_pow_high: "(crc16_bit ^^ 8) (push_bit 8 (ucast (e :: u8))) = ucast e"
proof -
  have "(crc16_bit ^^ 8) (push_bit 8 (ucast e)) = drop_bit 8 (push_bit 8 (ucast e))"
    by (rule crc16_pow_shift) (simp add: bit_simps)
  also have "\<dots> = ucast e"
    by (rule bit_word_eqI) (auto simp: bit_simps dest: bit_imp_le_length)
  finally show ?thesis .
qed

lemma crc16_residue_step:
  "fold crc16_byte (crc16_bytes crc) crc = 0"
proof -
  have "crc XOR ucast (ucast (crc AND 0xFF) :: u8) = push_bit 8 (ucast (ucast (drop_bit 8 crc) :: u8))"
  proof (rule bit_word_eqI)
    fix n assume n: "n < LENGTH(16)"
    have "bit (0xFF :: u16) n \<longleftrightarrow> n < 8"
    proof -
      have *: "(0xFF :: u16) = mask 8" by (simp add: mask_eq_exp_minus_1)
      show ?thesis unfolding * using n by (simp only: bit_mask_iff) simp
    qed
    with n show "bit (crc XOR ucast (ucast (crc AND 0xFF) :: u8)) n =
        bit (push_bit 8 (ucast (ucast (drop_bit 8 crc) :: u8)) :: u16) n"
      by (auto simp: bit_simps)
  qed
  then have "crc16_byte (ucast (crc AND 0xFF)) crc = ucast (ucast (drop_bit 8 crc) :: u8)"
    by (simp add: crc16_byte_def crc16_pow_high)
  moreover have "(crc16_bit ^^ 8) 0 = 0" using crc16_pow_shift [of 8 0] by simp
  ultimately show ?thesis by (simp add: crc16_bytes_def crc16_byte_def)
qed

lemma crc16_append_residue: "rs232_crc16 (data @ crc16_bytes (rs232_crc16 data)) = 0"
  by (simp add: rs232_crc16_def crc16_residue_step)

lemma xor_swap:
  fixes s x x' y y' :: "'a::len word"
  assumes "(s XOR x) XOR y = (s XOR x') XOR y'"
  shows "x XOR x' = y XOR y'"
proof -
  have "s XOR (x XOR y) = s XOR (x' XOR y')" using assms by (simp add: xor.assoc)
  then have "x XOR y = x' XOR y'" by (metis xor.assoc xor.left_neutral xor_self_eq)
  then have "(x XOR y) XOR (y XOR x') = (x' XOR y') XOR (y XOR x')" by simp
  moreover have "(x XOR y) XOR (y XOR x') = (y XOR y) XOR (x XOR x')"
    "(x' XOR y') XOR (y XOR x') = (x' XOR x') XOR (y XOR y')"
    by (simp_all only: ac_simps)
  ultimately show ?thesis by (simp only: xor_self_eq xor.left_neutral)
qed

lemma crc16_burst:
  assumes eq: "rs232_crc16 (pre @ [a, b] @ suf) = rs232_crc16 (pre @ [a', b'] @ suf)"
  shows "a = a' \<and> b = b'"
proof -
  let ?s = "fold crc16_byte pre 0xFFFF" and ?F = "crc16_bit ^^ 8"
  let ?d = "a XOR a'" and ?e = "b XOR b'"
  have "?F (?F (?s XOR ucast a) XOR ucast b) = ?F (?F (?s XOR ucast a') XOR ucast b')"
    using eq by (auto simp: rs232_crc16_def crc16_byte_def dest: crc16_fold_inj)
  then have "?F (?s XOR ucast a) XOR ucast b = ?F (?s XOR ucast a') XOR ucast b'"
    by (rule crc16_pow_inj)
  then have "?F (ucast a) XOR ?F (ucast a') = ucast b XOR ucast b'"
    unfolding crc16_pow_xor by (rule xor_swap)
  then have "?F (ucast ?d) = ?F (push_bit 8 (ucast ?e))"
    unfolding crc16_pow_high unsigned_xor_eq push_bit_xor crc16_pow_xor by simp
  then have de: "(ucast ?d :: u16) = push_bit 8 (ucast ?e)" by (rule crc16_pow_inj)
  have "bit ?d n = False" "bit ?e n = False" if n: "n < 8" for n
  proof -
    have "bit (ucast ?d :: u16) n = bit (push_bit 8 (ucast ?e) :: u16) n"
      "bit (ucast ?d :: u16) (n + 8) = bit (push_bit 8 (ucast ?e) :: u16) (n + 8)"
      using de by simp_all
    moreover have "\<not> bit ?d (n + 8)" by (auto dest: bit_imp_le_length)
    ultimately show "bit ?d n = False" "bit ?e n = False"
      using n by (simp_all add: bit_push_bit_iff bit_unsigned_iff)
  qed
  then have "?d = 0" "?e = 0" by (auto intro!: bit_word_eqI)
  then show ?thesis by (metis xor_right_cancel xor_self_eq)
qed

text \<open>C13: The frame check of the serial line catches every error burst of up to 16 bits: two
  frames of the same length that differ in one byte or in two neighbouring bytes never have
  the same CRC; and a frame that ends with its own CRC, low byte first, has CRC 0.\<close>

theorem crc16_detects_bursts:
  "rs232_crc16 (data @ crc16_bytes (rs232_crc16 data)) = 0 \<and>
   (rs232_crc16 (pre @ [a, b] @ suf) = rs232_crc16 (pre @ [a', b'] @ suf) \<longleftrightarrow> a = a' \<and> b = b')"
  using crc16_append_residue crc16_burst by blast

text \<open>Evaluation of the CRC of a concrete frame.\<close>

lemma crc16_byte_eval: "crc16_byte b crc =
    crc16_bit (crc16_bit (crc16_bit (crc16_bit (crc16_bit (crc16_bit (crc16_bit (crc16_bit
      (crc XOR ucast b))))))))"
  by (simp add: crc16_byte_def numeral_eq_Suc)

lemmas crc16_eval = rs232_crc16_def crc16_byte_eval crc16_bit_def

section \<open>Modbus ASCII\<close>

abbreviation (input) RS232_ASCII_FRAME_MAX :: nat where "RS232_ASCII_FRAME_MAX \<equiv> 520"

abbreviation (input) colon :: u8 where "colon \<equiv> 0x3A"
abbreviation (input) cr :: u8 where "cr \<equiv> 0x0D"
abbreviation (input) lf :: u8 where "lf \<equiv> 0x0A"

definition rs232_to_hex_char :: "u8 \<Rightarrow> u8" where
  "rs232_to_hex_char n = (if n < 10 then 0x30 + n else 0x41 + n - 10)"

text \<open>\<open>-1\<close> is \<open>None\<close>.\<close>

definition rs232_hex_nibble :: "u8 \<Rightarrow> u8 option" where
  "rs232_hex_nibble c =
     (if c \<ge> 0x30 \<and> c \<le> 0x39 then Some (c - 0x30)
      else if c \<ge> 0x41 \<and> c \<le> 0x46 then Some (10 + (c - 0x41))
      else if c \<ge> 0x61 \<and> c \<le> 0x66 then Some (10 + (c - 0x61))
      else None)"

definition hex_pair :: "u8 \<Rightarrow> bytes" where
  "hex_pair b = [rs232_to_hex_char (drop_bit 4 b AND 0x0F), rs232_to_hex_char (b AND 0x0F)]"

definition rs232_rtu_to_ascii_frame :: "bytes \<Rightarrow> nat \<Rightarrow> bytes option" where
  "rs232_rtu_to_ascii_frame rtu out_cap =
     (if length rtu < 4 then None
      else
        let pdu_len = length rtu - 2; need = 1 + pdu_len * 2 + 4
        in if out_cap < need then None
           else
             let lrc = rs232_lrc (take pdu_len rtu)
             in Some ([colon] @ concat (map hex_pair (take pdu_len rtu)) @ hex_pair lrc @ [cr, lf]))"

text \<open>The loop that turns the hexadecimal digits into bytes, two digits per round.\<close>

fun hex_bytes :: "bytes \<Rightarrow> bytes option" where
  "hex_bytes (h # l # rest) =
     (case (rs232_hex_nibble h, rs232_hex_nibble l) of
        (Some hi, Some lo) \<Rightarrow>
          map_option (\<lambda>bs. (push_bit 4 hi OR lo) # bs) (hex_bytes rest)
      | _ \<Rightarrow> None)"
| "hex_bytes _ = Some []"

text \<open>The result codes of the decoder: \<open>-1\<close> and \<open>-2\<close>.\<close>

datatype ascii_error = LRC_MISMATCH | BAD_FORMAT

definition rs232_ascii_decode_response :: "bytes \<Rightarrow> nat \<Rightarrow> ascii_error + bytes" where
  "rs232_ascii_decode_response ascii rtu_cap =
     (if length ascii < 10 \<or> ascii ! 0 \<noteq> colon \<or> ascii ! (length ascii - 2) \<noteq> cr \<or>
         ascii ! (length ascii - 1) \<noteq> lf
      then Inl BAD_FORMAT
      else
        let hex_len = length ascii - 3
        in if odd hex_len \<or> hex_len < 6 then Inl BAD_FORMAT
           else
             let bin_len = hex_len div 2
             in if bin_len > 256 then Inl BAD_FORMAT
                else
                  case hex_bytes (take (2 * bin_len) (drop 1 ascii)) of
                    None \<Rightarrow> Inl BAD_FORMAT
                  | Some bin \<Rightarrow>
                      if rs232_lrc (take (bin_len - 1) bin) \<noteq> bin ! (bin_len - 1)
                      then Inl LRC_MISMATCH
                      else
                        let pdu_len = bin_len - 1; rtu_len = pdu_len + 2
                        in if rtu_cap < rtu_len then Inl BAD_FORMAT
                           else Inr (take pdu_len bin @
                                     crc16_bytes (rs232_crc16 (take pdu_len bin))))"

lemma hex_chars: "\<forall>k \<in> set [0..<16]. rs232_hex_nibble (rs232_to_hex_char (word_of_nat k)) =
    Some (word_of_nat k)"
  by code_simp

lemma hex_nibble_char:
  assumes "n < 16"
  shows "rs232_hex_nibble (rs232_to_hex_char n) = Some n"
proof -
  have "unat n \<in> set [0..<16]" using assms by (simp add: word_less_nat_alt)
  from hex_chars [rule_format, OF this] show ?thesis by simp
qed

lemma nibble_less: "b AND 0x0F < (16 :: u8)"
proof -
  have "b AND 0x0F \<le> (0x0F :: u8)" by (rule word_and_le1)
  moreover have "(0x0F :: u8) < 16" by (simp add: word_less_nat_alt)
  ultimately show ?thesis by (rule le_less_trans)
qed

lemma nibbles_join: "push_bit 4 (drop_bit 4 b AND 0x0F) OR (b AND 0x0F) = (b :: u8)"
proof -
  have m: "(0x0F :: u8) = mask 4" by (simp add: mask_eq_exp_minus_1)
  show ?thesis unfolding m by (rule bit_word_eqI) (auto simp: bit_simps)
qed

lemma hex_bytes_pair: "hex_bytes (hex_pair b @ rest) = map_option (\<lambda>bs. b # bs) (hex_bytes rest)"
  unfolding hex_pair_def append_Cons append_Nil hex_bytes.simps
    hex_nibble_char [OF nibble_less] prod.case option.case nibbles_join ..

lemma hex_bytes_encode: "hex_bytes (concat (map hex_pair bs)) = Some bs"
  by (induction bs) (simp_all add: hex_bytes_pair)

lemma length_hex_pairs [simp]: "length (concat (map hex_pair bs)) = 2 * length bs"
  by (induction bs) (simp_all add: hex_pair_def)

lemma hex_bytes_length:
  "hex_bytes xs = Some bs \<Longrightarrow> length bs = length xs div 2"
  by (induction xs arbitrary: bs rule: hex_bytes.induct) (auto split: option.splits)

text \<open>A frame with a valid CRC is its contents with their CRC.\<close>

lemma crc16_valid_split:
  assumes "2 \<le> length rtu" "rs232_crc16 rtu = 0"
  shows "take (length rtu - 2) rtu @ crc16_bytes (rs232_crc16 (take (length rtu - 2) rtu)) = rtu"
proof -
  let ?pdu = "take (length rtu - 2) rtu"
  have "length (drop (length rtu - 2) rtu) = Suc (Suc 0)" using assms(1) by simp
  then obtain a b where ab: "drop (length rtu - 2) rtu = [a, b]"
    unfolding length_Suc_conv length_0_conv by blast
  then have rtu: "rtu = ?pdu @ [a, b]" by (metis append_take_drop_id)
  obtain c d where cd: "crc16_bytes (rs232_crc16 ?pdu) = [c, d]"
    by (simp add: crc16_bytes_def)
  have "rs232_crc16 (?pdu @ [a, b] @ []) = rs232_crc16 (?pdu @ [c, d] @ [])"
    using assms(2) crc16_append_residue [of ?pdu] rtu cd by simp
  from crc16_burst [OF this] show ?thesis using rtu cd by simp
qed

lemma ascii_frame_length:
  "rs232_rtu_to_ascii_frame rtu cap = Some frame \<Longrightarrow> length frame = 2 * length rtu + 1 \<and> length frame \<le> cap"
  by (auto simp: rs232_rtu_to_ascii_frame_def Let_def hex_pair_def split: if_splits)

lemma ascii_encode_decode:
  assumes "5 \<le> length rtu" "length rtu \<le> 257" "length rtu \<le> cap"
    and "rs232_rtu_to_ascii_frame rtu RS232_ASCII_FRAME_MAX = Some frame"
  shows "rs232_ascii_decode_response frame cap =
    Inr (take (length rtu - 2) rtu @ crc16_bytes (rs232_crc16 (take (length rtu - 2) rtu)))"
proof -
  let ?n = "length rtu - 2"
  let ?pdu = "take ?n rtu"
  let ?hex = "concat (map hex_pair (?pdu @ [rs232_lrc ?pdu]))"
  have frame: "frame = colon # ?hex @ [cr, lf]"
    using assms(4) by (auto simp: rs232_rtu_to_ascii_frame_def Let_def split: if_splits)
  have hex_len: "length ?hex = 2 * (?n + 1)"
    using assms(1) by (simp only: length_hex_pairs) simp
  have len: "length frame = 2 * ?n + 5" using frame hex_len by simp
  have ends: "frame ! 0 = colon" "frame ! (length frame - 2) = cr" "frame ! (length frame - 1) = lf"
    unfolding len using frame hex_len by (simp_all add: nth_append)
  have hl: "length frame - 3 = 2 * (?n + 1)" using len by simp
  have "take (2 * (?n + 1)) (drop 1 frame) = ?hex" using frame hex_len by simp
  then have dec: "hex_bytes (take (2 * (?n + 1)) (drop 1 frame)) = Some (?pdu @ [rs232_lrc ?pdu])"
    by (simp only: hex_bytes_encode)
  have "length ?pdu = ?n" using assms(1) by simp
  then have *: "take (?n + 1 - 1) (?pdu @ [rs232_lrc ?pdu]) = ?pdu"
    "(?pdu @ [rs232_lrc ?pdu]) ! (?n + 1 - 1) = rs232_lrc ?pdu"
    by (simp_all add: nth_append)
  show ?thesis
    unfolding rs232_ascii_decode_response_def Let_def hl ends
      nonzero_mult_div_cancel_left [OF zero_neq_numeral [symmetric]] dec option.case *
    using assms(1-3) len by auto
qed

text \<open>C12: The translation to Modbus ASCII loses nothing: a frame of 5 to 257 bytes with a
  valid CRC is sent as an ASCII frame of twice its length plus one, and decoding that frame
  gives the RTU frame back, CRC included.\<close>

theorem ascii_roundtrip:
  assumes "5 \<le> length rtu" "length rtu \<le> 257" "length rtu \<le> cap" "rs232_crc16 rtu = 0"
  shows "\<exists>frame. rs232_rtu_to_ascii_frame rtu RS232_ASCII_FRAME_MAX = Some frame \<and>
           length frame = 2 * length rtu + 1 \<and> rs232_ascii_decode_response frame cap = Inr rtu"
proof -
  have "\<not> length rtu < 4" "\<not> RS232_ASCII_FRAME_MAX < 1 + (length rtu - 2) * 2 + 4"
    using assms(1,2) by linarith+
  then obtain frame where f: "rs232_rtu_to_ascii_frame rtu RS232_ASCII_FRAME_MAX = Some frame"
    unfolding rs232_rtu_to_ascii_frame_def Let_def by (simp only: if_False)
  have v: "take (length rtu - 2) rtu @ crc16_bytes (rs232_crc16 (take (length rtu - 2) rtu)) = rtu"
    using assms(1,4) by (intro crc16_valid_split) linarith+
  show ?thesis
    using f ascii_encode_decode [OF assms(1-3) f] ascii_frame_length [OF f] unfolding v by blast
qed

theorem ascii_roundtrip_witness:
  "\<exists>frame. rs232_rtu_to_ascii_frame [1, 3, 0, 0, 0, 2, 0xC4, 0x0B] RS232_ASCII_FRAME_MAX = Some frame \<and>
     length frame = 17 \<and> rs232_ascii_decode_response frame 256 = Inr [1, 3, 0, 0, 0, 2, 0xC4, 0x0B]"
proof -
  have "rs232_crc16 [1, 3, 0, 0, 0, 2, 0xC4, 0x0B] = 0" by (simp add: crc16_eval)
  from ascii_roundtrip [OF _ _ _ this, of 256] show ?thesis by simp
qed

text \<open>What the ASCII decoder hands on is checked: a decoded response ends with the CRC of
  its contents, fits the caller's buffer, and its contents and the received LRC byte sum to
  zero.\<close>

theorem ascii_decode_sound:
  assumes "rs232_ascii_decode_response ascii cap = Inr rtu"
  shows "rs232_crc16 rtu = 0 \<and> length rtu \<le> cap \<and> length ascii = 2 * length rtu + 1 \<and>
         (\<exists>lrc. hex_bytes (take (length ascii - 3) (drop 1 ascii)) =
                  Some (take (length rtu - 2) rtu @ [lrc]) \<and>
                sum_list (take (length rtu - 2) rtu @ [lrc]) = 0)"
proof -
  let ?b = "(length ascii - 3) div 2"
  have ev: "even (length ascii - 3)" "6 \<le> length ascii - 3" "?b + 1 \<le> cap"
    and "\<exists>bin. hex_bytes (take (2 * ?b) (drop 1 ascii)) = Some bin \<and>
      rs232_lrc (take (?b - 1) bin) = bin ! (?b - 1) \<and>
      rtu = take (?b - 1) bin @ crc16_bytes (rs232_crc16 (take (?b - 1) bin))"
    using assms unfolding rs232_ascii_decode_response_def Let_def
    by (auto split: if_splits option.splits)
  then obtain bin where bin: "hex_bytes (take (2 * ?b) (drop 1 ascii)) = Some bin"
    and lrc: "rs232_lrc (take (?b - 1) bin) = bin ! (?b - 1)"
    and rtu: "rtu = take (?b - 1) bin @ crc16_bytes (rs232_crc16 (take (?b - 1) bin))"
    by blast
  have b2: "2 * ?b = length ascii - 3" using ev(1) by simp
  have blen: "length bin = ?b"
  proof -
    have "length ascii - 3 \<le> length (drop 1 ascii)" by simp
    then show ?thesis
      unfolding hex_bytes_length [OF bin] length_take b2 by (simp only: min_absorb2)
  qed
  have rlen: "length rtu = ?b + 1"
    using rtu blen ev(2) by (simp add: crc16_bytes_def)
  have take_rtu: "take (length rtu - 2) rtu = take (?b - 1) bin"
    unfolding rlen using rtu blen by simp
  have bin_split: "bin = take (?b - 1) bin @ [bin ! (?b - 1)]"
    using blen ev(2) take_Suc_conv_app_nth [of "?b - 1" bin] by simp
  have "sum_list (take (?b - 1) bin @ [bin ! (?b - 1)]) = 0"
    unfolding lrc [symmetric] rs232_lrc_sum by simp
  moreover have "rs232_crc16 rtu = 0" unfolding rtu by (rule crc16_append_residue)
  moreover have "length ascii = 2 * length rtu + 1" using rlen b2 ev(2) by linarith
  ultimately show ?thesis
    unfolding take_rtu using ev(3) rlen bin bin_split b2 by metis
qed

theorem ascii_decode_sound_witness:
  "rs232_ascii_decode_response
      [0x3A, 0x31, 0x31, 0x30, 0x33, 0x30, 0x30, 0x45, 0x43, 0x0D, 0x0A] 256 =
    Inr [17, 3, 0, 0x21, 0x35] \<and> rs232_crc16 [17, 3, 0, 0x21, 0x35] = 0"
proof -
  have *: "rs232_ascii_decode_response
      [0x3A, 0x31, 0x31, 0x30, 0x33, 0x30, 0x30, 0x45, 0x43, 0x0D, 0x0A] 256 =
    Inr [17, 3, 0, 0x21, 0x35]"
    by (simp add: rs232_ascii_decode_response_def rs232_hex_nibble_def rs232_lrc_def crc16_eval
        crc16_bytes_def)
  from ascii_decode_sound [OF this] * show ?thesis by blast
qed

text \<open>The shortest ASCII frame is lost: a request of address and function code only (four
  RTU bytes) is encoded into the nine characters of a complete frame, and the decoder rejects
  every frame of that length, because it asks for ten.\<close>

theorem ascii_minimal_frame_rejected:
  assumes "length rtu = 4"
  shows "\<exists>frame. rs232_rtu_to_ascii_frame rtu RS232_ASCII_FRAME_MAX = Some frame \<and>
           length frame = 9 \<and> rs232_ascii_decode_response frame cap = Inl BAD_FORMAT"
proof -
  obtain frame where f: "rs232_rtu_to_ascii_frame rtu RS232_ASCII_FRAME_MAX = Some frame"
    unfolding rs232_rtu_to_ascii_frame_def Let_def assms by simp
  then have "length frame = 9" using ascii_frame_length [OF f] assms by simp
  with f show ?thesis by (simp add: rs232_ascii_decode_response_def)
qed

theorem ascii_minimal_frame_rejected_witness:
  "\<exists>frame. rs232_rtu_to_ascii_frame [1, 7, 0x41, 0xE2] RS232_ASCII_FRAME_MAX = Some frame \<and>
     length frame = 9 \<and> rs232_ascii_decode_response frame 256 = Inl BAD_FORMAT"
  by (rule ascii_minimal_frame_rejected) simp

section \<open>Response length and alignment\<close>

definition rs232_modbus_expected_resp_len :: "bytes \<Rightarrow> int" where
  "rs232_modbus_expected_resp_len buf =
     (if length buf < 2 then - 1
      else
        let fc = buf ! 1
        in if fc AND 0x80 \<noteq> 0 then 5
           else if fc = 0x01 \<or> fc = 0x02 \<or> fc = 0x03 \<or> fc = 0x04 then
             if length buf < 3 then - 1
             else if unat (buf ! 2) > 250 then - 1
             else 5 + int (unat (buf ! 2))
           else if fc = 0x05 \<or> fc = 0x06 \<or> fc = 0x10 then 8
           else - 1)"

definition rs232_modbus_expected_resp_len_from_req :: "bytes \<Rightarrow> int" where
  "rs232_modbus_expected_resp_len_from_req req =
     (if length req < 2 then - 1
      else
        let fc = req ! 1
        in if fc AND 0x80 \<noteq> 0 then - 1
           else if fc = 0x01 \<or> fc = 0x02 then
             if length req < 8 then - 1
             else
               let qty = unat (sys_get_be16 (req ! 4) (req ! 5))
               in if qty < 1 \<or> qty > 2000 then - 1 else 5 + int ((qty + 7) div 8)
           else if fc = 0x03 \<or> fc = 0x04 then
             if length req < 6 then - 1
             else
               let qty = unat (sys_get_be16 (req ! 4) (req ! 5))
               in if qty < 1 \<or> qty > 125 then - 1 else 5 + int (qty * 2)
           else if fc = 0x05 \<or> fc = 0x06 \<or> fc = 0x10 then 8
           else - 1)"

text \<open>The scan of the loops: the last index with the property, or none (\<open>SIZE_MAX\<close>).\<close>

definition last_index :: "(nat \<Rightarrow> bool) \<Rightarrow> nat \<Rightarrow> nat option" where
  "last_index P n = fold (\<lambda>i align_at. if P i then Some i else align_at) [0..<n] None"

text \<open>The result is the first \<open>*nlen\<close> bytes of the buffer after the call, \<open>None\<close> the
  result \<open>-1\<close>.\<close>

definition rs232_modbus_align_pass_through :: "bytes \<Rightarrow> bytes \<Rightarrow> bytes option" where
  "rs232_modbus_align_pass_through req buf =
     (if length buf < 2 then None
      else
        let expected = rs232_modbus_expected_resp_len_from_req req;
            e = nat expected;
            len = (if expected > 0 \<and> length buf = e * 2 \<and> take e buf = take e (drop e buf)
                   then e else length buf)
        in if expected > 0 then
             case last_index (\<lambda>i. buf ! i = req ! 0 \<and>
                    (buf ! (i + 1) = req ! 1 \<or> buf ! (i + 1) = req ! 1 OR 0x80)) (len + 1 - e) of
               Some align_at \<Rightarrow> Some (take e (drop align_at buf))
             | None \<Rightarrow> if len \<ge> e then Some (take e buf) else None
           else
             case last_index (\<lambda>i. buf ! i = req ! 0 \<and> buf ! (i + 1) AND 0x80 \<noteq> 0) (len - 4) of
               Some align_at \<Rightarrow> Some (take 5 (drop align_at buf))
             | None \<Rightarrow> Some buf)"

definition rs232_modbus_finalize_response :: "bytes \<Rightarrow> bytes \<Rightarrow> errno + bytes" where
  "rs232_modbus_finalize_response req resp =
     (case rs232_modbus_align_pass_through req resp of
        Some out \<Rightarrow> Inr out
      | None \<Rightarrow> Inl EIO)"

lemma last_index_Suc:
  "last_index P (Suc n) = (if P n then Some n else last_index P n)"
  by (simp add: last_index_def)

lemma last_index_0 [simp]: "last_index P 0 = None"
  by (simp add: last_index_def)

lemma last_index_Some:
  "last_index P n = Some k \<Longrightarrow> k < n \<and> P k \<and> (\<forall>i. k < i \<and> i < n \<longrightarrow> \<not> P i)"
  by (induction n) (auto simp: last_index_Suc less_Suc_eq split: if_splits)

lemma last_index_None: "last_index P n = None \<longleftrightarrow> (\<forall>i < n. \<not> P i)"
  by (induction n) (auto simp: last_index_Suc less_Suc_eq)

lemma last_indexI: "P k \<Longrightarrow> k < n \<Longrightarrow> (\<And>i. k < i \<Longrightarrow> i < n \<Longrightarrow> \<not> P i) \<Longrightarrow> last_index P n = Some k"
proof (induction n)
  case (Suc n)
  then show ?case by (auto simp: last_index_Suc less_Suc_eq)
qed simp

text \<open>The predicted length is at least 5 and fits the 256-byte receive buffer.\<close>

lemma expected_len_cases:
  assumes "rs232_modbus_expected_resp_len_from_req req > 0"
  shows "\<exists>q. 1 \<le> q \<and> q \<le> 250 \<and> rs232_modbus_expected_resp_len_from_req req = 5 + int q"
proof -
  let ?q = "unat (sys_get_be16 (req ! 4) (req ! 5))"
  have "rs232_modbus_expected_resp_len_from_req req \<in> {- 1, 8} \<or>
    (rs232_modbus_expected_resp_len_from_req req = 5 + int ((?q + 7) div 8) \<and> 1 \<le> ?q \<and> ?q \<le> 2000) \<or>
    (rs232_modbus_expected_resp_len_from_req req = 5 + int (?q * 2) \<and> 1 \<le> ?q \<and> ?q \<le> 125)"
    unfolding rs232_modbus_expected_resp_len_from_req_def Let_def by (simp add: not_less)
  then consider "rs232_modbus_expected_resp_len_from_req req = 5 + int 3"
    | "rs232_modbus_expected_resp_len_from_req req = 5 + int ((?q + 7) div 8)" "1 \<le> ?q" "?q \<le> 2000"
    | "rs232_modbus_expected_resp_len_from_req req = 5 + int (?q * 2)" "1 \<le> ?q" "?q \<le> 125"
    using assms by fastforce
  then show ?thesis
  proof cases
    case 1
    then show ?thesis by (intro exI [of _ 3]) simp
  next
    case 2
    then show ?thesis by (intro exI [of _ "(?q + 7) div 8"] conjI) (linarith | assumption)+
  next
    case 3
    then show ?thesis by (intro exI [of _ "?q * 2"] conjI) (linarith | assumption)+
  qed
qed

lemma expected_len_bounds:
  assumes "rs232_modbus_expected_resp_len_from_req req > 0"
  shows "6 \<le> nat (rs232_modbus_expected_resp_len_from_req req)"
    "nat (rs232_modbus_expected_resp_len_from_req req) \<le> 255"
  using expected_len_cases [OF assms] by auto

text \<open>The aligned response is a run of consecutive received bytes.\<close>

lemma align_slice:
  assumes "rs232_modbus_align_pass_through req buf = Some out"
  shows "\<exists>i. out = take (length out) (drop i buf) \<and> i + length out \<le> length buf \<and> 2 \<le> length out \<and>
    (rs232_modbus_expected_resp_len_from_req req > 0 \<longrightarrow>
       int (length out) = rs232_modbus_expected_resp_len_from_req req)"
proof -
  let ?x = "rs232_modbus_expected_resp_len_from_req req"
  let ?e = "nat ?x"
  have len: "\<not> length buf < 2" using assms by (auto simp: rs232_modbus_align_pass_through_def)
  show ?thesis
  proof (cases "?x > 0")
    case True
    note b = expected_len_bounds [OF True]
    let ?len = "if ?x > 0 \<and> length buf = ?e * 2 \<and> take ?e buf = take ?e (drop ?e buf) then ?e
      else length buf"
    have le: "?len \<le> length buf" by simp
    let ?P = "\<lambda>i. buf ! i = req ! 0 \<and> (buf ! (i + 1) = req ! 1 \<or> buf ! (i + 1) = req ! 1 OR 0x80)"
    have "\<exists>i. out = take ?e (drop i buf) \<and> i + ?e \<le> length buf"
    proof (cases "last_index ?P (?len + 1 - ?e)")
      case None
      with assms len True le show ?thesis
        unfolding rs232_modbus_align_pass_through_def Let_def
        by (intro exI [of _ 0]) (simp split: if_splits)
    next
      case (Some k)
      have "k < ?len + 1 - ?e" using last_index_Some [OF Some] by blast
      then have "k + ?e \<le> length buf" using le by linarith
      with Some assms len True show ?thesis
        unfolding rs232_modbus_align_pass_through_def Let_def
        by (intro exI [of _ k]) simp
    qed
    then show ?thesis using True b by auto
  next
    case False
    let ?P = "\<lambda>i. buf ! i = req ! 0 \<and> buf ! (i + 1) AND 0x80 \<noteq> 0"
    show ?thesis
    proof (cases "last_index ?P (length buf - 4)")
      case None
      with assms len False show ?thesis
        unfolding rs232_modbus_align_pass_through_def Let_def
        by (intro exI [of _ 0]) (simp split: if_splits)
    next
      case (Some k)
      with last_index_Some [OF Some] assms len False show ?thesis
        unfolding rs232_modbus_align_pass_through_def Let_def
        by (intro exI [of _ k]) auto
    qed
  qed
qed

text \<open>When the length is known and enough bytes came, the response is the last window of that
  length that starts with the request's address and its function code, or the exception code
  of it.\<close>

definition resp_head :: "bytes \<Rightarrow> bytes \<Rightarrow> nat \<Rightarrow> bool" where
  "resp_head req buf i \<longleftrightarrow>
     buf ! i = req ! 0 \<and> (buf ! (i + 1) = req ! 1 \<or> buf ! (i + 1) = req ! 1 OR 0x80)"

lemma align_last_window:
  assumes "rs232_modbus_expected_resp_len_from_req req = int e" "0 < e"
    and "k + e \<le> length buf" "resp_head req buf k"
    and "\<And>i. k < i \<Longrightarrow> i + e \<le> length buf \<Longrightarrow> \<not> resp_head req buf i"
    and "length buf \<noteq> e * 2 \<or> take e buf \<noteq> take e (drop e buf)"
  shows "rs232_modbus_align_pass_through req buf = Some (take e (drop k buf))"
proof -
  have "5 \<le> e" using expected_len_bounds [of req] assms(1,2) by simp
  then have len: "\<not> length buf < 2" using assms(3) by linarith
  have L: "\<not> (length buf = e * 2 \<and> take e buf = take e (drop e buf))"
    using assms(6) by blast
  have k: "k < length buf + 1 - e" using assms(3) by linarith
  have "last_index (\<lambda>i. buf ! i = req ! 0 \<and>
      (buf ! (i + 1) = req ! 1 \<or> buf ! (i + 1) = req ! 1 OR 0x80)) (length buf + 1 - e) = Some k"
    using assms(4,5) k unfolding resp_head_def by (intro last_indexI) auto
  with assms(2) len show ?thesis
    unfolding rs232_modbus_align_pass_through_def Let_def assms(1) nat_int
    by (simp only: L simp_thms if_False) simp
qed

lemma finalize_exact:
  assumes "rs232_modbus_expected_resp_len_from_req req = int (length resp)" "resp \<noteq> []"
    and "resp_head req resp 0"
  shows "rs232_modbus_finalize_response req resp = Inr resp"
proof -
  have "rs232_modbus_align_pass_through req resp = Some (take (length resp) (drop 0 resp))"
    using assms by (intro align_last_window) auto
  then show ?thesis by (simp add: rs232_modbus_finalize_response_def)
qed

text \<open>Reading back the line's echo does not corrupt a response: if the request's own bytes
  (or any other \<open>n\<close> bytes) come in front of a response of the predicted length, exactly the
  response is handed on; and a response that comes alone is handed on unchanged.\<close>

theorem align_strips_echo:
  assumes "rs232_modbus_expected_resp_len_from_req req = int (length resp)" "2 \<le> length resp"
    and "resp ! 0 = req ! 0" "resp ! 1 = req ! 1 \<or> resp ! 1 = req ! 1 OR 0x80"
  shows "rs232_modbus_finalize_response req (pre @ resp) = Inr resp"
proof (cases "length (pre @ resp) = length resp * 2 \<and> pre = resp")
  case True
  then show ?thesis
    using assms expected_len_bounds [of req]
    by (simp add: rs232_modbus_finalize_response_def rs232_modbus_align_pass_through_def Let_def
        last_index_Suc)
next
  case False
  let ?e = "length resp" and ?k = "length pre"
  have "length (pre @ resp) \<noteq> ?e * 2 \<or> take ?e (pre @ resp) \<noteq> take ?e (drop ?e (pre @ resp))"
    using False by (cases "length pre = length resp") auto
  moreover have "resp_head req (pre @ resp) ?k"
    using assms(2-4) by (simp add: resp_head_def nth_append)
  ultimately have "rs232_modbus_align_pass_through req (pre @ resp) = Some (take ?e (drop ?k (pre @ resp)))"
    using assms(1,2) by (intro align_last_window) auto
  then show ?thesis by (simp add: rs232_modbus_finalize_response_def)
qed

theorem align_strips_echo_witness:
  "rs232_modbus_finalize_response [1, 3, 0, 0, 0, 1, 0x84, 0x0A]
     ([1, 3, 0, 0, 0, 1, 0x84, 0x0A] @ [1, 3, 2, 0x12, 0x34, 0xB5, 0x33]) =
   Inr [1, 3, 2, 0x12, 0x34, 0xB5, 0x33]"
  by (rule align_strips_echo)
    (simp_all add: rs232_modbus_expected_resp_len_from_req_def sys_get_be16_def)

text \<open>A Modbus exception is not handed on: the five bytes an instrument answers to a read
  or write request it refuses are shorter than the predicted response, and the gateway turns
  them into \<open>-EIO\<close>, so the server sees a line failure instead of the exception code.\<close>

theorem exception_response_rejected:
  assumes "rs232_modbus_expected_resp_len_from_req req > 0"
  shows "rs232_modbus_finalize_response req [req ! 0, req ! 1 OR 0x80, code, c1, c2] = Inl EIO"
proof -
  let ?x = "rs232_modbus_expected_resp_len_from_req req"
  obtain q where q: "1 \<le> q" "?x = 5 + int q" using expected_len_cases [OF assms] by blast
  then have e: "nat ?x = 5 + q" by simp
  show ?thesis
    unfolding rs232_modbus_finalize_response_def rs232_modbus_align_pass_through_def Let_def e
    using q by simp
qed

theorem exception_response_rejected_witness:
  "rs232_modbus_finalize_response [1, 3, 0, 0, 0, 1, 0x84, 0x0A] [1, 0x83, 2, 0xC0, 0xF1] = Inl EIO"
  using exception_response_rejected [of "[1, 3, 0, 0, 0, 1, 0x84, 0x0A]" 2 "0xC0" "0xF1"]
  by (simp add: rs232_modbus_expected_resp_len_from_req_def sys_get_be16_def)

end
