(* ===== verification/Rs232.thy ===== *)
theory Rs232
  imports Rx_Ring Modbus_Codec
begin

text \<open>
  \<^verbatim>\<open>src/rs232.c\<close>, the stateful part: the ports, their reconfiguration, sending, and the
  Modbus transactions in RTU and ASCII mode (the interrupt-driven build).

  The state holds the statics of the file and, for the properties, the log of the bytes
  written to the UARTs.  The world outside is a script of \<^emph>\<open>turns\<close>: one turn per attempt
  of the code to read a byte, with the uptime at that moment, the chunks the interrupt handler
  finds before it (while the receive interrupt is on), what \<open>uart_poll_in\<close> would return, and
  whether another thread has called \<open>rs232_abort_txrx\<close> meanwhile.  A script that is used up
  means that the time is over and nothing more arrives; every run of the code up to its return
  is the run of some script, and the properties hold for all scripts.
\<close>

section \<open>State\<close>

type_synonym device = nat

abbreviation (input) RS232_MAX_PORTS :: nat where "RS232_MAX_PORTS \<equiv> 2"
abbreviation (input) RS232_MODBUS_RX_MAX :: nat where "RS232_MODBUS_RX_MAX \<equiv> 256"
abbreviation (input) RS232_MODBUS_RX_TMO_MS :: int where "RS232_MODBUS_RX_TMO_MS \<equiv> 10000"

record rs232_state =
  rs_abort :: bool
  rs_protocol :: "u8 list"
  rs_dev :: "device option list"
  rs_ring :: "rx_ring list"
  rs_wire :: "(device \<times> u8) list"

record rx_turn =
  t_now :: int
  t_irq :: "bytes list"
  t_poll :: "u8 option"
  t_abort :: bool

definition rs232_wf :: "rs232_state \<Rightarrow> bool" where
  "rs232_wf s \<longleftrightarrow> length (rs_protocol s) = RS232_MAX_PORTS \<and> length (rs_dev s) = RS232_MAX_PORTS \<and>
     length (rs_ring s) = RS232_MAX_PORTS \<and> (\<forall>r \<in> set (rs_ring s). ring_wf r)"

definition rs232_abort_txrx :: "rs232_state \<Rightarrow> rs232_state" where
  "rs232_abort_txrx s = s\<lparr>rs_abort := True\<rparr>"

definition rs232_abort_clear :: "rs232_state \<Rightarrow> rs232_state" where
  "rs232_abort_clear s = s\<lparr>rs_abort := False\<rparr>"

text \<open>The start of the program, and \<open>rs232_ports_init\<close>; which nodes the board's device
  tree has decides the two device pointers.\<close>

definition rs232_boot :: rs232_state where
  "rs232_boot = \<lparr>rs_abort = False, rs_protocol = [0, 0], rs_dev = [None, None],
     rs_ring = [ring_init, ring_init], rs_wire = []\<rparr>"

definition rs232_ports_init :: "device option \<Rightarrow> device option \<Rightarrow> rs232_state \<Rightarrow> rs232_state" where
  "rs232_ports_init node0 node1 s = s\<lparr>rs_dev := [node0, node1], rs_protocol := [0x01, 0x01]\<rparr>"

definition rs232_port_idx :: "rs232_state \<Rightarrow> device \<Rightarrow> nat option" where
  "rs232_port_idx s dev =
     (if rs_dev s ! 0 = Some dev then Some 0
      else if rs_dev s ! 1 = Some dev then Some 1
      else None)"

definition rs232_get_protocol :: "nat \<Rightarrow> rs232_state \<Rightarrow> u8" where
  "rs232_get_protocol port_id s = (if port_id \<ge> RS232_MAX_PORTS then 0 else rs_protocol s ! port_id)"

text \<open>\<open>ready\<close> is \<open>device_is_ready\<close>.\<close>

definition rs232_is_ready :: "(device \<Rightarrow> bool) \<Rightarrow> nat \<Rightarrow> rs232_state \<Rightarrow> bool" where
  "rs232_is_ready ready port_id s =
     (if port_id \<ge> RS232_MAX_PORTS then False
      else case rs_dev s ! port_id of None \<Rightarrow> False | Some d \<Rightarrow> ready d)"

section \<open>Reconfiguration\<close>

datatype uart_data_bits = UART_CFG_DATA_BITS_7 | UART_CFG_DATA_BITS_8
datatype uart_stop_bits = UART_CFG_STOP_BITS_1 | UART_CFG_STOP_BITS_2
datatype uart_parity = UART_CFG_PARITY_NONE | UART_CFG_PARITY_ODD | UART_CFG_PARITY_EVEN
datatype uart_flow_control = UART_CFG_FLOW_CTRL_NONE | UART_CFG_FLOW_CTRL_RTS_CTS

record uart_config =
  u_baudrate :: nat
  u_parity :: uart_parity
  u_stop_bits :: uart_stop_bits
  u_data_bits :: uart_data_bits
  u_flow_ctrl :: uart_flow_control

record rs232_remote_cfg =
  rc_protocol :: u8
  rc_bps :: u8
  rc_data_bit :: u8
  rc_stop_bit :: u8
  rc_parity :: u8
  rc_flow :: u8

text \<open>The five switches, each with its early return.\<close>

definition rs232_uart_config :: "rs232_remote_cfg \<Rightarrow> uart_config option" where
  "rs232_uart_config cfg =
     (let baud = (if rc_bps cfg = 0 then Some 9600 else if rc_bps cfg = 1 then Some 115200 else None);
          data = (if rc_data_bit cfg = 0 then Some UART_CFG_DATA_BITS_7
                  else if rc_data_bit cfg = 1 then Some UART_CFG_DATA_BITS_8 else None);
          stop = (if rc_stop_bit cfg = 0 then Some UART_CFG_STOP_BITS_1
                  else if rc_stop_bit cfg = 1 then Some UART_CFG_STOP_BITS_2 else None);
          parity = (if rc_parity cfg = 0 then Some UART_CFG_PARITY_NONE
                    else if rc_parity cfg = 1 then Some UART_CFG_PARITY_ODD
                    else if rc_parity cfg = 2 then Some UART_CFG_PARITY_EVEN else None);
          flow = (if rc_flow cfg = 0 then Some UART_CFG_FLOW_CTRL_NONE
                  else if rc_flow cfg = 1 then Some UART_CFG_FLOW_CTRL_RTS_CTS else None)
      in case (baud, data, stop, parity, flow) of
           (Some b, Some d, Some st, Some p, Some f) \<Rightarrow>
             Some \<lparr>u_baudrate = b, u_parity = p, u_stop_bits = st, u_data_bits = d, u_flow_ctrl = f\<rparr>
         | _ \<Rightarrow> None)"

text \<open>What one attempt sees: whether another thread had set the abort flag at the readings during the two-second wait (only
  before the second and third attempt), its reading right before the call, and the result of
  \<open>uart_configure\<close>, which is given the device and the settings.\<close>

record reconf_attempt =
  ra_wait :: "bool list"
  ra_abort :: bool
  ra_result :: "device \<Rightarrow> uart_config \<Rightarrow> int"

text \<open>The loop's success, and the abort flag after it.\<close>

primrec reconf_loop ::
    "bool \<Rightarrow> nat \<Rightarrow> device \<Rightarrow> uart_config \<Rightarrow> nat \<Rightarrow> (nat \<Rightarrow> reconf_attempt) \<Rightarrow> bool \<times> bool" where
  "reconf_loop aborted 0 dev ucfg attempt env = (False, aborted)"
| "reconf_loop aborted (Suc left) dev ucfg attempt env =
     (if attempt > 1 \<and> (\<exists>r \<in> set (ra_wait (env attempt)). aborted \<or> r) then (False, True)
      else if aborted \<or> ra_abort (env attempt) then (False, True)
      else if ra_result (env attempt) dev ucfg = 0 then (True, aborted)
      else reconf_loop aborted left dev ucfg (attempt + 1) env)"

text \<open>\<open>True\<close> is the result \<open>0\<close>, \<open>False\<close> the result \<open>-1\<close>.\<close>

definition rs232_reconfigure ::
    "(nat \<Rightarrow> reconf_attempt) \<Rightarrow> nat \<Rightarrow> rs232_remote_cfg option \<Rightarrow> rs232_state \<Rightarrow> bool \<times> rs232_state" where
  "rs232_reconfigure env port_id cfgp s =
     (case cfgp of
        None \<Rightarrow> (False, s)
      | Some cfg \<Rightarrow>
          if port_id \<ge> RS232_MAX_PORTS then (False, s)
          else case rs_dev s ! port_id of
                 None \<Rightarrow> (False, s)
               | Some dev \<Rightarrow>
                   (case rs232_uart_config cfg of
                      None \<Rightarrow> (False, s)
                    | Some ucfg \<Rightarrow>
                        let (ok, aborted) = reconf_loop (rs_abort s) 3 dev ucfg 1 env
                        in if ok
                           then (True, s\<lparr>rs_abort := aborted,
                                  rs_ring := (rs_ring s)[port_id := rs232_irq_rx_ring_reset (rs_ring s ! port_id)],
                                  rs_protocol := (rs_protocol s)[port_id := rc_protocol cfg]\<rparr>)
                           else (False, s\<lparr>rs_abort := aborted\<rparr>)))"

section \<open>Sending\<close>

definition rs232_send :: "nat \<Rightarrow> bytes \<Rightarrow> rs232_state \<Rightarrow> errno option \<times> rs232_state" where
  "rs232_send port_id data s =
     (if data = [] \<or> port_id \<ge> RS232_MAX_PORTS then (Some EINVAL, s)
      else case rs_dev s ! port_id of
             None \<Rightarrow> (Some ENODEV, s)
           | Some dev \<Rightarrow> (None, s\<lparr>rs_wire := rs_wire s @ map (Pair dev) data\<rparr>))"

definition rs232_tx :: "nat \<Rightarrow> bytes \<Rightarrow> rs232_state \<Rightarrow> errno option \<times> rs232_state" where
  "rs232_tx = rs232_send"

section \<open>Reading and discarding\<close>

text \<open>What happens before an attempt: the interrupt handler empties the UART's FIFO into the
  port's ring, and the abort flag may have been set.  While the receive interrupt is off,
  only the flag can change.\<close>

definition begin_turn :: "nat \<Rightarrow> rx_turn \<Rightarrow> rs232_state \<Rightarrow> rs232_state" where
  "begin_turn idx t s =
     s\<lparr>rs_abort := rs_abort s \<or> t_abort t,
       rs_ring := (rs_ring s)[idx := rs232_uart_irq_isr (t_irq t) (rs_ring s ! idx)]\<rparr>"

definition begin_turn_irq_off :: "rx_turn \<Rightarrow> rs232_state \<Rightarrow> rs232_state" where
  "begin_turn_irq_off t s = s\<lparr>rs_abort := rs_abort s \<or> t_abort t\<rparr>"

text \<open>\<open>poll\<close> is the result of \<open>uart_poll_in\<close>.\<close>

definition rs232_rx_try_byte :: "nat \<Rightarrow> u8 option \<Rightarrow> rs232_state \<Rightarrow> u8 option \<times> rs232_state" where
  "rs232_rx_try_byte idx poll s =
     (case rs232_irq_rx_ring_pop (rs_ring s ! idx) of
        Some (b, r) \<Rightarrow> (Some b, s\<lparr>rs_ring := (rs_ring s)[idx := r]\<rparr>)
      | None \<Rightarrow> (poll, s))"

definition ring_reset :: "nat \<Rightarrow> rs232_state \<Rightarrow> rs232_state" where
  "ring_reset idx s = s\<lparr>rs_ring := (rs_ring s)[idx := rs232_irq_rx_ring_reset (rs_ring s ! idx)]\<rparr>"

fun rs232_hw_poll_drain :: "rx_turn list \<Rightarrow> rs232_state \<Rightarrow> rx_turn list \<times> rs232_state" where
  "rs232_hw_poll_drain [] s = ([], s)"
| "rs232_hw_poll_drain (t # ts) s =
     (if t_poll t = None then (ts, begin_turn_irq_off t s)
      else rs232_hw_poll_drain ts (begin_turn_irq_off t s))"

definition rs232_drain_rx_fifo :: "nat \<Rightarrow> rx_turn list \<Rightarrow> rs232_state \<Rightarrow> rx_turn list \<times> rs232_state" where
  "rs232_drain_rx_fifo idx ts s = rs232_hw_poll_drain ts (ring_reset idx s)"

text \<open>The loop of \<open>rs232_discard_until_rx_idle\<close>; \<open>burst\<close> tells whether the attempt
  belongs to the inner loop.\<close>

fun discard_loop ::
    "nat \<Rightarrow> int \<Rightarrow> int \<Rightarrow> int \<Rightarrow> bool \<Rightarrow> rx_turn list \<Rightarrow> rs232_state \<Rightarrow> rx_turn list \<times> rs232_state" where
  "discard_loop idx idle_ms t_end idle_since burst [] s = ([], s)"
| "discard_loop idx idle_ms t_end idle_since burst (t # ts) s =
     (if \<not> burst \<and> t_now t \<ge> t_end then (t # ts, s)
      else
        case rs232_rx_try_byte idx (t_poll t) (begin_turn idx t s) of
          (Some ch, s') \<Rightarrow> discard_loop idx idle_ms t_end (t_now t) True ts s'
        | (None, s') \<Rightarrow>
            if burst then discard_loop idx idle_ms t_end idle_since False ts s'
            else if t_now t - idle_since \<ge> idle_ms then (ts, s')
            else discard_loop idx idle_ms t_end idle_since False ts s')"

definition rs232_discard_until_rx_idle ::
    "nat \<Rightarrow> int \<Rightarrow> int \<Rightarrow> rx_turn list \<Rightarrow> rs232_state \<Rightarrow> rx_turn list \<times> rs232_state" where
  "rs232_discard_until_rx_idle idx idle_ms cap_ms ts s =
     (case ts of
        [] \<Rightarrow> ([], s)
      | t # _ \<Rightarrow> discard_loop idx idle_ms (t_now t + cap_ms) (t_now t) False ts s)"

definition rs232_prepare_tx_bus ::
    "nat \<Rightarrow> int \<Rightarrow> int \<Rightarrow> rx_turn list \<Rightarrow> rs232_state \<Rightarrow> rx_turn list \<times> rs232_state" where
  "rs232_prepare_tx_bus idx idle_ms cap_ms ts s =
     (let (old, r) = pop_all rs232_irq_rx_ring_pop 511 (rs_ring s ! idx);
          (ts', s') = rs232_hw_poll_drain ts (s\<lparr>rs_ring := (rs_ring s)[idx := r]\<rparr>);
          had = (old \<noteq> [] \<or> (case ts of [] \<Rightarrow> False | t # _ \<Rightarrow> t_poll t \<noteq> None))
      in if had then rs232_discard_until_rx_idle idx idle_ms cap_ms ts' s' else (ts', s'))"

text \<open>Clearing the line, sending, and clearing what came in meanwhile, with the receive
  interrupt off: the part of a transaction both modes share.\<close>

definition rs232_transmit ::
    "nat \<Rightarrow> nat \<Rightarrow> bytes \<Rightarrow> rx_turn list \<Rightarrow> rs232_state \<Rightarrow> errno option \<times> rx_turn list \<times> rs232_state" where
  "rs232_transmit port_id idx tx ts s =
     (let (ts1, s1) = rs232_prepare_tx_bus idx 100 800 ts s;
          (ts2, s2) = rs232_hw_poll_drain ts1 (ring_reset idx s1)
      in case rs232_send port_id tx s2 of
           (Some e, s3) \<Rightarrow> let (ts4, s4) = rs232_drain_rx_fifo idx ts2 s3 in (Some EIO, ts4, s4)
         | (None, s3) \<Rightarrow> let (ts4, s4) = rs232_hw_poll_drain ts2 s3 in (None, ts4, s4))"

section \<open>Receiving in RTU mode\<close>

text \<open>The wait for the first byte: \<open>None\<close> in the second component when the time is up.\<close>

fun rtu_first_loop ::
    "nat \<Rightarrow> int \<Rightarrow> rx_turn list \<Rightarrow> rs232_state \<Rightarrow> (errno + u8 option) \<times> rx_turn list \<times> rs232_state" where
  "rtu_first_loop idx deadline [] s = (Inr None, [], s)"
| "rtu_first_loop idx deadline (t # ts) s =
     (if t_now t \<ge> deadline then (Inr None, t # ts, s)
      else
        let s1 = begin_turn idx t s
        in if rs_abort s1 then let (ts', s') = rs232_drain_rx_fifo idx ts s1 in (Inl ECANCELED, ts', s')
           else
             case rs232_rx_try_byte idx (t_poll t) s1 of
               (Some ch, s2) \<Rightarrow> (Inr (Some ch), ts, s2)
             | (None, s2) \<Rightarrow> rtu_first_loop idx deadline ts s2)"

text \<open>The loop for the rest; \<open>inner\<close> tells whether the attempt belongs to the inner loop
  that reads what is there, whose guard \<open>n < max_rx\<close> is evaluated after the byte was taken.\<close>

fun rtu_more_loop ::
    "nat \<Rightarrow> int \<Rightarrow> nat \<Rightarrow> int \<Rightarrow> bool \<Rightarrow> bytes \<Rightarrow> rx_turn list \<Rightarrow> rs232_state \<Rightarrow>
       (errno + bytes) \<times> rx_turn list \<times> rs232_state" where
  "rtu_more_loop idx deadline max_rx expected inner resp [] s = (Inr resp, [], s)"
| "rtu_more_loop idx deadline max_rx expected inner resp (t # ts) s =
     (if \<not> inner \<and> (t_now t \<ge> deadline \<or> length resp \<ge> max_rx) then (Inr resp, t # ts, s)
      else
        let (c, s1) = rs232_rx_try_byte idx (t_poll t) (begin_turn idx t s)
        in if c \<noteq> None \<and> length resp < max_rx
           then rtu_more_loop idx deadline max_rx expected True (resp @ [the c]) ts s1
           else if expected > 0 \<and> int (length resp) \<ge> expected then (Inr resp, ts, s1)
           else if expected \<le> 0 \<and> length resp \<ge> 5 then (Inr resp, ts, s1)
           else if rs_abort s1
           then let (ts', s') = rs232_drain_rx_fifo idx ts s1 in (Inl ECANCELED, ts', s')
           else rtu_more_loop idx deadline max_rx expected False resp ts s1)"

text \<open>What is left over after a good response is thrown away.\<close>

fun tail_loop :: "nat \<Rightarrow> bool \<Rightarrow> rx_turn list \<Rightarrow> rs232_state \<Rightarrow> bool \<times> rx_turn list \<times> rs232_state" where
  "tail_loop idx tr [] s = (tr, [], s)"
| "tail_loop idx tr (t # ts) s =
     (case rs232_rx_try_byte idx (t_poll t) (begin_turn idx t s) of
        (Some ch, s') \<Rightarrow> tail_loop idx True ts s'
      | (None, s') \<Rightarrow> (tr, ts, s'))"

text \<open>\<open>deadline_from\<close> is \<open>k_uptime_get() + RS232_MODBUS_RX_TMO_MS\<close>.\<close>

definition deadline_from :: "rx_turn list \<Rightarrow> int" where
  "deadline_from ts = (case ts of [] \<Rightarrow> 0 | t # _ \<Rightarrow> t_now t + RS232_MODBUS_RX_TMO_MS)"

definition rtu_finish ::
    "nat \<Rightarrow> bytes \<Rightarrow> bytes \<Rightarrow> rx_turn list \<Rightarrow> rs232_state \<Rightarrow> (errno + bytes) \<times> rx_turn list \<times> rs232_state" where
  "rtu_finish idx req resp ts s =
     (case rs232_modbus_finalize_response req resp of
        Inl e \<Rightarrow> let (ts', s') = rs232_drain_rx_fifo idx ts s in (Inl e, ts', s')
      | Inr out \<Rightarrow>
          let (tr, ts1, s1) = tail_loop idx False ts s;
              (ts2, s2) = (if tr then rs232_discard_until_rx_idle idx 40 120 ts1 s1 else (ts1, s1))
          in (Inr out, ts2, s2))"

definition rtu_receive ::
    "nat \<Rightarrow> bytes \<Rightarrow> nat \<Rightarrow> rx_turn list \<Rightarrow> rs232_state \<Rightarrow> (errno + bytes) \<times> rx_turn list \<times> rs232_state" where
  "rtu_receive idx req resp_cap ts s =
     (let max_rx = min resp_cap RS232_MODBUS_RX_MAX;
          deadline = deadline_from ts;
          expected = rs232_modbus_expected_resp_len_from_req req
      in case rtu_first_loop idx deadline ts s of
           (Inl e, ts1, s1) \<Rightarrow> (Inl e, ts1, s1)
         | (Inr None, ts1, s1) \<Rightarrow>
             let (ts2, s2) = rs232_drain_rx_fifo idx ts1 s1 in (Inl ETIMEDOUT, ts2, s2)
         | (Inr (Some ch), ts1, s1) \<Rightarrow>
             (case rtu_more_loop idx deadline max_rx expected False [ch] ts1 s1 of
                (Inl e, ts2, s2) \<Rightarrow> (Inl e, ts2, s2)
              | (Inr resp, ts2, s2) \<Rightarrow> rtu_finish idx req resp ts2 s2))"

section \<open>Receiving in ASCII mode\<close>

definition ascii_passthrough :: "bytes \<Rightarrow> bool" where
  "ascii_passthrough req \<longleftrightarrow>
     length req \<ge> 3 \<and> req ! 0 = colon \<and> req ! (length req - 2) = cr \<and> req ! (length req - 1) = lf"

definition ascii_request_frame :: "bytes \<Rightarrow> bytes option" where
  "ascii_request_frame req =
     (if ascii_passthrough req
      then if length req > RS232_ASCII_FRAME_MAX then None else Some req
      else rs232_rtu_to_ascii_frame req RS232_ASCII_FRAME_MAX)"

text \<open>The wait for the colon, and the collection up to CR LF.  The Boolean of the second loop's
  result is \<open>got_crlf\<close>.\<close>

fun ascii_colon_loop ::
    "nat \<Rightarrow> int \<Rightarrow> rx_turn list \<Rightarrow> rs232_state \<Rightarrow> (errno + bool) \<times> rx_turn list \<times> rs232_state" where
  "ascii_colon_loop idx deadline [] s = (Inr False, [], s)"
| "ascii_colon_loop idx deadline (t # ts) s =
     (if t_now t \<ge> deadline then (Inr False, t # ts, s)
      else
        let s1 = begin_turn idx t s
        in if rs_abort s1 then let (ts', s') = rs232_drain_rx_fifo idx ts s1 in (Inl ECANCELED, ts', s')
           else
             let (c, s2) = rs232_rx_try_byte idx (t_poll t) s1
             in if c = Some colon then (Inr True, ts, s2)
                else ascii_colon_loop idx deadline ts s2)"

fun ascii_collect_loop ::
    "nat \<Rightarrow> int \<Rightarrow> bytes \<Rightarrow> rx_turn list \<Rightarrow> rs232_state \<Rightarrow>
       (errno + bool \<times> bytes) \<times> rx_turn list \<times> rs232_state" where
  "ascii_collect_loop idx deadline rx [] s = (Inr (False, rx), [], s)"
| "ascii_collect_loop idx deadline rx (t # ts) s =
     (if t_now t \<ge> deadline \<or> length rx \<ge> RS232_ASCII_FRAME_MAX then (Inr (False, rx), t # ts, s)
      else
        let s1 = begin_turn idx t s
        in if rs_abort s1 then let (ts', s') = rs232_drain_rx_fifo idx ts s1 in (Inl ECANCELED, ts', s')
           else
             case rs232_rx_try_byte idx (t_poll t) s1 of
               (Some ch, s2) \<Rightarrow>
                 let rx' = rx @ [ch]
                 in if length rx' \<ge> 2 \<and> rx' ! (length rx' - 2) = cr \<and> rx' ! (length rx' - 1) = lf
                    then (Inr (True, rx'), ts, s2)
                    else ascii_collect_loop idx deadline rx' ts s2
             | (None, s2) \<Rightarrow> ascii_collect_loop idx deadline rx ts s2)"

text \<open>Every failure of the reception drains the line.\<close>

definition fail_drained ::
    "nat \<Rightarrow> errno \<Rightarrow> rx_turn list \<Rightarrow> rs232_state \<Rightarrow> (errno + bytes) \<times> rx_turn list \<times> rs232_state" where
  "fail_drained idx e ts s = (let (ts', s') = rs232_drain_rx_fifo idx ts s in (Inl e, ts', s'))"

definition ascii_receive ::
    "nat \<Rightarrow> bool \<Rightarrow> nat \<Rightarrow> rx_turn list \<Rightarrow> rs232_state \<Rightarrow> (errno + bytes) \<times> rx_turn list \<times> rs232_state" where
  "ascii_receive idx passthrough resp_cap ts s =
     (let deadline = deadline_from ts
      in case ascii_colon_loop idx deadline ts s of
           (Inl e, ts1, s1) \<Rightarrow> (Inl e, ts1, s1)
         | (Inr found, ts1, s1) \<Rightarrow>
             if \<not> found then fail_drained idx ETIMEDOUT ts1 s1
             else
               case ascii_collect_loop idx deadline [colon] ts1 s1 of
                 (Inl e, ts2, s2) \<Rightarrow> (Inl e, ts2, s2)
               | (Inr (got_crlf, rx), ts2, s2) \<Rightarrow>
                   if \<not> got_crlf then fail_drained idx ETIMEDOUT ts2 s2
                   else if passthrough then
                     if length rx > resp_cap then fail_drained idx ENOBUFS ts2 s2
                     else (Inr rx, ts2, s2)
                   else
                     case rs232_ascii_decode_response rx resp_cap of
                       Inl dec \<Rightarrow> fail_drained idx EIO ts2 s2
                     | Inr rtu \<Rightarrow> (Inr rtu, ts2, s2))"

section \<open>Transactions\<close>

text \<open>The device of a port that has one and whose device is ready.\<close>

definition port_device :: "(device \<Rightarrow> bool) \<Rightarrow> nat \<Rightarrow> rs232_state \<Rightarrow> device option" where
  "port_device ready port_id s =
     (case rs_dev s ! port_id of None \<Rightarrow> None | Some dev \<Rightarrow> if ready dev then Some dev else None)"

definition rs232_modbus_ascii_txrx ::
    "(device \<Rightarrow> bool) \<Rightarrow> nat \<Rightarrow> bytes \<Rightarrow> nat \<Rightarrow> rx_turn list \<Rightarrow> rs232_state \<Rightarrow>
       (errno + bytes) \<times> rx_turn list \<times> rs232_state" where
  "rs232_modbus_ascii_txrx ready port_id req resp_cap ts s =
     (case port_device ready port_id s of
        None \<Rightarrow> (Inl ENODEV, ts, s)
      | Some dev \<Rightarrow>
          (case ascii_request_frame req of
             None \<Rightarrow> (Inl EINVAL, ts, s)
           | Some tx \<Rightarrow>
               let idx = the (rs232_port_idx s dev)
               in case rs232_transmit port_id idx tx ts s of
                    (Some e, ts1, s1) \<Rightarrow> (Inl e, ts1, s1)
                  | (None, ts1, s1) \<Rightarrow> ascii_receive idx (ascii_passthrough req) resp_cap ts1 s1))"

definition rs232_modbus_txrx ::
    "(device \<Rightarrow> bool) \<Rightarrow> nat \<Rightarrow> bytes \<Rightarrow> nat \<Rightarrow> rx_turn list \<Rightarrow> rs232_state \<Rightarrow>
       (errno + bytes) \<times> rx_turn list \<times> rs232_state" where
  "rs232_modbus_txrx ready port_id req resp_cap ts s =
     (if req = [] then (Inl EINVAL, ts, s)
      else if port_id \<ge> RS232_MAX_PORTS then (Inl EINVAL, ts, s)
      else if rs_protocol s ! port_id = 0x00 then (Inl ENOTSUP, ts, s)
      else if rs_protocol s ! port_id = 0x02 then rs232_modbus_ascii_txrx ready port_id req resp_cap ts s
      else
        case port_device ready port_id s of
          None \<Rightarrow> (Inl ENODEV, ts, s)
        | Some dev \<Rightarrow>
            let idx = the (rs232_port_idx s dev)
            in case rs232_transmit port_id idx req ts s of
                 (Some e, ts1, s1) \<Rightarrow> (Inl e, ts1, s1)
               | (None, ts1, s1) \<Rightarrow> rtu_receive idx req resp_cap ts1 s1)"

section \<open>What reading may change\<close>

text \<open>Between two sends only the rings change, and the abort flag can only be set.\<close>

definition rs_keep :: "rs232_state \<Rightarrow> rs232_state \<Rightarrow> bool" where
  "rs_keep s s' \<longleftrightarrow> (rs232_wf s \<longrightarrow> rs232_wf s') \<and> rs_dev s' = rs_dev s \<and>
     rs_protocol s' = rs_protocol s \<and> rs_wire s' = rs_wire s \<and> (rs_abort s \<longrightarrow> rs_abort s')"

lemma rs_keep_refl [simp, intro]: "rs_keep s s"
  by (simp add: rs_keep_def)

lemma rs_keep_trans [trans]: "rs_keep s s1 \<Longrightarrow> rs_keep s1 s2 \<Longrightarrow> rs_keep s s2"
  by (auto simp: rs_keep_def)

lemma rs_keep_ring:
  "ab \<or> \<not> rs_abort s \<Longrightarrow> (ring_wf (rs_ring s ! idx) \<Longrightarrow> ring_wf r) \<Longrightarrow>
     rs_keep s (s\<lparr>rs_abort := ab, rs_ring := (rs_ring s)[idx := r]\<rparr>)"
  by (cases "idx < length (rs_ring s)")
    (auto simp: rs_keep_def rs232_wf_def not_less list_update_beyond
      dest: subsetD [OF set_update_subset_insert])

lemma begin_turn_keep [simp]: "rs_keep s (begin_turn idx t s)"
  unfolding begin_turn_def by (rule rs_keep_ring) auto

lemma begin_turn_irq_off_keep [simp]: "rs_keep s (begin_turn_irq_off t s)"
  by (simp add: begin_turn_irq_off_def rs_keep_def rs232_wf_def)

lemma ring_reset_keep [simp]: "rs_keep s (ring_reset idx s)"
  using rs_keep_ring [of "rs_abort s" s idx "rs232_irq_rx_ring_reset (rs_ring s ! idx)"]
  by (simp add: ring_reset_def rx.inv_reset)

lemma try_byte_keep:
  "rs232_rx_try_byte idx poll s = (c, s') \<Longrightarrow> rs_keep s s'"
  using rs_keep_ring [of "rs_abort s" s idx]
  by (auto simp: rs232_rx_try_byte_def split: option.splits dest: ring_pop_Some)

lemma try_turn_keep:
  "rs232_rx_try_byte idx poll (begin_turn idx t s) = (c, s') \<Longrightarrow> rs_keep s s'"
  using rs_keep_trans [OF begin_turn_keep try_byte_keep] .

lemma hw_poll_drain_keep:
  "rs232_hw_poll_drain ts s = (ts', s') \<Longrightarrow> rs_keep s s'"
  by (induction ts s rule: rs232_hw_poll_drain.induct)
    (auto split: if_splits intro: rs_keep_trans [OF begin_turn_irq_off_keep])

lemma drain_rx_fifo_keep:
  "rs232_drain_rx_fifo idx ts s = (ts', s') \<Longrightarrow> rs_keep s s'"
  unfolding rs232_drain_rx_fifo_def using rs_keep_trans [OF ring_reset_keep hw_poll_drain_keep] .

lemma discard_loop_keep:
  "discard_loop idx idle_ms t_end since burst ts s = (ts', s') \<Longrightarrow> rs_keep s s'"
  by (induction idx idle_ms t_end since burst ts s rule: discard_loop.induct)
    (auto split: if_splits prod.splits option.splits
      dest: try_turn_keep intro: rs_keep_trans)

lemma discard_until_rx_idle_keep:
  "rs232_discard_until_rx_idle idx idle_ms cap_ms ts s = (ts', s') \<Longrightarrow> rs_keep s s'"
  by (auto simp: rs232_discard_until_rx_idle_def simp del: discard_loop.simps
      split: list.splits dest: discard_loop_keep)

lemma prepare_tx_bus_keep:
  assumes "rs232_prepare_tx_bus idx idle_ms cap_ms ts s = (ts', s')"
  shows "rs_keep s s'"
proof -
  obtain old r where p: "pop_all rs232_irq_rx_ring_pop 511 (rs_ring s ! idx) = (old, r)"
    by (cases "pop_all rs232_irq_rx_ring_pop 511 (rs_ring s ! idx)")
  let ?s = "s\<lparr>rs_ring := (rs_ring s)[idx := r]\<rparr>"
  obtain ts1 s1 where d: "rs232_hw_poll_drain ts ?s = (ts1, s1)" by fastforce
  have "rs_keep s ?s"
    using rs_keep_ring [of "rs_abort s" s idx r] rx.pop_all_fuel [OF _ p] by auto
  also have "rs_keep ?s s1" using hw_poll_drain_keep [OF d] .
  also have "rs_keep s1 s'"
    using assms by (auto simp: rs232_prepare_tx_bus_def p d Let_def split: if_splits
        dest: discard_until_rx_idle_keep)
  finally show ?thesis .
qed

lemma rtu_first_loop_keep:
  "rtu_first_loop idx deadline ts s = (res, ts', s') \<Longrightarrow> rs_keep s s'"
  by (induction idx deadline ts s rule: rtu_first_loop.induct)
    (auto simp: Let_def split: if_splits prod.splits option.splits
      dest: try_turn_keep drain_rx_fifo_keep
      intro: rs_keep_trans rs_keep_trans [OF begin_turn_keep])

lemma rtu_more_loop_keep:
  "rtu_more_loop idx deadline max_rx expected inner resp ts s = (res, ts', s') \<Longrightarrow> rs_keep s s'"
  by (induction idx deadline max_rx expected inner resp ts s rule: rtu_more_loop.induct)
    (auto simp: Let_def split: if_splits prod.splits
      dest!: try_turn_keep dest: drain_rx_fifo_keep intro: rs_keep_trans)

lemma tail_loop_keep:
  "tail_loop idx tr ts s = (tr', ts', s') \<Longrightarrow> rs_keep s s'"
  by (induction idx tr ts s rule: tail_loop.induct)
    (auto split: prod.splits option.splits dest: try_turn_keep intro: rs_keep_trans)

lemma ascii_colon_loop_keep:
  "ascii_colon_loop idx deadline ts s = (res, ts', s') \<Longrightarrow> rs_keep s s'"
  by (induction idx deadline ts s rule: ascii_colon_loop.induct)
    (auto simp: Let_def split: if_splits prod.splits
      dest: try_turn_keep drain_rx_fifo_keep
      intro: rs_keep_trans rs_keep_trans [OF begin_turn_keep])

lemma ascii_collect_loop_keep:
  "ascii_collect_loop idx deadline rx ts s = (res, ts', s') \<Longrightarrow> rs_keep s s'"
  by (induction idx deadline rx ts s rule: ascii_collect_loop.induct)
    (auto simp: Let_def split: if_splits prod.splits option.splits
      dest: try_turn_keep drain_rx_fifo_keep
      intro: rs_keep_trans rs_keep_trans [OF begin_turn_keep])

lemma fail_drained_keep: "fail_drained idx e ts s = (res, ts', s') \<Longrightarrow> rs_keep s s' \<and> res = Inl e"
  by (auto simp: fail_drained_def split: prod.splits dest: drain_rx_fifo_keep)

lemma rtu_finish_keep:
  assumes "rtu_finish idx req resp ts s = (res, ts', s')"
  shows "rs_keep s s' \<and> res = rs232_modbus_finalize_response req resp"
proof (cases "rs232_modbus_finalize_response req resp")
  case (Inl e)
  with assms show ?thesis
    by (auto simp: rtu_finish_def split: prod.splits dest: drain_rx_fifo_keep)
next
  case (Inr out)
  obtain tr ts1 s1 where t: "tail_loop idx False ts s = (tr, ts1, s1)" by (rule prod_cases3)
  note k = tail_loop_keep [OF t]
  show ?thesis
  proof (cases tr)
    case True
    with assms t Inr show ?thesis
      by (auto simp: rtu_finish_def split: prod.splits
          dest: discard_until_rx_idle_keep intro: rs_keep_trans [OF k])
  next
    case False
    with assms t Inr k show ?thesis by (simp add: rtu_finish_def)
  qed
qed

lemma rtu_receive_keep:
  assumes "rtu_receive idx req cap ts s = (res, ts', s')"
  shows "rs_keep s s'"
proof -
  obtain r1 ts1 s1 where f: "rtu_first_loop idx (deadline_from ts) ts s = (r1, ts1, s1)"
    by (rule prod_cases3)
  note k1 = rtu_first_loop_keep [OF f]
  note d = assms [unfolded rtu_receive_def Let_def f prod.case]
  consider e where "r1 = Inl e" | "r1 = Inr None" | ch where "r1 = Inr (Some ch)"
    by (cases r1; (cases "projr r1")?) auto
  then show ?thesis
  proof cases
    case 1
    with d k1 show ?thesis by simp
  next
    case 2
    with d k1 show ?thesis
      by (auto split: prod.splits dest: drain_rx_fifo_keep intro: rs_keep_trans)
  next
    case (3 ch)
    obtain r2 ts2 s2 where m: "rtu_more_loop idx (deadline_from ts) (min cap RS232_MODBUS_RX_MAX)
        (rs232_modbus_expected_resp_len_from_req req) False [ch] ts1 s1 = (r2, ts2, s2)"
      by (rule prod_cases3)
    note k2 = rs_keep_trans [OF k1 rtu_more_loop_keep [OF m]]
    show ?thesis
      using d k2 unfolding 3 sum.case option.case m prod.case
      by (auto split: sum.splits dest: rtu_finish_keep intro: rs_keep_trans)
  qed
qed

lemma ascii_receive_keep:
  assumes "ascii_receive idx passthrough cap ts s = (res, ts', s')"
  shows "rs_keep s s'"
proof -
  obtain r1 ts1 s1 where c: "ascii_colon_loop idx (deadline_from ts) ts s = (r1, ts1, s1)"
    by (rule prod_cases3)
  obtain r2 ts2 s2 where m: "ascii_collect_loop idx (deadline_from ts) [colon] ts1 s1 = (r2, ts2, s2)"
    by (rule prod_cases3)
  note k1 = ascii_colon_loop_keep [OF c]
  note k2 = rs_keep_trans [OF k1 ascii_collect_loop_keep [OF m]]
  show ?thesis
    using assms k1 k2 unfolding ascii_receive_def Let_def c
    by (auto simp: m split: sum.splits if_splits prod.splits
        dest!: fail_drained_keep intro: rs_keep_trans)
qed

lemma rs232_wf_wire: "rs232_wf (s\<lparr>rs_wire := w\<rparr>) \<longleftrightarrow> rs232_wf s"
  by (simp add: rs232_wf_def)

lemma rs_keep_wire:
  "rs_keep (s\<lparr>rs_wire := w\<rparr>) s' \<Longrightarrow> (rs232_wf s \<longrightarrow> rs232_wf s') \<and> rs_dev s' = rs_dev s \<and>
     rs_protocol s' = rs_protocol s \<and> rs_wire s' = w \<and> (rs_abort s \<longrightarrow> rs_abort s')"
  by (simp add: rs_keep_def rs232_wf_wire)

text \<open>The transmission puts the frame on the wire, once and complete.\<close>

lemma transmit_effect:
  assumes "rs232_transmit port_id idx tx ts s = (res, ts', s')"
    and "port_id < RS232_MAX_PORTS" "rs_dev s ! port_id = Some dev" "tx \<noteq> []"
  shows "res = None \<and> rs_wire s' = rs_wire s @ map (Pair dev) tx \<and> rs_dev s' = rs_dev s \<and>
    rs_protocol s' = rs_protocol s \<and> (rs232_wf s \<longrightarrow> rs232_wf s') \<and> (rs_abort s \<longrightarrow> rs_abort s')"
proof -
  obtain ts1 s1 where p: "rs232_prepare_tx_bus idx 100 800 ts s = (ts1, s1)" by fastforce
  obtain ts2 s2 where d: "rs232_hw_poll_drain ts1 (ring_reset idx s1) = (ts2, s2)" by fastforce
  have k: "rs_keep s s2"
    using rs_keep_trans [OF prepare_tx_bus_keep [OF p]
        rs_keep_trans [OF ring_reset_keep hw_poll_drain_keep [OF d]]] .
  let ?s3 = "s2\<lparr>rs_wire := rs_wire s2 @ map (Pair dev) tx\<rparr>"
  have send: "rs232_send port_id tx s2 = (None, ?s3)"
    using k assms(2-4) by (simp add: rs_keep_def rs232_send_def)
  obtain ts4 s4 where d4: "rs232_hw_poll_drain ts2 ?s3 = (ts4, s4)" by fastforce
  note k4 = rs_keep_wire [OF hw_poll_drain_keep [OF d4]]
  have r: "res = None" "s' = s4"
    using assms(1) unfolding rs232_transmit_def p Let_def prod.case d send option.case d4 by simp_all
  note k2 = k [unfolded rs_keep_def]
  have "rs_wire s4 = rs_wire s @ map (Pair dev) tx" using k4 k2 by metis
  with k4 k2 show ?thesis unfolding r by metis
qed

section \<open>The contract of a transaction\<close>

text \<open>The device and the frame a transaction sends, when its guards let it send.\<close>

definition txrx_frame ::
    "(device \<Rightarrow> bool) \<Rightarrow> nat \<Rightarrow> bytes \<Rightarrow> rs232_state \<Rightarrow> (device \<times> bytes) option" where
  "txrx_frame ready port_id req s =
     (if req = [] \<or> port_id \<ge> RS232_MAX_PORTS \<or> rs_protocol s ! port_id = 0 then None
      else case port_device ready port_id s of
             None \<Rightarrow> None
           | Some dev \<Rightarrow>
               map_option (Pair dev)
                 (if rs_protocol s ! port_id = 2 then ascii_request_frame req else Some req))"

lemma port_device_Some: "port_device ready port_id s = Some dev \<Longrightarrow> rs_dev s ! port_id = Some dev"
  by (auto simp: port_device_def split: option.splits if_splits)

lemma ascii_request_frame_nonempty: "ascii_request_frame req = Some tx \<Longrightarrow> tx \<noteq> []"
  by (auto simp: ascii_request_frame_def ascii_passthrough_def rs232_rtu_to_ascii_frame_def Let_def
      split: if_splits)

lemma rtu_more_loop_length:
  "rtu_more_loop idx deadline max_rx expected inner resp ts s = (Inr out, ts', s') \<Longrightarrow>
     length resp \<le> max 1 max_rx \<Longrightarrow> length out \<le> max 1 max_rx"
  by (induction idx deadline max_rx expected inner resp ts s rule: rtu_more_loop.induct)
    (auto simp: Let_def split: if_splits prod.splits)

lemma rtu_receive_length:
  assumes "rtu_receive idx req cap ts s = (Inr out, ts', s')" "1 \<le> cap"
  shows "2 \<le> length out \<and> length out \<le> min cap RS232_MODBUS_RX_MAX"
proof -
  obtain r1 ts1 s1 where f: "rtu_first_loop idx (deadline_from ts) ts s = (r1, ts1, s1)"
    by (rule prod_cases3)
  note d = assms(1) [unfolded rtu_receive_def Let_def f prod.case]
  then obtain ch where r1: "r1 = Inr (Some ch)"
    by (auto split: sum.splits option.splits prod.splits)
  obtain r2 ts2 s2 where m: "rtu_more_loop idx (deadline_from ts) (min cap RS232_MODBUS_RX_MAX)
      (rs232_modbus_expected_resp_len_from_req req) False [ch] ts1 s1 = (r2, ts2, s2)"
    by (rule prod_cases3)
  from d obtain resp where resp: "r2 = Inr resp" "rtu_finish idx req resp ts2 s2 = (Inr out, ts', s')"
    unfolding r1 sum.case option.case m prod.case by (auto split: sum.splits)
  have "length resp \<le> max 1 (min cap RS232_MODBUS_RX_MAX)"
    using rtu_more_loop_length [OF m [unfolded resp(1)]] by simp
  moreover have "rs232_modbus_align_pass_through req resp = Some out"
    using rtu_finish_keep [OF resp(2)]
    by (auto simp: rs232_modbus_finalize_response_def split: option.splits)
  ultimately show ?thesis using align_slice assms(2) by fastforce
qed

lemma decode_length:
  assumes "rs232_ascii_decode_response ascii cap = Inr rtu"
  shows "2 \<le> length rtu \<and> length rtu \<le> cap"
proof -
  let ?b = "(length ascii - 3) div 2"
  have "\<exists>bin. rtu = take (?b - 1) bin @ crc16_bytes (rs232_crc16 (take (?b - 1) bin)) \<and> ?b - 1 + 2 \<le> cap"
    using assms unfolding rs232_ascii_decode_response_def Let_def
    by (auto split: if_splits option.splits)
  then show ?thesis by (auto simp: crc16_bytes_def)
qed

lemma collect_length:
  "ascii_collect_loop idx deadline rx ts s = (Inr (True, out), ts', s') \<Longrightarrow> 2 \<le> length out"
  by (induction idx deadline rx ts s rule: ascii_collect_loop.induct)
    (auto simp: Let_def split: if_splits prod.splits option.splits)

lemma ascii_receive_length:
  assumes "ascii_receive idx passthrough cap ts s = (Inr out, ts', s')"
  shows "2 \<le> length out \<and> length out \<le> cap"
proof -
  obtain r1 ts1 s1 where c: "ascii_colon_loop idx (deadline_from ts) ts s = (r1, ts1, s1)"
    by (rule prod_cases3)
  obtain r2 ts2 s2 where m: "ascii_collect_loop idx (deadline_from ts) [colon] ts1 s1 = (r2, ts2, s2)"
    by (rule prod_cases3)
  note d = assms [unfolded ascii_receive_def Let_def c prod.case]
  have nf: "fail_drained idx e ts s \<noteq> (Inr out, ts', s')" for e ts s
    by (auto dest: fail_drained_keep)
  from d m nf obtain rx where rx: "r2 = Inr (True, rx)"
    and o: "length rx \<le> cap \<and> out = rx \<or> rs232_ascii_decode_response rx cap = Inr out"
    by (auto split: sum.splits if_splits)
  then show ?thesis using decode_length collect_length [OF m [unfolded rx]] by blast
qed

lemma port_idx_Some:
  "port_id < 2 \<Longrightarrow> rs_dev s ! port_id = Some dev \<Longrightarrow> \<exists>i < 2. rs232_port_idx s dev = Some i"
  by (auto simp: rs232_port_idx_def less_2_cases_iff)

lemma txrx_blocked:
  "txrx_frame ready port_id req s = None \<Longrightarrow>
     \<exists>e. rs232_modbus_txrx ready port_id req cap ts s = (Inl e, ts, s) \<and> e \<in> {EINVAL, ENODEV, ENOTSUP}"
  by (auto simp: txrx_frame_def rs232_modbus_txrx_def rs232_modbus_ascii_txrx_def
      split: if_splits option.splits)

lemma txrx_sent:
  assumes "txrx_frame ready port_id req s = Some (dev, tx)"
    and "rs232_modbus_txrx ready port_id req cap ts s = (res, ts', s')"
  obtains ts1 s1 idx where "rs232_transmit port_id idx tx ts s = (None, ts1, s1)"
    "rs_wire s1 = rs_wire s @ map (Pair dev) tx" "rs_dev s1 = rs_dev s"
    "rs_protocol s1 = rs_protocol s" "rs232_wf s \<longrightarrow> rs232_wf s1" "rs_abort s \<longrightarrow> rs_abort s1"
    "(if rs_protocol s ! port_id = 2 then ascii_receive idx (ascii_passthrough req) cap ts1 s1
      else rtu_receive idx req cap ts1 s1) = (res, ts', s')"
    "idx = the (rs232_port_idx s dev)"
proof -
  from assms(1) have g: "req \<noteq> []" "port_id < 2" "rs_protocol s ! port_id \<noteq> 0"
    and dev: "port_device ready port_id s = Some dev"
    and tx: "(if rs_protocol s ! port_id = 2 then ascii_request_frame req else Some req) = Some tx"
    by (auto simp: txrx_frame_def split: if_splits option.splits)
  let ?idx = "the (rs232_port_idx s dev)"
  obtain r ts1 s1 where t: "rs232_transmit port_id ?idx tx ts s = (r, ts1, s1)" by (rule prod_cases3)
  have "tx \<noteq> []" using tx g(1) ascii_request_frame_nonempty by (auto split: if_splits)
  note e = transmit_effect [OF t g(2) port_device_Some [OF dev] this]
  have "(if rs_protocol s ! port_id = 2 then ascii_receive ?idx (ascii_passthrough req) cap ts1 s1
      else rtu_receive ?idx req cap ts1 s1) = (res, ts', s')"
    using assms(2) g dev tx t e
    by (auto simp: rs232_modbus_txrx_def rs232_modbus_ascii_txrx_def split: if_splits)
  with that t e show thesis by blast
qed

text \<open>The contract, as the client of the port uses it.\<close>

lemma txrx_spec:
  assumes "rs232_modbus_txrx ready port_id req cap ts s = (res, ts', s')"
  shows "(rs232_wf s \<longrightarrow> rs232_wf s') \<and> rs_dev s' = rs_dev s \<and> rs_protocol s' = rs_protocol s \<and>
    (rs_abort s \<longrightarrow> rs_abort s') \<and>
    rs_wire s' = rs_wire s @ (case txrx_frame ready port_id req s of
                                None \<Rightarrow> [] | Some (dev, tx) \<Rightarrow> map (Pair dev) tx) \<and>
    (\<forall>out. res = Inr out \<longrightarrow> 1 \<le> cap \<longrightarrow> 2 \<le> length out \<and> length out \<le> cap)"
proof (cases "txrx_frame ready port_id req s")
  case None
  from txrx_blocked [OF None, of cap ts] assms None show ?thesis by auto
next
  case (Some p)
  then obtain dev tx where sm: "txrx_frame ready port_id req s = Some (dev, tx)" by (cases p) simp
  obtain ts1 s1 idx where t: "rs_wire s1 = rs_wire s @ map (Pair dev) tx" "rs_dev s1 = rs_dev s"
      "rs_protocol s1 = rs_protocol s" "rs232_wf s \<longrightarrow> rs232_wf s1" "rs_abort s \<longrightarrow> rs_abort s1"
    and r: "(if rs_protocol s ! port_id = 2 then ascii_receive idx (ascii_passthrough req) cap ts1 s1
      else rtu_receive idx req cap ts1 s1) = (res, ts', s')"
    by (rule txrx_sent [OF sm assms]) blast
  have "rs_keep s1 s'"
    using r by (auto split: if_splits dest: ascii_receive_keep rtu_receive_keep)
  moreover have "\<forall>out. res = Inr out \<longrightarrow> 1 \<le> cap \<longrightarrow> 2 \<le> length out \<and> length out \<le> cap"
    using r by (auto split: if_splits dest: ascii_receive_length rtu_receive_length)
  ultimately show ?thesis using t sm by (auto simp: rs_keep_def)
qed

lemma first_loop_aborted:
  "rs_abort s \<Longrightarrow> rtu_first_loop idx deadline ts s = (res, ts', s') \<Longrightarrow> res \<in> {Inl ECANCELED, Inr None}"
  by (cases ts) (auto simp: Let_def begin_turn_def split: if_splits prod.splits)

lemma colon_loop_aborted:
  "rs_abort s \<Longrightarrow> ascii_colon_loop idx deadline ts s = (res, ts', s') \<Longrightarrow> res \<in> {Inl ECANCELED, Inr False}"
  by (cases ts) (auto simp: Let_def begin_turn_def split: if_splits prod.splits)

lemma receive_aborted:
  assumes "rs_abort s"
  shows "fst (rtu_receive idx req cap ts s) \<in> {Inl ECANCELED, Inl ETIMEDOUT}"
    and "fst (ascii_receive idx passthrough cap ts s) \<in> {Inl ECANCELED, Inl ETIMEDOUT}"
proof -
  obtain r1 ts1 s1 where f: "rtu_first_loop idx (deadline_from ts) ts s = (r1, ts1, s1)"
    by (rule prod_cases3)
  from first_loop_aborted [OF assms f]
  show "fst (rtu_receive idx req cap ts s) \<in> {Inl ECANCELED, Inl ETIMEDOUT}"
    unfolding rtu_receive_def Let_def f by (auto split: prod.splits)
  obtain r2 ts2 s2 where c: "ascii_colon_loop idx (deadline_from ts) ts s = (r2, ts2, s2)"
    by (rule prod_cases3)
  from colon_loop_aborted [OF assms c]
  show "fst (ascii_receive idx passthrough cap ts s) \<in> {Inl ECANCELED, Inl ETIMEDOUT}"
    unfolding ascii_receive_def Let_def c by (auto simp: fail_drained_def split: prod.splits)
qed

text \<open>C8: A Modbus transaction sends exactly one frame and keeps to its buffer: whatever the
  line does, the UART gets the request (in ASCII mode its ASCII frame) once and complete, or
  nothing at all when a guard stops the transaction; a response that is returned has at least
  2 bytes and never more than the caller's buffer; the receive rings stay consistent, and
  neither the devices nor the protocols change.  An abort requested before the transaction
  always ends it without a response.\<close>

theorem modbus_txrx_contract:
  assumes "rs232_wf s" "1 \<le> cap"
    and "rs232_modbus_txrx ready port_id req cap ts s = (res, ts', s')"
  shows "rs232_wf s' \<and> rs_dev s' = rs_dev s \<and> rs_protocol s' = rs_protocol s \<and>
    rs_wire s' = rs_wire s @ (case txrx_frame ready port_id req s of
                                None \<Rightarrow> [] | Some (dev, tx) \<Rightarrow> map (Pair dev) tx) \<and>
    (case res of Inl e \<Rightarrow> True | Inr out \<Rightarrow> 2 \<le> length out \<and> length out \<le> cap \<and> \<not> rs_abort s)"
proof -
  have "\<not> rs_abort s" if "res = Inr out" for out
  proof
    assume ab: "rs_abort s"
    show False
    proof (cases "txrx_frame ready port_id req s")
      case None
      from txrx_blocked [OF None, of cap ts] assms(3) that show False by auto
    next
      case (Some p)
      then obtain dev tx where sm: "txrx_frame ready port_id req s = Some (dev, tx)" by (cases p) simp
      obtain ts1 s1 idx where "rs_abort s1"
        and r: "(if rs_protocol s ! port_id = 2 then ascii_receive idx (ascii_passthrough req) cap ts1 s1
          else rtu_receive idx req cap ts1 s1) = (res, ts', s')"
        by (rule txrx_sent [OF sm assms(3)]) (use ab in blast)
      from receive_aborted [OF this(1)] r that show False
        by (auto split: if_splits) (metis Inl_Inr_False fst_conv)+
    qed
  qed
  with txrx_spec [OF assms(3)] assms(1,2) show ?thesis by (auto split: sum.split)
qed

theorem modbus_txrx_contract_witness:
  "\<exists>res ts' s'. rs232_modbus_txrx (\<lambda>d. True) 1 [1, 3, 0, 0, 0, 1, 0x84, 0x0A] 256 []
       (rs232_ports_init None (Some 7) rs232_boot) = (res, ts', s') \<and>
     rs232_wf s' \<and> rs_wire s' = map (Pair 7) [1, 3, 0, 0, 0, 1, 0x84, 0x0A]"
proof -
  let ?s = "rs232_ports_init None (Some 7) rs232_boot" and ?req = "[1, 3, 0, 0, 0, 1, 0x84, 0x0A]"
  obtain res ts' s' where t: "rs232_modbus_txrx (\<lambda>d. True) 1 ?req 256 [] ?s = (res, ts', s')"
    by (rule prod_cases3)
  have wf: "rs232_wf ?s" by (simp add: rs232_wf_def rs232_ports_init_def rs232_boot_def)
  have fr: "txrx_frame (\<lambda>d. True) 1 ?req ?s = Some (7, ?req)" "rs_wire ?s = []"
    by (simp_all add: txrx_frame_def port_device_def rs232_ports_init_def rs232_boot_def)
  show ?thesis using modbus_txrx_contract [OF wf _ t] t fr by simp
qed

section \<open>Delivery of a response\<close>

text \<open>What the interrupt handler brings before a turn, and whether the attempts keep up with
  the arrivals: \<open>p\<close> bytes wait, every attempt takes one, and none waits at the end.\<close>

definition turn_bytes :: "rx_turn \<Rightarrow> bytes" where
  "turn_bytes t = concat (takeWhile (\<lambda>c. c \<noteq> []) (t_irq t))"

fun served :: "nat \<Rightarrow> rx_turn list \<Rightarrow> bool" where
  "served p [] \<longleftrightarrow> p = 0"
| "served p (t # ts) \<longleftrightarrow> served (p + length (turn_bytes t) - 1) ts"

text \<open>An undisturbed reception: in time, not aborted, and all bytes come by interrupt.\<close>

definition calm :: "int \<Rightarrow> rx_turn list \<Rightarrow> bool" where
  "calm deadline ts \<longleftrightarrow> (\<forall>t \<in> set ts. t_now t < deadline \<and> t_poll t = None \<and> \<not> t_abort t)"

definition arrivals :: "rx_turn list \<Rightarrow> bytes" where
  "arrivals ts = concat (map turn_bytes ts)"

text \<open>The bytes still to come to the receive loop from a state and a script.\<close>

definition due :: "nat \<Rightarrow> rx_turn list \<Rightarrow> rs232_state \<Rightarrow> bytes \<Rightarrow> bool" where
  "due idx ts s bs \<longleftrightarrow> rs232_wf s \<and> idx < 2 \<and> \<not> rs_abort s \<and> length bs \<le> 511 \<and>
     ring_items (rs_ring s ! idx) @ arrivals ts = bs \<and>
     served (length (ring_items (rs_ring s ! idx))) ts"

lemma due_turn:
  assumes "due idx (t # ts) s bs" "\<not> t_abort t" "t_poll t = None"
    and "rs232_rx_try_byte idx None (begin_turn idx t s) = (c, s')"
  shows "(case c of None \<Rightarrow> due idx ts s' bs | Some b \<Rightarrow> \<exists>bs'. bs = b # bs' \<and> due idx ts s' bs') \<and>
    (c = None \<longrightarrow> ring_items (rs_ring s' ! idx) = [])"
proof -
  let ?r = "rs_ring s ! idx" and ?r1 = "rs232_uart_irq_isr (t_irq t) (rs_ring s ! idx)"
  note d = assms(1) [unfolded due_def]
  have len: "idx < length (rs_ring s)" and wf: "ring_wf ?r"
    using d by (auto simp: rs232_wf_def)
  have bs: "bs = (ring_items ?r @ turn_bytes t) @ arrivals ts" using d by (simp add: arrivals_def)
  have items: "ring_items ?r1 = ring_items ?r @ turn_bytes t"
    using isr_items [OF wf, of "t_irq t"] d bs by (simp add: turn_bytes_def)
  have wf1: "ring_wf ?r1" using wf by simp
  have sv: "served (length (ring_items ?r1) - 1) ts" using d items by simp
  have ring: "rs_ring (begin_turn idx t s) ! idx = ?r1" using len by (simp add: begin_turn_def)
  have ab: "\<not> rs_abort (begin_turn idx t s)" using d assms(2) by (simp add: begin_turn_def)
  have wfs: "rs232_wf s'" using try_turn_keep [OF assms(4)] d by (simp add: rs_keep_def)
  show ?thesis
  proof (cases "rs232_irq_rx_ring_pop ?r1")
    case None
    with assms(4) ring have "c = None" "s' = begin_turn idx t s"
      by (simp_all add: rs232_rx_try_byte_def)
    moreover have "ring_items ?r1 = []" using None ring_pop_None [OF wf1] by simp
    ultimately show ?thesis using d bs items sv ring ab wfs by (simp add: due_def)
  next
    case (Some p)
    then obtain b r2 where p: "rs232_irq_rx_ring_pop ?r1 = Some (b, r2)" by (cases p) simp
    have c: "c = Some b" and s': "s' = (begin_turn idx t s)\<lparr>rs_ring := (rs_ring (begin_turn idx t s))[idx := r2]\<rparr>"
      using assms(4) ring p by (simp_all add: rs232_rx_try_byte_def)
    have r2: "rs_ring s' ! idx = r2" using len by (simp add: s' begin_turn_def)
    have ab': "\<not> rs_abort s'" using ab by (simp add: s')
    from ring_pop_Some [OF wf1 p] have r1: "ring_items ?r1 = b # ring_items r2" by blast
    have "bs = b # (ring_items r2 @ arrivals ts)" using bs r1 items by simp
    moreover from this d have "length (ring_items r2 @ arrivals ts) \<le> 511" by simp
    moreover have "served (length (ring_items r2)) ts" using sv r1 by simp
    ultimately show ?thesis using d r2 ab' wfs c by (simp add: due_def)
  qed
qed

lemma rtu_more_delivers:
  assumes "due idx ts s bs" "calm deadline ts" "length (got @ bs) = e" "0 < e" "e \<le> max_rx"
    and "inner \<or> bs \<noteq> []"
  shows "fst (rtu_more_loop idx deadline max_rx (int e) inner got ts s) = Inr (got @ bs)"
  using assms
proof (induction ts arbitrary: s bs got inner)
  case Nil
  then have "bs = []" by (auto simp: due_def arrivals_def)
  with Nil show ?case by simp
next
  case (Cons t ts)
  from Cons.prems(2) have t: "t_now t < deadline" "t_poll t = None" "\<not> t_abort t"
    and calm: "calm deadline ts"
    by (simp_all add: calm_def)
  obtain c s1 where r: "rs232_rx_try_byte idx None (begin_turn idx t s) = (c, s1)" by fastforce
  note step = due_turn [OF Cons.prems(1) t(3,2) r]
  have guard: "\<not> (\<not> inner \<and> (t_now t \<ge> deadline \<or> length got \<ge> max_rx))"
    using Cons.prems(3-6) t(1) by (cases bs) auto
  show ?case
  proof (cases c)
    case None
    show ?thesis
    proof (cases "bs = []")
      case True
      with None r guard Cons.prems(3,4) t(2) show ?thesis by auto
    next
      case False
      then have l: "length got < e" using Cons.prems(3) by (cases bs) auto
      from step None have d: "due idx ts s1 bs" by simp
      then have "\<not> rs_abort s1" by (simp add: due_def)
      with None r guard l t(2) Cons.IH [OF d calm Cons.prems(3-5)] False Cons.prems(4)
      show ?thesis by simp
    qed
  next
    case (Some b)
    from step Some obtain bs' where bs': "bs = b # bs'" "due idx ts s1 bs'" by auto
    with Cons.prems(3,5) have "length got < max_rx" "length ((got @ [b]) @ bs') = e" by auto
    with Some r guard t(2) Cons.IH [OF bs'(2) calm this(2) Cons.prems(4,5)] bs'(1)
    show ?thesis by simp
  qed
qed

lemma rtu_first_delivers:
  assumes "due idx ts s bs" "calm deadline ts" "bs \<noteq> []"
  shows "\<exists>b bs' ts' s'. rtu_first_loop idx deadline ts s = (Inr (Some b), ts', s') \<and>
           bs = b # bs' \<and> due idx ts' s' bs' \<and> calm deadline ts'"
  using assms
proof (induction ts arbitrary: s)
  case Nil
  then have "bs = []" by (auto simp: due_def arrivals_def)
  with Nil show ?case by simp
next
  case (Cons t ts)
  from Cons.prems(2) have t: "t_now t < deadline" "t_poll t = None" "\<not> t_abort t"
    and calm: "calm deadline ts"
    by (simp_all add: calm_def)
  obtain c s1 where r: "rs232_rx_try_byte idx None (begin_turn idx t s) = (c, s1)" by fastforce
  note step = due_turn [OF Cons.prems(1) t(3,2) r]
  have ab: "\<not> rs_abort (begin_turn idx t s)"
    using Cons.prems(1) t(3) by (simp add: begin_turn_def due_def)
  show ?case
  proof (cases c)
    case None
    with step have "due idx ts s1 bs" by simp
    from Cons.IH [OF this calm Cons.prems(3)] None r t ab show ?thesis by simp
  next
    case (Some b)
    with step r t ab calm show ?thesis by auto
  qed
qed

lemma rtu_receive_delivers:
  assumes "due idx ts s resp" "calm (deadline_from ts) ts" "resp \<noteq> []" "length resp \<le> cap"
    and "rs232_modbus_expected_resp_len_from_req req = int (length resp)" "resp_head req resp 0"
  shows "fst (rtu_receive idx req cap ts s) = Inr resp"
proof -
  let ?e = "length resp" and ?m = "min cap RS232_MODBUS_RX_MAX"
  have e: "0 < ?e" using assms(3) by simp
  have le: "?e \<le> ?m" using expected_len_bounds(2) [of req] assms(4,5) e by simp
  from rtu_first_delivers [OF assms(1-3)] obtain b bs' ts1 s1 where
    f: "rtu_first_loop idx (deadline_from ts) ts s = (Inr (Some b), ts1, s1)"
    and d: "resp = b # bs'" "due idx ts1 s1 bs'" "calm (deadline_from ts) ts1"
    by blast
  have ne: "bs' \<noteq> []" using expected_len_bounds(1) [of req] assms(5) d(1) by auto
  obtain r2 ts2 s2 where m: "rtu_more_loop idx (deadline_from ts) ?m (int ?e) False [b] ts1 s1 = (r2, ts2, s2)"
    by (rule prod_cases3)
  have "r2 = Inr resp"
    using rtu_more_delivers [OF d(2,3) _ e le, of "[b]" False] ne m d(1) by simp
  moreover have "fst (rtu_finish idx req resp ts2 s2) = Inr resp"
    using rtu_finish_keep [of idx req resp ts2 s2] finalize_exact [OF assms(5,3,6)]
    by (cases "rtu_finish idx req resp ts2 s2") simp
  ultimately show ?thesis
    unfolding rtu_receive_def Let_def f prod.case sum.case option.case assms(5) m by simp
qed

text \<open>The transmission leaves an empty ring, whatever was in it.\<close>

lemma hw_poll_drain_ring: "rs232_hw_poll_drain ts s = (ts', s') \<Longrightarrow> rs_ring s' = rs_ring s"
  by (induction ts s rule: rs232_hw_poll_drain.induct)
    (auto simp: begin_turn_irq_off_def split: if_splits)

lemma transmit_ring_empty:
  assumes "rs232_transmit port_id idx tx ts s = (None, ts', s')" "rs232_wf s" "idx < 2"
  shows "ring_items (rs_ring s' ! idx) = []"
proof -
  obtain ts1 s1 where p: "rs232_prepare_tx_bus idx 100 800 ts s = (ts1, s1)" by fastforce
  obtain ts2 s2 where d: "rs232_hw_poll_drain ts1 (ring_reset idx s1) = (ts2, s2)" by fastforce
  have wf1: "rs232_wf s1" using prepare_tx_bus_keep [OF p] assms(2) by (simp add: rs_keep_def)
  have "rs_ring s2 ! idx = rs232_irq_rx_ring_reset (rs_ring s1 ! idx)"
    using hw_poll_drain_ring [OF d] wf1 assms(3) by (simp add: ring_reset_def rs232_wf_def)
  moreover have "rs_ring s' = rs_ring s2"
    using assms(1) unfolding rs232_transmit_def p Let_def prod.case d
    by (auto simp: rs232_send_def split: prod.splits option.splits if_splits dest: hw_poll_drain_ring)
  moreover have "ring_wf (rs_ring s1 ! idx)" using wf1 assms(3) by (simp add: rs232_wf_def)
  ultimately show ?thesis by (simp add: rx.items_reset)
qed

text \<open>C7: A response that reaches the UART reaches the server: in RTU mode, on a configured and
  ready port, if after the transmission (and whatever cleaning up preceded it) the interrupt
  handler brings a response of the predicted length that answers the request, in chunks of
  any sizes and at any times before the deadline, with enough read attempts to take the bytes,
  then the transaction returns exactly that response.\<close>

theorem modbus_txrx_delivers:
  assumes "rs232_wf s" "\<not> rs_abort s1" "port_id < RS232_MAX_PORTS" "rs_protocol s ! port_id = 0x01"
    and "port_device ready port_id s = Some dev"
    and "rs232_transmit port_id (the (rs232_port_idx s dev)) req ts s = (None, ts1, s1)"
    and "calm (deadline_from ts1) ts1" "served 0 ts1" "arrivals ts1 = resp"
    and "rs232_modbus_expected_resp_len_from_req req = int (length resp)" "length resp \<le> cap"
    and "resp ! 0 = req ! 0" "resp ! 1 = req ! 1" "resp \<noteq> []"
  shows "fst (rs232_modbus_txrx ready port_id req cap ts s) = Inr resp"
proof -
  obtain idx where idx: "rs232_port_idx s dev = Some idx" "idx < 2"
    using port_idx_Some [OF assms(3) port_device_Some [OF assms(5)]] by blast
  have req: "req \<noteq> []"
    using assms(10,14) by (auto simp: rs232_modbus_expected_resp_len_from_req_def split: if_splits)
  have tr: "rs232_transmit port_id idx req ts s = (None, ts1, s1)" using assms(6) idx by simp
  have "rs232_wf s1"
    using transmit_effect [OF tr assms(3) port_device_Some [OF assms(5)] req] assms(1) by blast
  then have "due idx ts1 s1 resp"
    using transmit_ring_empty [OF tr assms(1) idx(2)] idx(2) assms(2,8,9,10)
      expected_len_bounds(2) [of req] assms(14)
    by (simp add: due_def)
  from rtu_receive_delivers [OF this assms(7,14,11,10)] assms(12,13)
  have "fst (rtu_receive idx req cap ts1 s1) = Inr resp" by (simp add: resp_head_def)
  then show ?thesis
    using assms(3-5) req tr idx by (simp add: rs232_modbus_txrx_def)
qed

text \<open>A port as it is after the start of the program, and a script of a response that comes
  in two chunks.\<close>

definition sample_port :: rs232_state where
  "sample_port = rs232_ports_init None (Some 7) rs232_boot"

definition sample_turn :: "int \<Rightarrow> bytes list \<Rightarrow> rx_turn" where
  "sample_turn now irq = \<lparr>t_now = now, t_irq = irq, t_poll = None, t_abort = False\<rparr>"

definition sample_reception :: "rx_turn list" where
  "sample_reception =
     [sample_turn 4 [], sample_turn 5 [[1, 3, 2], [0x12]], sample_turn 6 [], sample_turn 9 [[0x34, 0xB5, 0x33]]] @
     map (\<lambda>k. sample_turn (10 + int k) []) [0..<6]"

lemma pop_all_None: "pop q = None \<Longrightarrow> pop_all pop fuel q = ([], q)"
  by (cases fuel) simp_all

lemma sample_transmit:
  "tx \<noteq> [] \<Longrightarrow> rs232_transmit 1 1 tx
     ([sample_turn 1 [], sample_turn 2 [], sample_turn 3 []] @ ts) sample_port =
   (None, ts, sample_port\<lparr>rs_wire := map (Pair 7) tx\<rparr>)"
proof -
  have "rs232_irq_rx_ring_pop ring_init = None"
    by (simp add: rs232_irq_rx_ring_pop_def ring_init_def)
  then have p: "pop_all rs232_irq_rx_ring_pop 511 ring_init = ([], ring_init)"
    by (rule pop_all_None)
  have r: "rs232_irq_rx_ring_reset ring_init = ring_init"
    by (simp add: rs232_irq_rx_ring_reset_def ring_init_def)
  show "tx \<noteq> [] \<Longrightarrow> ?thesis"
    by (simp add: rs232_transmit_def rs232_prepare_tx_bus_def p r ring_reset_def rs232_send_def
        begin_turn_irq_off_def sample_turn_def sample_port_def rs232_ports_init_def rs232_boot_def)
qed

theorem modbus_txrx_delivers_witness:
  "fst (rs232_modbus_txrx (\<lambda>d. True) 1 [1, 3, 0, 0, 0, 1, 0x84, 0x0A] 256
     ([sample_turn 1 [], sample_turn 2 [], sample_turn 3 []] @ sample_reception) sample_port) =
   Inr [1, 3, 2, 0x12, 0x34, 0xB5, 0x33]"
proof (rule modbus_txrx_delivers)
  let ?req = "[1, 3, 0, 0, 0, 1, 0x84, 0x0A] :: bytes"
  show "rs232_wf sample_port"
    by (simp add: rs232_wf_def sample_port_def rs232_ports_init_def rs232_boot_def)
  show "rs_protocol sample_port ! 1 = 0x01" "port_device (\<lambda>d. True) 1 sample_port = Some 7"
    by (simp_all add: sample_port_def rs232_ports_init_def rs232_boot_def port_device_def)
  have i: "the (rs232_port_idx sample_port 7) = 1"
    by (simp add: rs232_port_idx_def sample_port_def rs232_ports_init_def rs232_boot_def)
  show "rs232_transmit 1 (the (rs232_port_idx sample_port 7)) ?req
      ([sample_turn 1 [], sample_turn 2 [], sample_turn 3 []] @ sample_reception) sample_port =
    (None, sample_reception, sample_port\<lparr>rs_wire := map (Pair 7) ?req\<rparr>)"
    unfolding i by (rule sample_transmit) simp
  show "\<not> rs_abort (sample_port\<lparr>rs_wire := map (Pair 7) ?req\<rparr>)"
    by (simp add: sample_port_def rs232_ports_init_def rs232_boot_def)
  show "calm (deadline_from sample_reception) sample_reception"
    by (auto simp: calm_def deadline_from_def sample_reception_def sample_turn_def)
  show "served 0 sample_reception"
    by (simp add: sample_reception_def sample_turn_def turn_bytes_def upt_rec)
  show "arrivals sample_reception = [1, 3, 2, 0x12, 0x34, 0xB5, 0x33]"
    by (simp add: arrivals_def sample_reception_def sample_turn_def turn_bytes_def upt_rec)
  show "rs232_modbus_expected_resp_len_from_req ?req =
      int (length ([1, 3, 2, 0x12, 0x34, 0xB5, 0x33] :: bytes))"
    by (simp add: rs232_modbus_expected_resp_len_from_req_def sys_get_be16_def)
qed simp_all

section \<open>Reconfiguration\<close>

lemma uart_config_Some:
  "rs232_uart_config cfg \<noteq> None \<longleftrightarrow>
     unat (rc_bps cfg) \<le> 1 \<and> unat (rc_data_bit cfg) \<le> 1 \<and> unat (rc_stop_bit cfg) \<le> 1 \<and>
     unat (rc_parity cfg) \<le> 2 \<and> unat (rc_flow cfg) \<le> 1"
proof -
  have b: "unat w \<le> 1 \<longleftrightarrow> w = 0 \<or> w = 1" "unat w \<le> 2 \<longleftrightarrow> w = 0 \<or> w = 1 \<or> w = 2" for w :: u8
    by (auto simp: word_unat_eq_iff)
  show ?thesis unfolding b rs232_uart_config_def Let_def by (simp split: if_splits)
qed

text \<open>An attempt that gets as far as \<open>uart_configure\<close>.\<close>

definition attempt_runs :: "bool \<Rightarrow> (nat \<Rightarrow> reconf_attempt) \<Rightarrow> nat \<Rightarrow> bool" where
  "attempt_runs aborted env k \<longleftrightarrow>
     \<not> aborted \<and> \<not> ra_abort (env k) \<and> (k > 1 \<longrightarrow> True \<notin> set (ra_wait (env k)))"

lemma reconf_loop_iff:
  "fst (reconf_loop aborted n dev ucfg a env) \<longleftrightarrow>
     (\<exists>k. a \<le> k \<and> k < a + n \<and> ra_result (env k) dev ucfg = 0 \<and>
        (\<forall>j. a \<le> j \<and> j \<le> k \<longrightarrow> attempt_runs aborted env j))"
proof (induction n arbitrary: a)
  case 0
  then show ?case by simp
next
  case (Suc n)
  have run: "attempt_runs aborted env a \<longleftrightarrow>
      \<not> (a > 1 \<and> (\<exists>r \<in> set (ra_wait (env a)). aborted \<or> r)) \<and> \<not> (aborted \<or> ra_abort (env a))"
    by (auto simp: attempt_runs_def)
  show ?case
  proof (cases "attempt_runs aborted env a")
    case False
    with run have "\<not> fst (reconf_loop aborted (Suc n) dev ucfg a env)" by auto
    then show ?thesis using False by auto
  next
    case True
    with run have step: "fst (reconf_loop aborted (Suc n) dev ucfg a env) \<longleftrightarrow>
        ra_result (env a) dev ucfg = 0 \<or> fst (reconf_loop aborted n dev ucfg (a + 1) env)"
      by auto
    show ?thesis
    proof
      assume "fst (reconf_loop aborted (Suc n) dev ucfg a env)"
      then consider "ra_result (env a) dev ucfg = 0" | k where "a + 1 \<le> k" "k < a + 1 + n"
          "ra_result (env k) dev ucfg = 0" "\<forall>j. a + 1 \<le> j \<and> j \<le> k \<longrightarrow> attempt_runs aborted env j"
        unfolding step Suc.IH by blast
      then show "\<exists>k. a \<le> k \<and> k < a + Suc n \<and> ra_result (env k) dev ucfg = 0 \<and>
          (\<forall>j. a \<le> j \<and> j \<le> k \<longrightarrow> attempt_runs aborted env j)"
      proof cases
        case 1
        with True show ?thesis by (intro exI [of _ a]) auto
      next
        case (2 k)
        have "attempt_runs aborted env j" if "a \<le> j" "j \<le> k" for j
          using that True 2(4) by (cases "j = a") auto
        with 2 show ?thesis by (intro exI [of _ k]) auto
      qed
    next
      assume "\<exists>k. a \<le> k \<and> k < a + Suc n \<and> ra_result (env k) dev ucfg = 0 \<and>
          (\<forall>j. a \<le> j \<and> j \<le> k \<longrightarrow> attempt_runs aborted env j)"
      then obtain k where k: "a \<le> k" "k < a + Suc n" "ra_result (env k) dev ucfg = 0"
        "\<forall>j. a \<le> j \<and> j \<le> k \<longrightarrow> attempt_runs aborted env j"
        by blast
      show "fst (reconf_loop aborted (Suc n) dev ucfg a env)"
      proof (cases "k = a")
        case True
        with k step show ?thesis by blast
      next
        case False
        with k have "fst (reconf_loop aborted n dev ucfg (a + 1) env)"
          unfolding Suc.IH by (intro exI [of _ k]) auto
        with step show ?thesis by blast
      qed
    qed
  qed
qed

text \<open>An abort that was seen stays requested.\<close>

lemma reconf_loop_flag:
  "snd (reconf_loop aborted n dev ucfg a env) \<longleftrightarrow>
     aborted \<or> (\<not> fst (reconf_loop aborted n dev ucfg a env) \<and>
       (\<exists>j. a \<le> j \<and> j < a + n \<and> \<not> attempt_runs aborted env j))"
proof (induction n arbitrary: a)
  case (Suc n)
  have run: "attempt_runs aborted env a \<longleftrightarrow>
      \<not> (a > 1 \<and> (\<exists>r \<in> set (ra_wait (env a)). aborted \<or> r)) \<and> \<not> (aborted \<or> ra_abort (env a))"
    by (auto simp: attempt_runs_def)
  show ?case
  proof (cases "attempt_runs aborted env a")
    case False
    with run have "reconf_loop aborted (Suc n) dev ucfg a env = (False, True)" by auto
    with False show ?thesis by auto
  next
    case True
    have range: "a \<le> j \<and> j < a + Suc n \<and> P \<longleftrightarrow> (j = a \<and> P) \<or> (a + 1 \<le> j \<and> j < a + 1 + n \<and> P)" for j P
      by auto
    have tail: "(\<exists>j. a \<le> j \<and> j < a + Suc n \<and> \<not> attempt_runs aborted env j) \<longleftrightarrow>
        (\<exists>j. a + 1 \<le> j \<and> j < a + 1 + n \<and> \<not> attempt_runs aborted env j)"
      unfolding range using True by blast
    have "reconf_loop aborted (Suc n) dev ucfg a env =
        (if ra_result (env a) dev ucfg = 0 then (True, aborted) else reconf_loop aborted n dev ucfg (a + 1) env)"
      using True run by auto
    with Suc.IH [of "a + 1"] show ?thesis unfolding tail by auto
  qed
qed auto

text \<open>Reconfiguration of a serial port succeeds exactly when the port has a device, every
  field of the settings has a known code, and one of the first three calls of
  \<open>uart_configure\<close> succeeds before any abort is seen; then the port runs the new protocol with
  an empty receive ring.  Otherwise nothing changes, except that an abort that was seen stays
  requested.\<close>

theorem reconfigure_iff:
  assumes "rs232_wf s" "port_id < RS232_MAX_PORTS" "rs_dev s ! port_id = Some dev"
  shows "rs232_reconfigure env port_id (Some cfg) s =
    (if rs232_uart_config cfg \<noteq> None \<and>
        (\<exists>k. 1 \<le> k \<and> k \<le> 3 \<and> ra_result (env k) dev (the (rs232_uart_config cfg)) = 0 \<and>
           (\<forall>j. 1 \<le> j \<and> j \<le> k \<longrightarrow> attempt_runs (rs_abort s) env j))
     then (True, s\<lparr>rs_ring := (rs_ring s)[port_id := rs232_irq_rx_ring_reset (rs_ring s ! port_id)],
                   rs_protocol := (rs_protocol s)[port_id := rc_protocol cfg]\<rparr>)
     else (False, s\<lparr>rs_abort := rs_abort s \<or> (rs232_uart_config cfg \<noteq> None \<and>
             (\<exists>j. 1 \<le> j \<and> j \<le> 3 \<and> \<not> attempt_runs (rs_abort s) env j))\<rparr>)) \<and>
    ring_items (rs232_irq_rx_ring_reset (rs_ring s ! port_id)) = [] \<and>
    (rs232_uart_config cfg \<noteq> None \<longleftrightarrow>
       unat (rc_bps cfg) \<le> 1 \<and> unat (rc_data_bit cfg) \<le> 1 \<and> unat (rc_stop_bit cfg) \<le> 1 \<and>
       unat (rc_parity cfg) \<le> 2 \<and> unat (rc_flow cfg) \<le> 1)"
proof -
  let ?C = "rs232_uart_config cfg" and ?ab = "rs_abort s"
  have le: "j < 1 + 3 \<longleftrightarrow> j \<le> 3" for j :: nat by auto
  have fst: "fst (reconf_loop ?ab 3 dev ucfg 1 env) \<longleftrightarrow>
      (\<exists>k. 1 \<le> k \<and> k \<le> 3 \<and> ra_result (env k) dev ucfg = 0 \<and>
        (\<forall>j. 1 \<le> j \<and> j \<le> k \<longrightarrow> attempt_runs ?ab env j))" for ucfg
    unfolding reconf_loop_iff le ..
  have snd: "snd (reconf_loop ?ab 3 dev ucfg 1 env) =
      (?ab \<or> (\<not> fst (reconf_loop ?ab 3 dev ucfg 1 env) \<and>
        (\<exists>j. 1 \<le> j \<and> j \<le> 3 \<and> \<not> attempt_runs ?ab env j)))" for ucfg
    unfolding reconf_loop_flag [of ?ab 3] le ..
  have ring: "ring_wf (rs_ring s ! port_id)" using assms(1,2) by (simp add: rs232_wf_def)
  show ?thesis
  proof (cases ?C)
    case None
    then show ?thesis
      unfolding uart_config_Some [symmetric] using assms(2,3) ring
      by (simp add: rs232_reconfigure_def rx.items_reset)
  next
    case (Some ucfg)
    obtain ok ab where r: "reconf_loop ?ab 3 dev ucfg 1 env = (ok, ab)" by fastforce
    have ab: "ab = (?ab \<or> (\<not> ok \<and> (\<exists>j. 1 \<le> j \<and> j \<le> 3 \<and> \<not> attempt_runs ?ab env j)))"
      using snd [of ucfg] r by simp
    have "?ab \<Longrightarrow> \<not> ok" using fst [of ucfg] r by (auto simp: attempt_runs_def)
    then have "ok \<Longrightarrow> s\<lparr>rs_abort := ab\<rparr> = s" using ab by auto
    moreover have "rs232_reconfigure env port_id (Some cfg) s =
        (if ok then (True, s\<lparr>rs_abort := ab\<rparr>\<lparr>rs_ring := (rs_ring s)[port_id := rs232_irq_rx_ring_reset (rs_ring s ! port_id)],
                   rs_protocol := (rs_protocol s)[port_id := rc_protocol cfg]\<rparr>)
         else (False, s\<lparr>rs_abort := ab\<rparr>))"
      using assms(2,3) Some r by (simp add: rs232_reconfigure_def)
    ultimately show ?thesis
      unfolding uart_config_Some [symmetric] using Some ring ab fst [of ucfg] r
      by (cases ok) (simp_all add: rx.items_reset)
  qed
qed

theorem reconfigure_iff_witness:
  "rs232_reconfigure (\<lambda>k. \<lparr>ra_wait = [False], ra_abort = False,
       ra_result = (\<lambda>dev ucfg. if k = 2 then 0 else - 5)\<rparr>) 1
     (Some \<lparr>rc_protocol = 2, rc_bps = 0, rc_data_bit = 1, rc_stop_bit = 0, rc_parity = 2, rc_flow = 0\<rparr>)
     sample_port =
   (True, sample_port\<lparr>rs_protocol := [1, 2]\<rparr>)"
proof -
  let ?env = "\<lambda>k :: nat. \<lparr>ra_wait = [False], ra_abort = False,
       ra_result = (\<lambda>dev ucfg. if k = 2 then 0 else - 5 :: int)\<rparr> :: reconf_attempt"
  let ?cfg = "\<lparr>rc_protocol = 2, rc_bps = 0, rc_data_bit = 1, rc_stop_bit = 0, rc_parity = 2, rc_flow = 0\<rparr>"
  have wf: "rs232_wf sample_port" "rs_dev sample_port ! 1 = Some 7" "\<not> rs_abort sample_port"
    "rs_ring sample_port = [ring_init, ring_init]" "rs_protocol sample_port = [1, 1]"
    by (simp_all add: rs232_wf_def sample_port_def rs232_ports_init_def rs232_boot_def)
  have r: "rs232_irq_rx_ring_reset ring_init = ring_init"
    by (simp add: rs232_irq_rx_ring_reset_def ring_init_def)
  have same: "sample_port\<lparr>rs_ring := [ring_init, ring_init], rs_protocol := p\<rparr> = sample_port\<lparr>rs_protocol := p\<rparr>" for p
    by (simp add: sample_port_def rs232_ports_init_def rs232_boot_def)
  have ok: "rs232_uart_config ?cfg \<noteq> None" by (simp add: rs232_uart_config_def)
  have "\<exists>k. 1 \<le> k \<and> k \<le> 3 \<and> ra_result (?env k) 7 (the (rs232_uart_config ?cfg)) = 0 \<and>
      (\<forall>j. 1 \<le> j \<and> j \<le> k \<longrightarrow> attempt_runs (rs_abort sample_port) ?env j)"
    by (intro exI [of _ 2]) (simp add: attempt_runs_def wf(3))
  with reconfigure_iff [OF wf(1) _ wf(2), of ?env ?cfg] ok
  show ?thesis by (simp add: wf(4,5) r same)
qed

lemma reconfigure_wf:
  assumes "rs232_wf s" "rs232_reconfigure env port_id cfgp s = (ok, s')"
  shows "rs232_wf s' \<and> rs_dev s' = rs_dev s \<and> rs_wire s' = rs_wire s \<and> (rs_abort s \<longrightarrow> rs_abort s')"
proof -
  let ?ring = "(rs_ring s)[port_id := rs232_irq_rx_ring_reset (rs_ring s ! port_id)]"
  let ?s1 = "\<lambda>ab. s\<lparr>rs_abort := ab, rs_ring := ?ring, rs_protocol := (rs_protocol s)[port_id := rc_protocol (the cfgp)]\<rparr>"
  have flag: "rs_abort s \<Longrightarrow> snd (reconf_loop (rs_abort s) n dev ucfg a env)" for n dev ucfg a
    unfolding reconf_loop_flag by simp
  have "\<exists>ab. (rs_abort s \<longrightarrow> ab) \<and> (s' = s\<lparr>rs_abort := ab\<rparr> \<or> (port_id < 2 \<and> s' = ?s1 ab))"
  proof (cases "\<exists>cfg dev ucfg. cfgp = Some cfg \<and> port_id < 2 \<and> rs_dev s ! port_id = Some dev \<and>
      rs232_uart_config cfg = Some ucfg")
    case True
    then obtain cfg dev ucfg where c: "cfgp = Some cfg" "port_id < 2" "rs_dev s ! port_id = Some dev"
      "rs232_uart_config cfg = Some ucfg"
      by blast
    obtain r ab where "reconf_loop (rs_abort s) 3 dev ucfg 1 env = (r, ab)" by fastforce
    with assms(2) c flag [of 3 dev ucfg 1] show ?thesis
      by (intro exI [of _ ab]) (auto simp: rs232_reconfigure_def split: if_splits)
  next
    case False
    with assms(2) have "s' = s" by (auto simp: rs232_reconfigure_def split: option.splits if_splits)
    then show ?thesis by (intro exI [of _ "rs_abort s"]) simp
  qed
  then obtain ab where ab: "rs_abort s \<longrightarrow> ab" "s' = s\<lparr>rs_abort := ab\<rparr> \<or> (port_id < 2 \<and> s' = ?s1 ab)"
    by blast
  have "rs232_wf (?s1 ab)" if "port_id < 2"
  proof -
    have "ring_wf (rs_ring s ! port_id)" using assms(1) that by (simp add: rs232_wf_def)
    then have "ring_wf (rs232_irq_rx_ring_reset (rs_ring s ! port_id))" by (rule rx.inv_reset)
    with assms(1) show ?thesis
      by (auto simp: rs232_wf_def dest: subsetD [OF set_update_subset_insert])
  qed
  moreover have "rs232_wf (s\<lparr>rs_abort := ab\<rparr>)" using assms(1) by (simp add: rs232_wf_def)
  ultimately show ?thesis using ab by auto
qed

end
