(* ===== verification/Tcp_Gateway.thy ===== *)
theory Tcp_Gateway
  imports Tcp_Frame Sync_Gate Rs232
begin

text \<open>
  \<^verbatim>\<open>src/tcp_gateway.c\<close>: the TCP client that bridges the server's Modbus requests to the
  serial port: the handshake (CONNECT until a SYNC arrives), the session (requests, replies,
  alarms, SYNC again), and the error latch, clock, gate and serial port they use.

  The state of the gateway is explicit.  The platform is a record of functions: what
  \<open>zsock_send\<close> returns, the uptime, what the serial line does during a transaction, and so
  on, each indexed by the number of platform calls made so far (\<open>gw_tick\<close>).  What the socket
  delivers is a list of events, one for each \<open>zsock_poll\<close> and the \<open>zsock_recv\<close> after it;
  the endless loops of the code run along that list.
\<close>

section \<open>State and platform\<close>

abbreviation (input) GW_RS232_DATA_PORT :: nat where "GW_RS232_DATA_PORT \<equiv> 1"
abbreviation (input) HANDSHAKE_POLL_MS :: int where "HANDSHAKE_POLL_MS \<equiv> 2000"

record gw_state =
  gw_err :: u8
  gw_gate :: sync_gate
  gw_port :: rs232_state
  gw_sent :: bytes
  gw_tick :: nat

text \<open>\<open>e_send tick n\<close> is the result of \<open>zsock_send\<close> for \<open>n\<close> bytes; \<open>e_line\<close> is the
  script of the serial line, \<open>e_reconf\<close> what the attempts of a reconfiguration meet.\<close>

record gw_env =
  e_timegm :: "tm \<Rightarrow> int"
  e_uptime :: "nat \<Rightarrow> int"
  e_send :: "nat \<Rightarrow> nat \<Rightarrow> int"
  e_line :: "nat \<Rightarrow> rx_turn list"
  e_reconf :: "nat \<Rightarrow> nat \<Rightarrow> reconf_attempt"
  e_ready :: "device \<Rightarrow> bool"

definition gw_wf :: "gw_state \<Rightarrow> bool" where
  "gw_wf st \<longleftrightarrow> err_wf (gw_err st) \<and> gate_wf (gw_gate st) \<and> rs232_wf (gw_port st)"

section \<open>Sending\<close>

text \<open>\<open>rest\<close> is what is not sent yet; the result is \<open>True\<close> for \<open>0\<close> and \<open>False\<close> for \<open>-1\<close>.\<close>

function gw_send_all :: "gw_env \<Rightarrow> bytes \<Rightarrow> gw_state \<Rightarrow> bool \<times> gw_state" where
  "gw_send_all env rest st =
     (if rest = [] then (True, st)
      else
        let r = e_send env (gw_tick st) (length rest);
            st1 = st\<lparr>gw_tick := gw_tick st + 1\<rparr>
        in if r < 0 then (False, st1)
           else if r = 0 then (False, st1)
           else gw_send_all env (drop (nat r) rest) (st1\<lparr>gw_sent := gw_sent st1 @ take (nat r) rest\<rparr>))"
  by pat_completeness auto
termination
  by (relation "measure (\<lambda>(env, rest, st). length rest)") auto

declare gw_send_all.simps [simp del]

definition gw_tcp_send_alarm :: "gw_env \<Rightarrow> u8 \<Rightarrow> u8 \<Rightarrow> gw_state \<Rightarrow> bool \<times> gw_state" where
  "gw_tcp_send_alarm env seq code st =
     (if code = GW_ERR_NONE then (True, st)
      else case gw_build_compact_tx GW_TX_FRAME_SIZE GW_MSG_ALARM seq [code] of
             Inl e \<Rightarrow> (False, st)
           | Inr frame \<Rightarrow> gw_send_all env frame st)"

definition gw_report_error :: "gw_env \<Rightarrow> u8 \<Rightarrow> u8 \<Rightarrow> gw_state \<Rightarrow> gw_state" where
  "gw_report_error env seq code st =
     snd (gw_tcp_send_alarm env seq code (st\<lparr>gw_err := gw_error_set code (gw_err st)\<rparr>))"

section \<open>SYNC\<close>

text \<open>The settings the SYNC body carries, with the protocol the gateway fills in.\<close>

definition sync_remote_cfg :: "bytes \<Rightarrow> rs232_remote_cfg" where
  "sync_remote_cfg body =
     \<lparr>rc_protocol = 0x01, rc_bps = body ! 9, rc_data_bit = body ! 10, rc_stop_bit = body ! 11,
      rc_parity = body ! 12, rc_flow = body ! 13\<rparr>"

text \<open>The reply, whose send result is only logged.\<close>

definition gw_send_ack :: "gw_env \<Rightarrow> u8 \<Rightarrow> u8 \<Rightarrow> gw_state \<Rightarrow> gw_state" where
  "gw_send_ack env seq resp_byte st =
     (case gw_build_compact_tx GW_TX_FRAME_SIZE GW_MSG_ACK seq [resp_byte] of
        Inl e \<Rightarrow> st
      | Inr frame \<Rightarrow> snd (gw_send_all env frame st))"

definition gw_apply_sync_and_rs232 :: "gw_env \<Rightarrow> bytes option \<Rightarrow> u8 \<Rightarrow> gw_state \<Rightarrow> gw_state" where
  "gw_apply_sync_and_rs232 env bodyp seq st =
     (case bodyp of
        None \<Rightarrow> gw_send_ack env seq 0x01 (gw_report_error env seq GW_ERR_INIT_CFG st)
      | Some body \<Rightarrow>
          if length body \<noteq> GW_SYNC_PAYLOAD_LEN
          then gw_send_ack env seq 0x01 (gw_report_error env seq GW_ERR_INIT_CFG st)
          else
            let chk = gw_sync_body_check (e_timegm env) (Some body)
            in if chk \<noteq> GW_ERR_NONE
               then gw_send_ack env seq 0x01 (gw_report_error env seq chk st)
               else
                 let st1 = st\<lparr>gw_gate := sg_timesync_from_tcp_notify (e_timegm env)
                                (e_uptime env (gw_tick st)) (Some (take 9 body)) (gw_gate st),
                              gw_tick := gw_tick st + 1\<rparr>;
                     (ok, port) = rs232_reconfigure (e_reconf env (gw_tick st1)) GW_RS232_DATA_PORT
                                    (Some (sync_remote_cfg body)) (gw_port st1);
                     st2 = st1\<lparr>gw_port := port, gw_tick := gw_tick st1 + 1\<rparr>
                 in if \<not> ok then gw_send_ack env seq 0x01 (gw_report_error env seq GW_ERR_INIT_CFG st2)
                    else gw_send_ack env seq 0x00 (st2\<lparr>gw_err := gw_error_clear (gw_err st2)\<rparr>))"

section \<open>Modbus requests\<close>

definition gw_build_response82_tx :: "gw_env \<Rightarrow> u8 \<Rightarrow> bytes \<Rightarrow> gw_state \<Rightarrow> errno + bytes" where
  "gw_build_response82_tx env seq rs_resp st =
     (if length rs_resp > GW_BODY_CAP then Inl EINVAL
      else
        let body_len = 9 + length rs_resp; need = 5 + body_len + 1
        in if GW_TX_FRAME_SIZE < need then Inl ENOMEM
           else Inr ([GW_STX] @ sys_put_be16 (word_of_nat body_len) @ [GW_MSG_MODBUS_RESP, seq] @
                     time_encode_now_9 (e_uptime env (gw_tick st)) (sg_clock (gw_gate st)) @
                     rs_resp @ [GW_ETX]))"

text \<open>One transaction on the data port, with the response buffer of 256 bytes.\<close>

definition gw_txrx :: "gw_env \<Rightarrow> bytes \<Rightarrow> gw_state \<Rightarrow> (errno + bytes) \<times> gw_state" where
  "gw_txrx env body st =
     (let (res, ts, port) = rs232_modbus_txrx (e_ready env) GW_RS232_DATA_PORT body GW_BODY_CAP
                              (e_line env (gw_tick st)) (gw_port st)
      in (res, st\<lparr>gw_port := port, gw_tick := gw_tick st + 1\<rparr>))"

text \<open>The retry loop: up to \<open>left\<close> more attempts, the last result so far, and what is done on
  success.\<close>

primrec modbus_retry ::
    "('s \<Rightarrow> (errno + bytes) \<times> 's) \<Rightarrow> ('s \<Rightarrow> 's) \<Rightarrow> nat \<Rightarrow> errno + bytes \<Rightarrow> 's \<Rightarrow> (errno + bytes) \<times> 's" where
  "modbus_retry txrx ok 0 mbr st = (mbr, st)"
| "modbus_retry txrx ok (Suc left) mbr st =
     (case txrx st of
        (Inr resp, st1) \<Rightarrow>
          if length resp > 0 then (Inr resp, ok st1) else modbus_retry txrx ok left (Inr resp) st1
      | (Inl e, st1) \<Rightarrow> modbus_retry txrx ok left (Inl e) st1)"

definition gw_clear_no_response :: "gw_state \<Rightarrow> gw_state" where
  "gw_clear_no_response st =
     (if gw_error_get (gw_err st) = GW_ERR_RS232_NO_RESPONSE
      then st\<lparr>gw_err := gw_error_clear (gw_err st)\<rparr> else st)"

definition gw_modbus_request :: "gw_env \<Rightarrow> bytes \<Rightarrow> u8 \<Rightarrow> gw_state \<Rightarrow> gw_state" where
  "gw_modbus_request env body seq st =
     (case modbus_retry (gw_txrx env body) gw_clear_no_response GW_RS232_MODBUS_RETRIES
             (Inl ETIMEDOUT) st of
        (Inl e, st1) \<Rightarrow> gw_report_error env seq GW_ERR_RS232_NO_RESPONSE st1
      | (Inr resp, st1) \<Rightarrow>
          if resp = [] then gw_report_error env seq GW_ERR_RS232_NO_RESPONSE st1
          else
            case gw_build_response82_tx env seq resp st1 of
              Inl e \<Rightarrow> st1
            | Inr frame \<Rightarrow> snd (gw_send_all env frame (st1\<lparr>gw_tick := gw_tick st1 + 1\<rparr>)))"

section \<open>The frame loops\<close>

text \<open>A complete frame of the handshake: whether it was a SYNC, and the new state.\<close>

definition hs_handle :: "gw_env \<Rightarrow> bytes \<Rightarrow> nat \<Rightarrow> gw_state \<Rightarrow> bool \<times> gw_state" where
  "hs_handle env frame bl st =
     (let msg_type = frame ! 1; seq = frame ! 2;
          body = (if bl > 0 then Some (take bl (drop GW_SRV_RX_HDR3_LEN frame)) else None)
      in if msg_type = GW_MSG_SYNC then (True, gw_apply_sync_and_rs232 env body seq st)
         else (False, st))"

function gw_process_frames_handshake ::
    "gw_env \<Rightarrow> bool \<Rightarrow> bytes \<Rightarrow> gw_state \<Rightarrow> bool \<times> bytes \<times> gw_state" where
  "gw_process_frames_handshake env got_sync rbuf st =
     (if length rbuf < GW_SRV_RX_HDR3_LEN then (got_sync, rbuf, st)
      else
        let b = to_stx rbuf
        in if length b < GW_SRV_RX_HDR3_LEN then (got_sync, b, st)
           else case gw_srv_rx_frame_info b of
                  Bad why \<Rightarrow> gw_process_frames_handshake env got_sync (drop 1 b) st
                | Short \<Rightarrow> (got_sync, b, st)
                | Frame need bl \<Rightarrow>
                    if length b < need then (got_sync, b, st)
                    else let (sync, st1) = hs_handle env b bl st
                         in gw_process_frames_handshake env (got_sync \<or> sync) (drop need b) st1)"
  by pat_completeness auto
termination
proof (relation "measure (\<lambda>(env, g, rbuf, st). length rbuf)")
  fix env :: gw_env and g s :: bool and rbuf b :: bytes and st st1 :: gw_state and why need bl :: nat
    and x :: "bool \<times> gw_state"
  assume a: "\<not> length rbuf < 3" "b = to_stx rbuf" "\<not> length b < 3"
  show "((env, g, drop 1 b, st), env, g, rbuf, st) \<in> measure (\<lambda>(env, g, rbuf, st). length rbuf)"
    using a length_to_stx [of rbuf] by auto
  assume f: "gw_srv_rx_frame_info b = Frame need bl"
  show "((env, g \<or> s, drop need b, st1), env, g, rbuf, st) \<in> measure (\<lambda>(env, g, rbuf, st). length rbuf)"
    using a length_to_stx [of rbuf] hs.frame_len [OF f] by auto
qed simp

declare gw_process_frames_handshake.simps [simp del]

text \<open>A complete frame of the session.\<close>

definition sess_handle :: "gw_env \<Rightarrow> bytes \<Rightarrow> nat \<Rightarrow> gw_state \<Rightarrow> gw_state" where
  "sess_handle env frame bl st =
     (let msg_type = frame ! 3; seq = frame ! 4;
          body = (if bl > 0 then Some (take bl (drop GW_SRV_SESS_RX_HDR_LEN frame)) else None)
      in if msg_type = GW_MSG_SYNC then gw_apply_sync_and_rs232 env body seq st
         else if msg_type \<noteq> GW_MSG_MODBUS_REQ then st
         else case body of
                None \<Rightarrow> st
              | Some req \<Rightarrow> gw_modbus_request env req seq st)"

function gw_session_frames :: "gw_env \<Rightarrow> bytes \<Rightarrow> gw_state \<Rightarrow> bytes \<times> gw_state" where
  "gw_session_frames env rbuf st =
     (if length rbuf < GW_SRV_SESS_RX_HDR_LEN + GW_SRV_SESS_RX_TAIL_LEN then (rbuf, st)
      else
        let b = to_stx rbuf
        in if length b < GW_SRV_SESS_RX_HDR_LEN + GW_SRV_SESS_RX_TAIL_LEN then (b, st)
           else case gw_srv_sess_rx_frame_info b of
                  Bad why \<Rightarrow> gw_session_frames env (drop 1 b) st
                | Short \<Rightarrow> (b, st)
                | Frame need bl \<Rightarrow>
                    if length b < need then (b, st)
                    else gw_session_frames env (drop need b) (sess_handle env b bl st))"
  by pat_completeness auto
termination
proof (relation "measure (\<lambda>(env, rbuf, st). length rbuf)")
  fix env :: gw_env and rbuf b :: bytes and st :: gw_state and why need bl :: nat
  assume a: "\<not> length rbuf < 5 + 1" "b = to_stx rbuf" "\<not> length b < 5 + 1"
  show "((env, drop 1 b, st), env, rbuf, st) \<in> measure (\<lambda>(env, rbuf, st). length rbuf)"
    using a length_to_stx [of rbuf] by auto
  assume f: "gw_srv_sess_rx_frame_info b = Frame need bl"
  show "((env, drop need b, sess_handle env b bl st), env, rbuf, st)
      \<in> measure (\<lambda>(env, rbuf, st). length rbuf)"
    using a length_to_stx [of rbuf] sess.frame_len [OF f] by auto
qed simp

declare gw_session_frames.simps [simp del]

section \<open>The socket loops\<close>

text \<open>What \<open>zsock_poll\<close> reports, and what the \<open>zsock_recv\<close> after it returns: \<open>Recv data\<close>
  stands for the data waiting in the socket, of which one call takes what fits into the
  buffer, and \<open>Recv []\<close> for the end of the stream.\<close>

datatype sock_event =
    PollError | PollTimeout | PeerGone | PollOther | RecvError | Recv bytes

primrec event_weight :: "sock_event \<Rightarrow> nat" where
  "event_weight PollError = 1"
| "event_weight PollTimeout = 1"
| "event_weight PeerGone = 1"
| "event_weight PollOther = 1"
| "event_weight RecvError = 1"
| "event_weight (Recv data) = 1 + length data"

definition leftover :: "nat \<Rightarrow> bytes \<Rightarrow> sock_event list \<Rightarrow> sock_event list" where
  "leftover room data evs = (if length data > room then Recv (drop room data) # evs else evs)"

lemma leftover_weight:
  "0 < room \<Longrightarrow> data \<noteq> [] \<Longrightarrow>
     sum_list (map event_weight (leftover room data evs)) < 1 + length data + sum_list (map event_weight evs)"
  by (cases data) (auto simp: leftover_def)

definition tcp_comm_error :: "gw_state \<Rightarrow> gw_state" where
  "tcp_comm_error st = st\<lparr>gw_err := gw_error_set GW_ERR_TCP_COMM (gw_err st)\<rparr>"

text \<open>The timeout given to \<open>zsock_poll\<close> during the handshake.\<close>

definition gw_poll_timeout :: "int \<Rightarrow> int \<Rightarrow> int" where
  "gw_poll_timeout next_send_ms now =
     (let ms_left = next_send_ms - now
      in if ms_left > 0 then
           let poll_to = (if ms_left > HANDSHAKE_POLL_MS then HANDSHAKE_POLL_MS else ms_left)
           in if poll_to < 1 then 1 else poll_to
         else 0)"

text \<open>Sending CONNECT when it is due: \<open>None\<close> when the send fails, else the time of the next.\<close>

definition gw_announce :: "gw_env \<Rightarrow> bytes \<Rightarrow> int \<Rightarrow> gw_state \<Rightarrow> int option \<times> gw_state" where
  "gw_announce env connect_body next_send_ms st =
     (let now = e_uptime env (gw_tick st); st1 = st\<lparr>gw_tick := gw_tick st + 1\<rparr>
      in if now \<ge> next_send_ms then
           case gw_build_compact_tx GW_TX_FRAME_SIZE GW_MSG_CONNECT 0 connect_body of
             Inl e \<Rightarrow> (Some (now + HANDSHAKE_POLL_MS), st1)
           | Inr frame \<Rightarrow>
               let (ok, st2) = gw_send_all env frame st1
               in if ok then (Some (now + HANDSHAKE_POLL_MS), st2) else (None, st2)
         else (Some next_send_ms, st1))"

datatype hs_result = HsSync bytes "sock_event list" | HsFail | HsWaiting

function gw_tcp_handshake ::
    "gw_env \<Rightarrow> bytes \<Rightarrow> int \<Rightarrow> bytes \<Rightarrow> sock_event list \<Rightarrow> gw_state \<Rightarrow> hs_result \<times> gw_state" where
  "gw_tcp_handshake env connect_body next_send_ms rbuf evs st =
     (case gw_announce env connect_body next_send_ms st of
        (None, st1) \<Rightarrow> (HsFail, tcp_comm_error st1)
      | (Some nxt, st1) \<Rightarrow>
          (case evs of
             [] \<Rightarrow> (HsWaiting, st1)
           | ev # evs' \<Rightarrow>
               (case ev of
                  PollError \<Rightarrow> (HsFail, tcp_comm_error st1)
                | PollTimeout \<Rightarrow> gw_tcp_handshake env connect_body nxt rbuf evs' st1
                | PeerGone \<Rightarrow> (HsFail, tcp_comm_error st1)
                | PollOther \<Rightarrow> gw_tcp_handshake env connect_body nxt rbuf evs' st1
                | RecvError \<Rightarrow> (HsFail, tcp_comm_error st1)
                | Recv data \<Rightarrow>
                    let rbuf1 = (if length rbuf \<ge> GW_RX_BUF_SIZE then [] else rbuf);
                        room = GW_RX_BUF_SIZE - length rbuf1
                    in if data = [] then (HsFail, tcp_comm_error st1)
                       else
                         let (got_sync, rbuf2, st2) =
                               gw_process_frames_handshake env False (rbuf1 @ take room data) st1
                         in if got_sync then (HsSync rbuf2 (leftover room data evs'), st2)
                            else gw_tcp_handshake env connect_body nxt rbuf2
                                   (leftover room data evs') st2)))"
  by pat_completeness auto
termination
  by (relation "measure (\<lambda>(env, c, n, rbuf, evs, st). sum_list (map event_weight evs))")
    (use leftover_weight in auto)

declare gw_tcp_handshake.simps [simp del]

text \<open>The session; the first component tells whether the connection is over.\<close>

function gw_session_loop ::
    "gw_env \<Rightarrow> bytes \<Rightarrow> sock_event list \<Rightarrow> gw_state \<Rightarrow> bool \<times> bytes \<times> gw_state" where
  "gw_session_loop env rbuf evs st =
     (case evs of
        [] \<Rightarrow> (False, rbuf, st)
      | ev # evs' \<Rightarrow>
          let rbuf1 = (if length rbuf \<ge> GW_RX_BUF_SIZE then [] else rbuf)
          in case ev of
               PollError \<Rightarrow> (True, rbuf1, tcp_comm_error st)
             | PollTimeout \<Rightarrow> gw_session_loop env rbuf1 evs' st
             | PeerGone \<Rightarrow> (True, rbuf1, tcp_comm_error st)
             | PollOther \<Rightarrow> gw_session_loop env rbuf1 evs' st
             | RecvError \<Rightarrow> (True, rbuf1, tcp_comm_error st)
             | Recv data \<Rightarrow>
                 let room = GW_RX_BUF_SIZE - length rbuf1
                 in if data = [] then (True, rbuf1, tcp_comm_error st)
                    else let (rbuf2, st2) = gw_session_frames env (rbuf1 @ take room data) st
                         in gw_session_loop env rbuf2 (leftover room data evs') st2)"
  by pat_completeness auto
termination
  by (relation "measure (\<lambda>(env, rbuf, evs, st). sum_list (map event_weight evs))")
    (use leftover_weight in auto)

declare gw_session_loop.simps [simp del]

definition gw_handle_client ::
    "gw_env \<Rightarrow> bytes \<Rightarrow> sock_event list \<Rightarrow> gw_state \<Rightarrow> bool \<times> gw_state" where
  "gw_handle_client env connect_body evs st =
     (case gw_tcp_handshake env connect_body 0 [] evs st of
        (HsFail, st1) \<Rightarrow> (True, tcp_comm_error st1)
      | (HsWaiting, st1) \<Rightarrow> (False, st1)
      | (HsSync rbuf evs', st1) \<Rightarrow>
          let (over, rbuf', st2) =
                gw_session_loop env rbuf evs' (st1\<lparr>gw_err := gw_error_clear (gw_err st1)\<rparr>)
          in (over, st2))"

section \<open>Sending is in order and complete\<close>

lemma gw_send_all_effect:
  assumes "gw_send_all env rest st = (ok, st')"
  shows "\<exists>n. gw_sent st' = gw_sent st @ take n rest \<and> (ok \<longrightarrow> take n rest = rest) \<and>
    gw_err st' = gw_err st \<and> gw_gate st' = gw_gate st \<and> gw_port st' = gw_port st"
  using assms
proof (induction env rest st rule: gw_send_all.induct)
  case (1 env rest st)
  let ?r = "e_send env (gw_tick st) (length rest)"
  let ?st1 = "st\<lparr>gw_tick := gw_tick st + 1\<rparr>"
  show ?case
  proof (cases "rest = [] \<or> ?r \<le> 0")
    case True
    then have "(rest = [] \<and> ok \<and> st' = st) \<or> (\<not> ok \<and> st' = ?st1)"
      using 1(2) by (subst (asm) gw_send_all.simps) (auto simp: Let_def split: if_splits)
    then show ?thesis by (intro exI [of _ 0]) auto
  next
    case False
    let ?st2 = "?st1\<lparr>gw_sent := gw_sent ?st1 @ take (nat ?r) rest\<rparr>"
    have "gw_send_all env (drop (nat ?r) rest) ?st2 = (ok, st')"
      using 1(2) False by (subst (asm) gw_send_all.simps) (auto simp: Let_def)
    from 1(1) [OF _ refl refl _ _ this] False obtain n where n:
      "gw_sent st' = gw_sent ?st2 @ take n (drop (nat ?r) rest)"
      "ok \<longrightarrow> take n (drop (nat ?r) rest) = drop (nat ?r) rest"
      "gw_err st' = gw_err st" "gw_gate st' = gw_gate st" "gw_port st' = gw_port st"
      by auto
    have t: "take (nat ?r + n) rest = take (nat ?r) rest @ take n (drop (nat ?r) rest)"
      by (rule take_add)
    have "gw_sent st' = gw_sent st @ take (nat ?r + n) rest" using n(1) unfolding t by simp
    moreover have "ok \<longrightarrow> take (nat ?r + n) rest = rest"
      using n(2) unfolding t by (metis append_take_drop_id)
    ultimately show ?thesis using n(3-5) by blast
  qed
qed

text \<open>A socket that takes at least one byte per call, and no more than it is given.\<close>

definition sends_ok :: "gw_env \<Rightarrow> bool" where
  "sends_ok env \<longleftrightarrow> (\<forall>t n. 0 < n \<longrightarrow> 0 < e_send env t n \<and> e_send env t n \<le> int n)"

lemma gw_send_all_ok:
  assumes "sends_ok env" "gw_send_all env rest st = (ok, st')"
  shows "ok \<and> gw_sent st' = gw_sent st @ rest \<and> gw_err st' = gw_err st \<and>
    gw_gate st' = gw_gate st \<and> gw_port st' = gw_port st"
proof -
  have "fst (gw_send_all env rest st)"
    using assms(1)
  proof (induction env rest st rule: gw_send_all.induct)
    case (1 env rest st)
    show ?case
    proof (cases "rest = []")
      case False
      then have "0 < e_send env (gw_tick st) (length rest)"
        using 1(2) by (simp add: sends_ok_def)
      with 1 False show ?thesis by (subst gw_send_all.simps) (simp add: Let_def)
    qed (simp add: gw_send_all.simps)
  qed
  then have ok: "ok" using assms(2) by simp
  from gw_send_all_effect [OF assms(2)] obtain n where
    n: "gw_sent st' = gw_sent st @ take n rest" "ok \<longrightarrow> take n rest = rest"
      "gw_err st' = gw_err st" "gw_gate st' = gw_gate st" "gw_port st' = gw_port st"
    by blast
  then show ?thesis using ok by simp
qed

text \<open>\<open>gw_send_all\<close> gets the whole buffer out or reports the failure: however the socket
  splits the data, what was sent is a prefix of the buffer, in order, the whole of it exactly
  when the result is success; with a socket that always takes something it always succeeds.\<close>

theorem send_all_complete:
  assumes "gw_send_all env p st = (ok, st')"
  shows "(\<exists>n. gw_sent st' = gw_sent st @ take n p) \<and>
         (ok \<longrightarrow> gw_sent st' = gw_sent st @ p) \<and> (sends_ok env \<longrightarrow> ok)"
proof -
  from gw_send_all_effect [OF assms] obtain n where
    "gw_sent st' = gw_sent st @ take n p" "ok \<longrightarrow> take n p = p"
    by blast
  then show ?thesis using gw_send_all_ok [OF _ assms] by auto
qed

section \<open>Invariants\<close>

lemma gw_send_all_keep:
  "gw_send_all env rest st = (ok, st') \<Longrightarrow> gw_wf st' = gw_wf st \<and> gw_err st' = gw_err st \<and>
     gw_gate st' = gw_gate st \<and> gw_port st' = gw_port st"
  using gw_send_all_effect [of env rest st ok st'] by (auto simp: gw_wf_def)

lemma compact_1: "gw_build_compact_tx GW_TX_FRAME_SIZE m q [b] = Inr [GW_STX, m, q, b, GW_ETX]"
  by (simp add: gw_build_compact_tx_def)

lemma gw_send_alarm_keep:
  "gw_tcp_send_alarm env seq code st = (ok, st') \<Longrightarrow> gw_err st' = gw_err st \<and>
     gw_gate st' = gw_gate st \<and> gw_port st' = gw_port st"
  by (auto simp: gw_tcp_send_alarm_def compact_1 split: if_splits dest: gw_send_all_keep)

lemma gw_report_error_keep:
  "gw_gate (gw_report_error env seq code st) = gw_gate st \<and>
   gw_port (gw_report_error env seq code st) = gw_port st \<and>
   gw_err (gw_report_error env seq code st) = gw_error_set code (gw_err st)"
  using gw_send_alarm_keep [of env seq code "st\<lparr>gw_err := gw_error_set code (gw_err st)\<rparr>"]
  unfolding gw_report_error_def
  by (cases "gw_tcp_send_alarm env seq code (st\<lparr>gw_err := gw_error_set code (gw_err st)\<rparr>)") simp

lemma gw_send_ack_keep:
  "gw_gate (gw_send_ack env seq r st) = gw_gate st \<and> gw_port (gw_send_ack env seq r st) = gw_port st \<and>
   gw_err (gw_send_ack env seq r st) = gw_err st"
  using gw_send_all_keep [of env "[GW_STX, GW_MSG_ACK, seq, r, GW_ETX]" st]
  unfolding gw_send_ack_def compact_1 sum.case
  by (cases "gw_send_all env [GW_STX, GW_MSG_ACK, seq, r, GW_ETX] st") simp

section \<open>The retry loop and the contract of the port\<close>

locale modbus_port =
  fixes inv :: "'s \<Rightarrow> bool"
    and wire :: "'s \<Rightarrow> 'w list"
    and frame :: "'s \<Rightarrow> 'w list"
    and cap :: nat
    and txrx :: "'s \<Rightarrow> (errno + bytes) \<times> 's"
    and ok :: "'s \<Rightarrow> 's"
  assumes txrx_inv: "inv s \<Longrightarrow> txrx s = (r, s') \<Longrightarrow> inv s'"
    and txrx_frame: "inv s \<Longrightarrow> txrx s = (r, s') \<Longrightarrow> frame s' = frame s"
    and txrx_wire: "inv s \<Longrightarrow> txrx s = (r, s') \<Longrightarrow> wire s' = wire s @ frame s"
    and txrx_bounds: "inv s \<Longrightarrow> txrx s = (Inr resp, s') \<Longrightarrow> 2 \<le> length resp \<and> length resp \<le> cap"
    and ok_inv: "inv s \<Longrightarrow> inv (ok s)"
    and ok_wire: "inv s \<Longrightarrow> wire (ok s) = wire s"

context modbus_port begin

text \<open>The loop stops at the first response and otherwise uses all its attempts; every attempt
  sends the request once.\<close>

lemma retry_result:
  assumes "inv s" "modbus_retry txrx ok k mbr s = (r, s')"
  shows "inv s' \<and> (\<exists>n \<le> k. (0 < k \<longrightarrow> 0 < n) \<and> wire s' = wire s @ concat (replicate n (frame s)) \<and>
    ((\<exists>resp. r = Inr resp \<and> 2 \<le> length resp \<and> length resp \<le> cap) \<or>
     (n = k \<and> (k = 0 \<longrightarrow> r = mbr) \<and> (0 < k \<longrightarrow> (\<exists>e. r = Inl e)))))"
  using assms
proof (induction k arbitrary: s mbr)
  case 0
  then show ?case by auto
next
  case (Suc k)
  obtain r1 s1 where t: "txrx s = (r1, s1)" by fastforce
  note i = txrx_inv [OF Suc.prems(1) t] txrx_frame [OF Suc.prems(1) t] txrx_wire [OF Suc.prems(1) t]
  show ?case
  proof (cases r1)
    case (Inl e)
    then have "modbus_retry txrx ok k (Inl e) s1 = (r, s')" using Suc.prems(2) t by simp
    from Suc.IH [OF i(1) this] i obtain n where n: "inv s'" "n \<le> k"
      "wire s' = (wire s @ frame s) @ concat (replicate n (frame s))"
      "(\<exists>resp. r = Inr resp \<and> 2 \<le> length resp \<and> length resp \<le> cap) \<or>
       (n = k \<and> (\<exists>e. r = Inl e))"
      by (cases k) auto
    then show ?thesis by (intro conjI exI [of _ "Suc n"]) auto
  next
    case (Inr resp)
    have b: "2 \<le> length resp \<and> length resp \<le> cap" using txrx_bounds Suc.prems(1) t Inr by blast
    then have "r = Inr resp" "s' = ok s1" using Suc.prems(2) t Inr by (cases resp; simp)+
    with b i ok_inv ok_wire show ?thesis by (intro conjI exI [of _ 1]) auto
  qed
qed

end

text \<open>The gateway's data port provides the contract.\<close>

definition request_wire :: "gw_env \<Rightarrow> bytes \<Rightarrow> gw_state \<Rightarrow> (device \<times> u8) list" where
  "request_wire env body st =
     (case txrx_frame (e_ready env) GW_RS232_DATA_PORT body (gw_port st) of
        None \<Rightarrow> [] | Some (dev, tx) \<Rightarrow> map (Pair dev) tx)"

lemma gw_txrx_spec:
  assumes "gw_txrx env body st = (r, st')"
  shows "(gw_wf st \<longrightarrow> gw_wf st') \<and> request_wire env body st' = request_wire env body st \<and>
    rs_wire (gw_port st') = rs_wire (gw_port st) @ request_wire env body st \<and>
    (\<forall>resp. r = Inr resp \<longrightarrow> 2 \<le> length resp \<and> length resp \<le> GW_BODY_CAP) \<and>
    gw_err st' = gw_err st \<and> gw_gate st' = gw_gate st \<and> gw_sent st' = gw_sent st"
proof -
  obtain res ts port where t: "rs232_modbus_txrx (e_ready env) GW_RS232_DATA_PORT body GW_BODY_CAP
      (e_line env (gw_tick st)) (gw_port st) = (res, ts, port)"
    by (rule prod_cases3)
  have st': "r = res" "st' = st\<lparr>gw_port := port, gw_tick := gw_tick st + 1\<rparr>"
    using assms unfolding gw_txrx_def t Let_def prod.case by simp_all
  have d: "rs_dev port = rs_dev (gw_port st)" "rs_protocol port = rs_protocol (gw_port st)"
    using txrx_spec [OF t] by blast+
  then have "txrx_frame ready p body port = txrx_frame ready p body (gw_port st)" for ready p
    by (simp add: txrx_frame_def port_device_def)
  then have rw: "request_wire env body st' = request_wire env body st"
    by (simp add: request_wire_def st')
  have w: "rs_wire port = rs_wire (gw_port st) @ request_wire env body st"
    using txrx_spec [OF t] unfolding request_wire_def by blast
  have "\<forall>out. res = Inr out \<longrightarrow> 2 \<le> length out \<and> length out \<le> GW_BODY_CAP"
    "rs232_wf (gw_port st) \<longrightarrow> rs232_wf port"
    using txrx_spec [OF t] by simp_all
  then show ?thesis using rw w by (simp add: st' gw_wf_def)
qed

lemma gw_clear_no_response_keep:
  "gw_wf st \<Longrightarrow> gw_wf (gw_clear_no_response st)"
  "gw_port (gw_clear_no_response st) = gw_port st" "gw_gate (gw_clear_no_response st) = gw_gate st"
  "gw_sent (gw_clear_no_response st) = gw_sent st"
  "gw_err (gw_clear_no_response st) = (if gw_err st = GW_ERR_RS232_NO_RESPONSE then GW_ERR_NONE else gw_err st)"
  by (auto simp: gw_clear_no_response_def gw_wf_def gw_error_get_def gw_error_clear_def err_wf_def)

text \<open>What the attempts leave alone is part of the invariant the interpretation carries.\<close>

interpretation port: modbus_port
    "\<lambda>st. gw_wf st \<and> gw_gate st = g \<and> gw_sent st = out" "\<lambda>st. rs_wire (gw_port st)"
    "request_wire env body" GW_BODY_CAP "gw_txrx env body" gw_clear_no_response
  for env body g out
  by unfold_locales (auto dest: gw_txrx_spec simp: gw_clear_no_response_keep)

text \<open>The error latch through the attempts.\<close>

lemma retry_err:
  "modbus_retry (gw_txrx env body) gw_clear_no_response k mbr st = (r, st') \<Longrightarrow>
     gw_err st' = gw_err st \<or> (\<exists>resp. r = Inr resp \<and> resp \<noteq> []) \<and> gw_err st = GW_ERR_RS232_NO_RESPONSE \<and>
       gw_err st' = GW_ERR_NONE"
proof (induction k arbitrary: st mbr)
  case (Suc k)
  obtain r1 st1 where t: "gw_txrx env body st = (r1, st1)" by fastforce
  note sp = gw_txrx_spec [OF t]
  show ?case
  proof (cases r1)
    case (Inl e)
    with Suc.prems t have "modbus_retry (gw_txrx env body) gw_clear_no_response k (Inl e) st1 = (r, st')"
      by simp
    from Suc.IH [OF this] sp show ?thesis by simp
  next
    case (Inr resp)
    with sp have "resp \<noteq> []" by auto
    with Inr Suc.prems t sp show ?thesis by (auto simp: gw_clear_no_response_keep split: if_splits)
  qed
qed simp

lemma retry_err_ok:
  "modbus_retry (gw_txrx env body) gw_clear_no_response k mbr st = (Inr resp, st') \<Longrightarrow> resp \<noteq> [] \<Longrightarrow>
     0 < k \<Longrightarrow> gw_wf st \<Longrightarrow> gw_err st' \<noteq> GW_ERR_RS232_NO_RESPONSE"
proof (induction k arbitrary: st mbr)
  case (Suc k)
  obtain r1 st1 where t: "gw_txrx env body st = (r1, st1)" by fastforce
  note sp = gw_txrx_spec [OF t]
  show ?case
  proof (cases r1)
    case (Inl e)
    with Suc.prems t have "modbus_retry (gw_txrx env body) gw_clear_no_response k (Inl e) st1 = (Inr resp, st')"
      by simp
    with Suc sp show ?thesis by (cases k) auto
  next
    case (Inr r2)
    with sp have "2 \<le> length r2" by blast
    with Inr Suc.prems t show ?thesis by (auto simp: gw_clear_no_response_keep split: if_splits)
  qed
qed simp

section \<open>One reply to one request\<close>

lemma response82_frame:
  assumes "length resp \<le> GW_BODY_CAP"
  shows "gw_build_response82_tx env seq resp st =
    Inr (sess_frame GW_MSG_MODBUS_RESP seq
           (time_encode_now_9 (e_uptime env (gw_tick st)) (sg_clock (gw_gate st)) @ resp))"
  using assms by (simp add: gw_build_response82_tx_def sess_frame_def Let_def)

lemma report_error_sent:
  assumes "sends_ok env" "code \<noteq> GW_ERR_NONE"
  shows "gw_sent (gw_report_error env seq code st) =
    gw_sent st @ [GW_STX, GW_MSG_ALARM, seq, code, GW_ETX]"
proof -
  let ?st = "st\<lparr>gw_err := gw_error_set code (gw_err st)\<rparr>"
  obtain ok st' where s: "gw_send_all env [GW_STX, GW_MSG_ALARM, seq, code, GW_ETX] ?st = (ok, st')"
    by fastforce
  show ?thesis
    using gw_send_all_ok [OF assms(1) s] assms(2)
    unfolding gw_report_error_def gw_tcp_send_alarm_def compact_1 by (simp add: s)
qed


text \<open>A gateway after the start, and a platform whose socket takes everything at once and whose
  serial line stays silent.\<close>

definition gw_boot :: gw_state where
  "gw_boot = \<lparr>gw_err = GW_ERR_NONE, gw_gate = sg_init, gw_port = sample_port, gw_sent = [], gw_tick = 0\<rparr>"

definition sample_env :: gw_env where
  "sample_env = \<lparr>e_timegm = posix_timegm, e_uptime = (\<lambda>k. 100 * int k), e_send = (\<lambda>k n. int n),
     e_line = (\<lambda>k. []),
     e_reconf = (\<lambda>k a. \<lparr>ra_wait = [], ra_abort = False, ra_result = (\<lambda>dev ucfg. 0)\<rparr>),
     e_ready = (\<lambda>d. True)\<rparr>"

lemma sample_port_wf: "rs232_wf sample_port"
  by (simp add: rs232_wf_def sample_port_def rs232_ports_init_def rs232_boot_def)

lemma gw_wf_boot: "gw_wf gw_boot"
  by (simp add: gw_wf_def gw_boot_def sample_port_wf err_wf_def)

lemma sends_ok_sample: "sends_ok sample_env"
  by (simp add: sends_ok_def sample_env_def)


theorem send_all_complete_witness:
  "gw_sent (snd (gw_send_all (sample_env\<lparr>e_send := (\<lambda>k n. if n > 2 then 2 else int n)\<rparr>) [1, 2, 3, 4, 5] gw_boot)) =
     [1, 2, 3, 4, 5]"
proof -
  let ?env = "sample_env\<lparr>e_send := (\<lambda>k n. if n > 2 then 2 else int n)\<rparr>"
  obtain ok st' where s: "gw_send_all ?env [1, 2, 3, 4, 5] gw_boot = (ok, st')" by fastforce
  have "sends_ok ?env" by (simp add: sends_ok_def)
  with send_all_complete [OF s] s show ?thesis by (simp add: gw_boot_def)
qed

section \<open>The effect of a SYNC\<close>

lemma send_ack_sent:
  assumes "sends_ok env"
  shows "gw_sent (gw_send_ack env seq r st) = gw_sent st @ [GW_STX, GW_MSG_ACK, seq, r, GW_ETX]"
proof -
  obtain ok st' where s: "gw_send_all env [GW_STX, GW_MSG_ACK, seq, r, GW_ETX] st = (ok, st')"
    by fastforce
  show ?thesis using gw_send_all_ok [OF assms s] unfolding gw_send_ack_def compact_1 by (simp add: s)
qed

lemma apply_sync_gate:
  assumes "gw_sync_body_check (e_timegm env) (Some body) = GW_ERR_NONE"
  shows "gw_gate (gw_apply_sync_and_rs232 env (Some body) seq st) =
    sg_timesync_from_tcp_notify (e_timegm env) (e_uptime env (gw_tick st)) (Some (take 9 body)) (gw_gate st)"
proof -
  have "length body = 14" using assms unfolding sync_body_check_ok by blast
  with assms show ?thesis
    by (simp add: gw_apply_sync_and_rs232_def Let_def gw_send_ack_keep gw_report_error_keep split: prod.split)
qed

text \<open>C11: A SYNC is acknowledged with what happened: the reply is 0x81 with 0x00, and the latch
  is cleared, exactly when the body passed the check and the serial port was reconfigured.
  Otherwise the server gets the alarm 0x8E followed by 0x81 with 0x01, and the latch says
  \<open>GW_ERR_INIT_CFG\<close>.  A body that passed the check always sets the clock and opens the UDP
  gate, a body that did not changes neither the clock, nor the gate, nor the port.\<close>

theorem sync_apply_outcome:
  assumes "sends_ok env"
  shows "let st' = gw_apply_sync_and_rs232 env bodyp seq st;
      good = (gw_sync_body_check (e_timegm env) bodyp = GW_ERR_NONE);
      rc = rs232_reconfigure (e_reconf env (gw_tick st + 1)) GW_RS232_DATA_PORT
             (Some (sync_remote_cfg (the bodyp))) (gw_port st)
    in gw_err st' = (if good \<and> fst rc then GW_ERR_NONE else GW_ERR_INIT_CFG) \<and>
       gw_sent st' = gw_sent st @
         (if good \<and> fst rc then [GW_STX, GW_MSG_ACK, seq, 0x00, GW_ETX]
          else [GW_STX, GW_MSG_ALARM, seq, GW_ERR_INIT_CFG, GW_ETX] @ [GW_STX, GW_MSG_ACK, seq, 0x01, GW_ETX]) \<and>
       (good \<longrightarrow> gate_wf (gw_gate st') \<and> sg_udp_allowed (gw_gate st') \<and> gw_port st' = snd rc) \<and>
       (\<not> good \<longrightarrow> gw_gate st' = gw_gate st \<and> gw_port st' = gw_port st)"
proof (cases "gw_sync_body_check (e_timegm env) bodyp = GW_ERR_NONE")
  case False
  then have chk: "gw_sync_body_check (e_timegm env) bodyp = GW_ERR_INIT_CFG"
    using sync_body_check_range [of "e_timegm env" bodyp] by auto
  have "gw_apply_sync_and_rs232 env bodyp seq st =
      gw_send_ack env seq 0x01 (gw_report_error env seq GW_ERR_INIT_CFG st)"
    using chk by (auto simp: gw_apply_sync_and_rs232_def Let_def split: option.split)
  with False show ?thesis
    unfolding Let_def
    by (simp add: gw_send_ack_keep gw_report_error_keep send_ack_sent [OF assms]
        report_error_sent [OF assms] gw_error_set_def)
next
  case True
  then obtain body where b: "bodyp = Some body"
    by (cases bodyp) (auto simp: gw_sync_body_check_def)
  have len: "length body = 14" using True unfolding b sync_body_check_ok by blast
  let ?st1 = "st\<lparr>gw_gate := sg_timesync_from_tcp_notify (e_timegm env) (e_uptime env (gw_tick st))
      (Some (take 9 body)) (gw_gate st), gw_tick := gw_tick st + 1\<rparr>"
  obtain ok port where r: "rs232_reconfigure (e_reconf env (gw_tick st + 1)) GW_RS232_DATA_PORT
      (Some (sync_remote_cfg body)) (gw_port st) = (ok, port)"
    by fastforce
  let ?st2 = "?st1\<lparr>gw_port := port, gw_tick := gw_tick ?st1 + 1\<rparr>"
  have st': "gw_apply_sync_and_rs232 env bodyp seq st =
      (if ok then gw_send_ack env seq 0x00 (?st2\<lparr>gw_err := gw_error_clear (gw_err ?st2)\<rparr>)
       else gw_send_ack env seq 0x01 (gw_report_error env seq GW_ERR_INIT_CFG ?st2))"
    using True b len r by (simp add: gw_apply_sync_and_rs232_def Let_def)
  have "gate_wf (gw_gate ?st2)" using gate_wf_notify [OF True [unfolded b]] by simp
  then show ?thesis
    unfolding st' Let_def using True b r
    by (simp add: gw_send_ack_keep gw_report_error_keep send_ack_sent [OF assms]
        report_error_sent [OF assms] gw_error_set_def gw_error_clear_def)
qed

theorem sync_apply_outcome_witness:
  "gw_sent (gw_apply_sync_and_rs232 sample_env
     (Some [0x07, 0xE8, 13, 29, 23, 59, 58, 0x03, 0xE7, 1, 1, 0, 0, 0]) 9 gw_boot) =
   [GW_STX, GW_MSG_ALARM, 9, GW_ERR_INIT_CFG, GW_ETX] @ [GW_STX, GW_MSG_ACK, 9, 0x01, GW_ETX]"
proof -
  have "gw_sync_body_check (e_timegm sample_env)
      (Some [0x07, 0xE8, 13, 29, 23, 59, 58, 0x03, 0xE7, 1, 1, 0, 0, 0]) \<noteq> GW_ERR_NONE"
    unfolding sync_body_check_ok wire_time_ok_def by simp
  with sync_apply_outcome [OF sends_ok_sample, of
      "Some [0x07, 0xE8, 13, 29, 23, 59, 58, 0x03, 0xE7, 1, 1, 0, 0, 0]" 9 gw_boot]
  show ?thesis by (simp add: gw_boot_def Let_def)
qed

section \<open>The loops as folds over the frames of the stream\<close>

lemma sess_handle_take:
  assumes "gw_srv_sess_rx_frame_info b = Frame need bl"
  shows "sess_handle env (take need b) (length (take need b) - 6) st = sess_handle env b bl st"
proof -
  note f = sess_frame_len [OF assms]
  have "take bl (drop 5 (take need b)) = take bl (drop 5 b)" using f by (simp add: drop_take)
  with f show ?thesis by (simp add: sess_handle_def)
qed

lemma session_frames_fold:
  "gw_session_frames env rbuf st = (r', st') \<Longrightarrow> cut_stream 6 gw_srv_sess_rx_frame_info rbuf = (fs, r) \<Longrightarrow>
     st' = fold (\<lambda>f. sess_handle env f (length f - 6)) fs st \<and> to_stx r' = r \<and> length r' < 262"
proof (induction env rbuf st arbitrary: fs rule: gw_session_frames.induct)
  case (1 env rbuf st)
  let ?b = "to_stx rbuf" and ?info = gw_srv_sess_rx_frame_info
  have le: "length ?b \<le> length rbuf" by (rule length_to_stx)
  show ?case
  proof (cases "length rbuf < 6 \<or> length ?b < 6 \<or> ?info ?b = Short")
    case True
    then have "fs = [] \<and> r = ?b"
      using 1(4) le by (subst (asm) cut_stream.simps) (auto simp: Let_def split: if_splits)
    moreover have "st' = st \<and> (r' = rbuf \<and> length rbuf < 6 \<or> r' = ?b)"
      using 1(3) True by (subst (asm) gw_session_frames.simps) (auto simp: Let_def split: if_splits)
    moreover have "length ?b < 262" using True le sess.short_len [of ?b] by linarith
    ultimately show ?thesis by auto
  next
    case False
    then have g: "\<not> length rbuf < 5 + 1" "\<not> length ?b < 5 + 1" "?b \<noteq> []" by auto
    from False consider w where "?info ?b = Bad w" | n bl where "?info ?b = Frame n bl"
      by (cases "?info ?b") auto
    then show ?thesis
    proof cases
      case (1 w)
      have "gw_session_frames env (drop 1 ?b) st = (r', st')"
        using "1.prems"(1) g 1 by (subst (asm) gw_session_frames.simps) (simp add: Let_def)
      moreover have "cut_stream 6 ?info (drop 1 ?b) = (fs, r)"
        using "1.prems"(2) g 1 by (subst (asm) cut_stream.simps) (simp add: Let_def drop_Suc)
      ultimately show ?thesis using "1.IH"(1) [OF g(1) refl g(2) 1] by blast
    next
      case (2 n bl)
      note fl = sess_frame_len [OF 2]
      have n: "\<not> length ?b < n" "n \<noteq> 0" using fl by auto
      have e: "gw_session_frames env (drop n ?b) (sess_handle env ?b bl st) = (r', st')"
        using "1.prems"(1) g 2 n by (subst (asm) gw_session_frames.simps) (simp add: Let_def)
      obtain gs where gs: "cut_stream 6 ?info (drop n ?b) = (gs, r)" "fs = take n ?b # gs"
        using "1.prems"(2) g 2 n
        by (subst (asm) cut_stream.simps) (auto simp: Let_def split: prod.splits)
      from "1.IH"(2) [OF g(1) refl g(2) 2 n(1) e gs(1)]
      show ?thesis unfolding gs(2) fold_simps sess_handle_take [OF 2] .
    qed
  qed
qed

lemma hs_handle_take:
  assumes "gw_srv_rx_frame_info b = Frame need bl"
  shows "hs_handle env (take need b) (length (take need b) - 4) st = hs_handle env b bl st"
proof -
  note f = compact_frame_len [OF assms]
  have "take bl (drop 3 (take need b)) = take bl (drop 3 b)" "take need b ! 1 = b ! 1"
    "take need b ! 2 = b ! 2" "length (take need b) - 4 = bl"
    using f by (simp_all add: drop_take)
  then show ?thesis unfolding hs_handle_def by (simp only:)
qed

text \<open>The accumulated flag and the state over a list of handshake frames.\<close>

definition hs_fold :: "gw_env \<Rightarrow> bytes list \<Rightarrow> bool \<times> gw_state \<Rightarrow> bool \<times> gw_state" where
  "hs_fold env = fold (\<lambda>f (g, st). let (sync, st') = hs_handle env f (length f - 4) st in (g \<or> sync, st'))"

lemma handshake_frames_fold:
  "gw_process_frames_handshake env g rbuf st = (g', r', st') \<Longrightarrow>
   cut_stream 3 gw_srv_rx_frame_info rbuf = (fs, r) \<Longrightarrow>
     (g', st') = hs_fold env fs (g, st) \<and> to_stx r' = r \<and> length r' < 260"
proof (induction env g rbuf st arbitrary: fs rule: gw_process_frames_handshake.induct)
  case (1 env g rbuf st)
  let ?b = "to_stx rbuf" and ?info = gw_srv_rx_frame_info
  have le: "length ?b \<le> length rbuf" by (rule length_to_stx)
  show ?case
  proof (cases "length rbuf < 3 \<or> length ?b < 3 \<or> ?info ?b = Short")
    case True
    then have "fs = [] \<and> r = ?b"
      using 1(4) le by (subst (asm) cut_stream.simps) (auto simp: Let_def split: if_splits)
    moreover have "g' = g \<and> st' = st \<and> (r' = rbuf \<and> length rbuf < 3 \<or> r' = ?b)"
      using 1(3) True
      by (subst (asm) gw_process_frames_handshake.simps) (auto simp: Let_def split: if_splits)
    moreover have "length ?b < 260" using True le hs.short_len [of ?b] by linarith
    ultimately show ?thesis by (auto simp: hs_fold_def)
  next
    case False
    then have g: "\<not> length rbuf < 3" "\<not> length ?b < 3" "?b \<noteq> []" by auto
    from False consider w where "?info ?b = Bad w" | n bl where "?info ?b = Frame n bl"
      by (cases "?info ?b") auto
    then show ?thesis
    proof cases
      case (1 w)
      have "gw_process_frames_handshake env g (drop 1 ?b) st = (g', r', st')"
        using "1.prems"(1) g 1 by (subst (asm) gw_process_frames_handshake.simps) (simp add: Let_def)
      moreover have "cut_stream 3 ?info (drop 1 ?b) = (fs, r)"
        using "1.prems"(2) g 1 by (subst (asm) cut_stream.simps) (simp add: Let_def drop_Suc)
      ultimately show ?thesis using "1.IH"(1) [OF g(1) refl g(2) 1] by blast
    next
      case (2 n bl)
      note fl = compact_frame_len [OF 2]
      have n: "\<not> length ?b < n" "n \<noteq> 0" using fl by auto
      obtain sync st1 where h: "hs_handle env ?b bl st = (sync, st1)" by fastforce
      have e: "gw_process_frames_handshake env (g \<or> sync) (drop n ?b) st1 = (g', r', st')"
        using "1.prems"(1) g 2 n h
        by (subst (asm) gw_process_frames_handshake.simps) (simp add: Let_def)
      obtain gs where gs: "cut_stream 3 ?info (drop n ?b) = (gs, r)" "fs = take n ?b # gs"
        using "1.prems"(2) g 2 n
        by (subst (asm) cut_stream.simps) (auto simp: Let_def split: prod.splits)
      from "1.IH"(2) [OF g(1) refl g(2) 2 n(1) h [symmetric] refl e gs(1)]
      show ?thesis unfolding gs(2) hs_fold_def fold_simps prod.case hs_handle_take [OF 2] h Let_def .
    qed
  qed
qed

section \<open>The session over a stream\<close>

text \<open>Events of a connection that stays up, and the bytes they bring.\<close>

fun live_event :: "sock_event \<Rightarrow> bool" where
  "live_event PollTimeout = True"
| "live_event PollOther = True"
| "live_event (Recv data) = (data \<noteq> [])"
| "live_event _ = False"

fun event_bytes :: "sock_event \<Rightarrow> bytes" where
  "event_bytes (Recv data) = data"
| "event_bytes _ = []"

lemma leftover_bytes:
  "concat (map event_bytes (leftover room data evs)) = drop room data @ concat (map event_bytes evs)"
  by (simp add: leftover_def)

lemma leftover_live: "list_all live_event evs \<Longrightarrow> list_all live_event (leftover room data evs)"
  by (simp add: leftover_def)

lemma live_cases:
  assumes "live_event ev"
  obtains "ev = PollTimeout" | "ev = PollOther" | data where "ev = Recv data" "data \<noteq> []"
  using assms by (cases ev) auto

lemma session_loop_fold:
  "gw_session_loop env rbuf evs st = (over, r', st') \<Longrightarrow> list_all live_event evs \<Longrightarrow> length rbuf < 262 \<Longrightarrow>
   cut_stream 6 gw_srv_sess_rx_frame_info (rbuf @ concat (map event_bytes evs)) = (fs, r) \<Longrightarrow>
     cut_stream 6 gw_srv_sess_rx_frame_info rbuf = ([], to_stx rbuf) \<Longrightarrow>
     \<not> over \<and> st' = fold (\<lambda>f. sess_handle env f (length f - 6)) fs st \<and> to_stx r' = r \<and> length r' < 262"
proof (induction env rbuf evs st arbitrary: fs rule: gw_session_loop.induct)
  case (1 env rbuf evs st)
  let ?cut = "cut_stream 6 gw_srv_sess_rx_frame_info"
  show ?case
  proof (cases evs)
    case Nil
    with 1 show ?thesis by (simp add: gw_session_loop.simps [of env rbuf])
  next
    case (Cons ev evs')
    have live: "live_event ev" "list_all live_event evs'" using "1.prems"(2) Cons by simp_all
    have full: "\<not> length rbuf \<ge> GW_RX_BUF_SIZE" using "1.prems"(3) by simp
    then have buf: "(if length rbuf \<ge> GW_RX_BUF_SIZE then [] else rbuf) = rbuf" by simp
    from live(1) show ?thesis
    proof (cases rule: live_cases)
      case 1
      have "gw_session_loop env rbuf evs' st = (over, r', st')"
        using "1.prems"(1) Cons 1 full by (simp add: gw_session_loop.simps [of env rbuf "_ # _"])
      from "1.IH"(1) [OF Cons refl 1, unfolded buf, OF this live(2) "1.prems"(3)] "1.prems"(4,5) Cons 1
      show ?thesis by simp
    next
      case 2
      have "gw_session_loop env rbuf evs' st = (over, r', st')"
        using "1.prems"(1) Cons 2 full by (simp add: gw_session_loop.simps [of env rbuf "_ # _"])
      from "1.IH"(2) [OF Cons refl 2, unfolded buf, OF this live(2) "1.prems"(3)] "1.prems"(4,5) Cons 2
      show ?thesis by simp
    next
      case (3 data)
      let ?room = "GW_RX_BUF_SIZE - length rbuf"
      let ?evs = "leftover ?room data evs'"
      let ?in = "rbuf @ take ?room data"
      obtain r2 st2 where s: "gw_session_frames env ?in st = (r2, st2)" by fastforce
      obtain fs1 r1 where c1: "?cut ?in = (fs1, r1)" by fastforce
      note fr = session_frames_fold [OF s c1]
      have loop: "gw_session_loop env r2 ?evs st2 = (over, r', st')"
        using "1.prems"(1) Cons 3 full s by (simp add: gw_session_loop.simps [of env rbuf "_ # _"] Let_def)
      have all: "rbuf @ concat (map event_bytes evs) = ?in @ concat (map event_bytes ?evs)"
        using Cons 3 by (simp add: leftover_bytes)
      obtain gs r3 where c2: "?cut (r1 @ concat (map event_bytes ?evs)) = (gs, r3)" by fastforce
      have "?cut (r2 @ concat (map event_bytes ?evs)) = ?cut (r1 @ concat (map event_bytes ?evs))"
        using fr by (intro cut_stream_to_stx) (metis to_stx_append_left)
      then have c3: "?cut (r2 @ concat (map event_bytes ?evs)) = (gs, r3)" using c2 by simp
      have "?cut (?in @ concat (map event_bytes ?evs)) = (fs1 @ gs, r3)"
        using sess.cut_append [of ?in "concat (map event_bytes ?evs)"] c1 c2 by simp
      then have fs: "fs = fs1 @ gs" "r = r3" using "1.prems"(4) unfolding all by simp_all
      have nil: "?cut r2 = ([], to_stx r2)"
      proof -
        obtain xs y where xy: "?cut r1 = (xs, y)" by fastforce
        have "?cut (?in @ []) = (fs1 @ xs, y)"
          using sess.cut_append [of ?in "[]"] c1 xy by simp
        then have "xs = [] \<and> y = r1" using c1 by simp
        moreover have "?cut r2 = ?cut r1" using fr by (intro cut_stream_to_stx) (metis to_stx_idem)
        ultimately show ?thesis using xy fr by simp
      qed
      have r2: "length r2 < 262" using fr by blast
      have "\<not> over \<and> st' = fold (\<lambda>f. sess_handle env f (length f - 6)) gs st2 \<and> to_stx r' = r3 \<and>
          length r' < 262"
        using "1.IH"(3) [OF Cons refl 3(1), unfolded buf] 3(2) s [symmetric] loop
          leftover_live [OF live(2), of ?room data] r2 c3 nil fs(2)
        by blast
      with fr fs
      show ?thesis by simp
    qed
  qed
qed

text \<open>What the gateway does with one message of the session.\<close>

definition sess_message :: "gw_env \<Rightarrow> u8 \<Rightarrow> u8 \<Rightarrow> bytes \<Rightarrow> gw_state \<Rightarrow> gw_state" where
  "sess_message env m q body st =
     (if m = GW_MSG_SYNC then gw_apply_sync_and_rs232 env (if body = [] then None else Some body) q st
      else if m = GW_MSG_MODBUS_REQ \<and> body \<noteq> [] then gw_modbus_request env body q st
      else st)"

lemma sess_handle_message:
  "sess_handle env (sess_frame m q body) (length (sess_frame m q body) - 6) st = sess_message env m q body st"
  by (auto simp: sess_handle_def sess_message_def sess_frame_def sys_put_be16_def)

text \<open>C3: The session serves exactly the messages of the server, in order: for any messages with
  bodies of up to 256 bytes, with any bytes but STX between them, delivered in chunks of any
  sizes with timeouts in between, the gateway ends in the state reached by serving message
  after message, the connection stays up, and nothing of the stream is lost to the receive
  buffer.\<close>

theorem session_serves_stream:
  assumes "list_all live_event evs"
    and "\<forall>(noise, m, q, body) \<in> set msgs. GW_STX \<notin> set noise \<and> length body \<le> GW_MAX_BODY"
    and "concat (map event_bytes evs) = concat (map (\<lambda>(noise, m, q, body). noise @ sess_frame m q body) msgs)"
  shows "\<exists>r. gw_session_loop env [] evs st =
           (False, r, fold (\<lambda>(noise, m, q, body). sess_message env m q body) msgs st)"
proof -
  obtain over r' st' where l: "gw_session_loop env [] evs st = (over, r', st')" by (rule prod_cases3)
  have "\<not> over \<and> st' = fold (\<lambda>f. sess_handle env f (length f - 6))
      (map (\<lambda>(noise, m, q, body). sess_frame m q body) msgs) st"
    using session_loop_fold [OF l assms(1), of "map (\<lambda>(noise, m, q, body). sess_frame m q body) msgs" "[]"]
      cut_messages [OF assms(2)]
    by (simp add: assms(3) cut_stream.simps [of _ _ "[]"])
  moreover have "fold (\<lambda>f. sess_handle env f (length f - 6))
      (map (\<lambda>(noise, m, q, body). sess_frame m q body) msgs) s =
    fold (\<lambda>(noise, m, q, body). sess_message env m q body) msgs s" for s
    by (induction msgs arbitrary: s) (auto simp: sess_handle_message simp del: length_sess_frame)
  ultimately show ?thesis using l by auto
qed

theorem session_serves_stream_witness:
  "\<exists>r. gw_session_loop sample_env []
      [Recv [0xFF, 0x55, 0, 2], PollTimeout, Recv [5, 7, 9, 8, 3, 0x55, 0], Recv [0, 2, 8, 3]] gw_boot =
     (False, r, gw_boot)"
proof -
  have "\<exists>r. gw_session_loop sample_env []
      [Recv [0xFF, 0x55, 0, 2], PollTimeout, Recv [5, 7, 9, 8, 3, 0x55, 0], Recv [0, 2, 8, 3]] gw_boot =
     (False, r, fold (\<lambda>(noise, m, q, body). sess_message sample_env m q body)
        [([0xFF] :: bytes, 5, 7, [9, 8]), ([], 2, 8, [])] gw_boot)"
    by (rule session_serves_stream) (simp_all add: sess_frame_def sys_put_be16_def)
  then show ?thesis by (simp add: sess_message_def)
qed

section \<open>The handshake\<close>

text \<open>A single SYNC frame completes the handshake.\<close>

definition sync_frame :: "u8 \<Rightarrow> bytes \<Rightarrow> bytes" where
  "sync_frame q body = [GW_STX, GW_MSG_SYNC, q] @ body @ [GW_ETX]"

lemma process_sync_frame:
  assumes "length body = 14"
  shows "gw_process_frames_handshake env False (sync_frame q body) st =
    (True, [], gw_apply_sync_and_rs232 env (Some body) q st)"
proof -
  let ?f = "sync_frame q body"
  have len: "length ?f = 18" using assms by (simp add: sync_frame_def)
  have stx: "to_stx ?f = ?f" by (simp add: sync_frame_def to_stx_def)
  have info: "gw_srv_rx_frame_info ?f = Frame 18 14"
    using assms by (simp add: gw_srv_rx_frame_info_def sync_frame_def nth_append)
  have h: "hs_handle env ?f 14 st = (True, gw_apply_sync_and_rs232 env (Some body) q st)"
    using assms by (simp add: hs_handle_def sync_frame_def)
  have nil: "gw_process_frames_handshake env g [] s = (g, [], s)" for g s
    by (simp add: gw_process_frames_handshake.simps)
  show ?thesis
    by (subst gw_process_frames_handshake.simps) (simp add: Let_def len stx info h nil)
qed

lemma announce_first:
  assumes "sends_ok env" "nxt \<le> e_uptime env (gw_tick st)" "length connect_body \<le> GW_MAX_BODY"
  obtains nxt' st1 where "gw_announce env connect_body nxt st = (Some nxt', st1)"
    "gw_sent st1 = gw_sent st @ [GW_STX, GW_MSG_CONNECT, 0] @ connect_body @ [GW_ETX]"
    "gw_err st1 = gw_err st" "gw_gate st1 = gw_gate st" "gw_port st1 = gw_port st"
proof -
  let ?f = "[GW_STX, GW_MSG_CONNECT, 0] @ connect_body @ [GW_ETX]"
  obtain ok st1 where s: "gw_send_all env ?f (st\<lparr>gw_tick := gw_tick st + 1\<rparr>) = (ok, st1)" by fastforce
  have b: "gw_build_compact_tx GW_TX_FRAME_SIZE GW_MSG_CONNECT 0 connect_body = Inr ?f"
    using assms(3) by (simp add: gw_build_compact_tx_def Let_def)
  note o = gw_send_all_ok [OF assms(1) s]
  have "gw_announce env connect_body nxt st = (Some (e_uptime env (gw_tick st) + HANDSHAKE_POLL_MS), st1)"
    unfolding gw_announce_def Let_def b sum.case s using assms(2) o by simp
  with that o show thesis by simp
qed

lemma handshake_one_sync:
  assumes "sends_ok env" "nxt \<le> e_uptime env (gw_tick st)" "length connect_body \<le> GW_MAX_BODY"
    and "length body = 14"
  obtains st1 where
    "gw_tcp_handshake env connect_body nxt [] (Recv (sync_frame q body) # evs) st =
       (HsSync [] evs, gw_apply_sync_and_rs232 env (Some body) q st1)"
    "gw_sent st1 = gw_sent st @ [GW_STX, GW_MSG_CONNECT, 0] @ connect_body @ [GW_ETX]"
    "gw_err st1 = gw_err st" "gw_gate st1 = gw_gate st" "gw_port st1 = gw_port st"
proof -
  obtain nxt' st1 where a: "gw_announce env connect_body nxt st = (Some nxt', st1)"
    and e: "gw_sent st1 = gw_sent st @ [GW_STX, GW_MSG_CONNECT, 0] @ connect_body @ [GW_ETX]"
    "gw_err st1 = gw_err st" "gw_gate st1 = gw_gate st" "gw_port st1 = gw_port st"
    by (rule announce_first [OF assms(1-3)])
  have len: "length (sync_frame q body) = 18" "sync_frame q body \<noteq> []"
    using assms(4) by (simp_all add: sync_frame_def)
  have "gw_tcp_handshake env connect_body nxt [] (Recv (sync_frame q body) # evs) st =
      (HsSync [] evs, gw_apply_sync_and_rs232 env (Some body) q st1)"
    by (subst gw_tcp_handshake.simps)
      (simp add: a Let_def len process_sync_frame [OF assms(4)] leftover_def)
  with that e show thesis by blast
qed

text \<open>C20: A rejected SYNC still ends the handshake, and its error is forgotten: after a SYNC
  whose body fails the check the server has received the alarm and the negative
  acknowledgement, but the gateway serves the session with the error latch cleared, an unset
  clock and an unconfigured port.\<close>

theorem rejected_sync_opens_session:
  assumes "sends_ok env" "0 \<le> e_uptime env (gw_tick st)" "length connect_body \<le> GW_MAX_BODY"
    and "length body = 14" "gw_sync_body_check (e_timegm env) (Some body) \<noteq> GW_ERR_NONE"
  shows "\<exists>st'. gw_handle_client env connect_body [Recv (sync_frame q body)] st = (False, st') \<and>
    gw_err st' = GW_ERR_NONE \<and> gw_gate st' = gw_gate st \<and> gw_port st' = gw_port st \<and>
    gw_sent st' = gw_sent st @ ([GW_STX, GW_MSG_CONNECT, 0] @ connect_body @ [GW_ETX]) @
      [GW_STX, GW_MSG_ALARM, q, GW_ERR_INIT_CFG, GW_ETX] @ [GW_STX, GW_MSG_ACK, q, 0x01, GW_ETX]"
proof -
  obtain st1 where h: "gw_tcp_handshake env connect_body 0 [] [Recv (sync_frame q body)] st =
      (HsSync [] [], gw_apply_sync_and_rs232 env (Some body) q st1)"
    and e: "gw_sent st1 = gw_sent st @ [GW_STX, GW_MSG_CONNECT, 0] @ connect_body @ [GW_ETX]"
      "gw_err st1 = gw_err st" "gw_gate st1 = gw_gate st" "gw_port st1 = gw_port st"
    by (rule handshake_one_sync [OF assms(1-4)])
  have chk: "gw_sync_body_check (e_timegm env) (Some body) = GW_ERR_INIT_CFG"
    using assms(5) sync_body_check_range [of "e_timegm env" "Some body"] by auto
  have ap: "gw_apply_sync_and_rs232 env (Some body) q st1 =
      gw_send_ack env q 0x01 (gw_report_error env q GW_ERR_INIT_CFG st1)"
    using chk by (simp add: gw_apply_sync_and_rs232_def Let_def)
  have loop: "gw_session_loop env [] [] s = (False, [], s)" for s
    by (simp add: gw_session_loop.simps)
  have "GW_ERR_INIT_CFG \<noteq> GW_ERR_NONE" by simp
  note sent = send_ack_sent [OF assms(1)] report_error_sent [OF assms(1) this]
  show ?thesis
    unfolding gw_handle_client_def h prod.case hs_result.case loop Let_def ap
    by (simp add: sent gw_send_ack_keep gw_report_error_keep e gw_error_clear_def)
qed

theorem rejected_sync_opens_session_witness:
  "\<exists>st'. gw_handle_client sample_env [0x41, 1, 2, 0, 0] [Recv (sync_frame 3 (replicate 14 0))] gw_boot =
     (False, st') \<and> gw_err st' = GW_ERR_NONE \<and> \<not> sg_udp_allowed (gw_gate st')"
proof -
  have "gw_sync_body_check (e_timegm sample_env) (Some (replicate 14 0)) \<noteq> GW_ERR_NONE"
    unfolding sync_body_check_ok wire_time_ok_def by (simp add: sys_get_be16_def)
  from rejected_sync_opens_session [OF sends_ok_sample _ _ _ this, of gw_boot "[0x41, 1, 2, 0, 0]" 3]
  show ?thesis by (auto simp: gw_boot_def sample_env_def sg_init_def sg_udp_allowed_def)
qed

end
