(* ===== verification/Tcp_Steps.thy ===== *)
theory Tcp_Steps
  imports Tcp_Gateway
begin

text \<open>
  A TCP connection of \<^verbatim>\<open>src/tcp_gateway.c\<close> from one \<open>zsock_poll\<close> to the next.  The loops of
  theory \<open>Tcp_Gateway\<close> run a whole connection; the other tasks of the board run while this one
  waits in \<open>zsock_poll\<close>, so here the same code is one step per poll, \<open>tcp_event\<close>, and the loops
  are shown to be sequences of such steps.  The locale \<open>gateway_inv\<close> has the effects an
  invariant must be kept by and proves that then every operation keeps it.
\<close>

section \<open>The invariant over a whole connection\<close>

text \<open>A property of the gateway's state that every elementary effect keeps: a byte sent or a
  platform call made, a change of the latch, a transaction, a clock set from a checked body, a
  reconfigured port.\<close>

locale gateway_inv =
  fixes env :: gw_env
    and I :: "gw_state \<Rightarrow> bool"
  assumes inv_socket: "I st \<Longrightarrow> I (st\<lparr>gw_sent := out, gw_tick := t\<rparr>)"
    and inv_set: "I st \<Longrightarrow> I (st\<lparr>gw_err := gw_error_set code (gw_err st)\<rparr>)"
    and inv_clear: "I st \<Longrightarrow> I (st\<lparr>gw_err := gw_error_clear (gw_err st)\<rparr>)"
    and inv_txrx: "I st \<Longrightarrow> gw_txrx env body st = (r, st') \<Longrightarrow> I st'"
    and inv_notify: "I st \<Longrightarrow> gw_sync_body_check (e_timegm env) (Some body) = GW_ERR_NONE \<Longrightarrow>
      I (st\<lparr>gw_gate := sg_timesync_from_tcp_notify (e_timegm env) u (Some (take 9 body)) (gw_gate st)\<rparr>)"
    and inv_reconf: "I st \<Longrightarrow>
      rs232_reconfigure rc GW_RS232_DATA_PORT (Some (sync_remote_cfg body)) (gw_port st) = (ok, port) \<Longrightarrow>
      I (st\<lparr>gw_port := port\<rparr>)"

context gateway_inv begin

lemma inv_tick: "I st \<Longrightarrow> I (st\<lparr>gw_tick := t\<rparr>)"
  using inv_socket [where st = st and out = "gw_sent st" and t = t] by simp

lemma send_all_inv: "I st \<Longrightarrow> I (snd (gw_send_all env p st))"
proof -
  assume i: "I st"
  obtain ok st' where s: "gw_send_all env p st = (ok, st')" by fastforce
  have "st' = st\<lparr>gw_sent := gw_sent st', gw_tick := gw_tick st'\<rparr>"
    using gw_send_all_keep [OF s] by simp
  then show ?thesis using inv_socket [OF i, where out = "gw_sent st'" and t = "gw_tick st'"] s by simp
qed

lemma report_error_inv: "I st \<Longrightarrow> I (gw_report_error env seq code st)"
  by (simp add: gw_report_error_def gw_tcp_send_alarm_def compact_1 send_all_inv inv_set)

lemma send_ack_inv: "I st \<Longrightarrow> I (gw_send_ack env seq r st)"
  by (simp add: gw_send_ack_def compact_1 send_all_inv)

lemma comm_error_inv: "I st \<Longrightarrow> I (tcp_comm_error st)"
  by (simp add: tcp_comm_error_def inv_set)

lemma apply_sync_inv:
  assumes "I st"
  shows "I (gw_apply_sync_and_rs232 env bodyp seq st)"
proof (cases "\<exists>body. bodyp = Some body \<and> length body = 14 \<and>
    gw_sync_body_check (e_timegm env) (Some body) = GW_ERR_NONE")
  case False
  with assms show ?thesis
    by (auto simp: gw_apply_sync_and_rs232_def Let_def send_ack_inv report_error_inv split: option.split)
next
  case True
  then obtain body where b: "bodyp = Some body" "length body = 14"
    "gw_sync_body_check (e_timegm env) (Some body) = GW_ERR_NONE"
    by blast
  let ?st1 = "st\<lparr>gw_gate := sg_timesync_from_tcp_notify (e_timegm env) (e_uptime env (gw_tick st))
      (Some (take 9 body)) (gw_gate st), gw_tick := gw_tick st + 1\<rparr>"
  have i1: "I ?st1" using inv_tick [OF inv_notify [OF assms b(3)]] .
  obtain ok port where r: "rs232_reconfigure (e_reconf env (gw_tick ?st1)) GW_RS232_DATA_PORT
      (Some (sync_remote_cfg body)) (gw_port ?st1) = (ok, port)"
    by fastforce
  let ?st2 = "?st1\<lparr>gw_port := port, gw_tick := gw_tick ?st1 + 1\<rparr>"
  have i2: "I ?st2" using inv_tick [OF inv_reconf [OF i1 r]] .
  have "gw_apply_sync_and_rs232 env bodyp seq st =
      (if ok then gw_send_ack env seq 0x00 (?st2\<lparr>gw_err := gw_error_clear (gw_err ?st2)\<rparr>)
       else gw_send_ack env seq 0x01 (gw_report_error env seq GW_ERR_INIT_CFG ?st2))"
    using b r by (simp add: gw_apply_sync_and_rs232_def Let_def)
  then show ?thesis
    using send_ack_inv [OF inv_clear [OF i2]] send_ack_inv [OF report_error_inv [OF i2]] by simp
qed

lemma retry_inv:
  "modbus_retry (gw_txrx env body) gw_clear_no_response k mbr st = (r, st') \<Longrightarrow> I st \<Longrightarrow> I st'"
proof (induction k arbitrary: st mbr)
  case (Suc k)
  obtain r1 st1 where t: "gw_txrx env body st = (r1, st1)" by fastforce
  have i1: "I st1" by (rule inv_txrx [OF Suc.prems(2) t])
  then have "I (gw_clear_no_response st1)" by (simp add: gw_clear_no_response_def inv_clear)
  with Suc t i1 show ?case by (auto split: sum.splits if_splits)
qed simp

lemma modbus_request_inv:
  assumes "I st"
  shows "I (gw_modbus_request env body seq st)"
proof -
  obtain r st1 where rt: "modbus_retry (gw_txrx env body) gw_clear_no_response GW_RS232_MODBUS_RETRIES
      (Inl ETIMEDOUT) st = (r, st1)"
    by fastforce
  have "I st1" by (rule retry_inv [OF rt assms])
  then show ?thesis
    unfolding gw_modbus_request_def rt by (auto simp: report_error_inv send_all_inv inv_tick split: sum.split)
qed

lemma hs_handle_inv: "I st \<Longrightarrow> I (snd (hs_handle env f bl st))"
  by (simp add: hs_handle_def Let_def apply_sync_inv)

lemma sess_handle_inv: "I st \<Longrightarrow> I (sess_handle env f bl st)"
  by (simp add: sess_handle_def Let_def apply_sync_inv modbus_request_inv split: option.split)

lemma announce_inv:
  assumes "I st" "gw_announce env c nxt st = (res, st')"
  shows "I st'"
proof -
  have "I (snd (gw_send_all env f (st\<lparr>gw_tick := t\<rparr>)))" for f t
    by (rule send_all_inv [OF inv_tick [OF assms(1)]])
  then show ?thesis
    using assms(2) inv_tick [OF assms(1)] unfolding gw_announce_def Let_def
    by (auto split: if_splits sum.splits prod.splits) (metis snd_conv)+
qed

end

sublocale gateway_inv \<subseteq> sess_frames: event_task "\<lambda>f. True" I "\<lambda>f. sess_handle env f (length f - 6)"
  by unfold_locales (rule sess_handle_inv)

sublocale gateway_inv \<subseteq> hs_frames: event_task "\<lambda>f. True" "\<lambda>p. I (snd p)"
    "\<lambda>f (g, st). let (sync, st') = hs_handle env f (length f - 4) st in (g \<or> sync, st')"
proof unfold_locales
  fix f :: bytes and p :: "bool \<times> gw_state"
  assume "I (snd p)"
  then show "I (snd ((\<lambda>(g, st). let (sync, st') = hs_handle env f (length f - 4) st in (g \<or> sync, st')) p))"
    using hs_handle_inv [of "snd p" f "length f - 4"] by (simp add: split_beta Let_def)
qed

context gateway_inv begin

lemma session_frames_inv:
  assumes "I st" "gw_session_frames env rbuf st = (r', st')"
  shows "I st' \<and> length r' < 262"
proof -
  obtain fs r where c: "cut_stream 6 gw_srv_sess_rx_frame_info rbuf = (fs, r)" by fastforce
  show ?thesis
    using session_frames_fold [OF assms(2) c] sess_frames.run_inv [OF _ assms(1), of fs] by (simp add: list_all_iff)
qed

lemma handshake_frames_inv:
  assumes "I st" "gw_process_frames_handshake env g rbuf st = (g', r', st')"
  shows "I st' \<and> length r' < 260"
proof -
  obtain fs r where c: "cut_stream 3 gw_srv_rx_frame_info rbuf = (fs, r)" by fastforce
  show ?thesis
    using handshake_frames_fold [OF assms(2) c] hs_frames.run_inv [of fs "(g, st)"] assms(1)
    unfolding hs_fold_def by (simp add: list_all_iff) (metis snd_conv)
qed

end

section \<open>One poll at a time\<close>

text \<open>Where the connection is: none, waiting in the handshake's poll with the time of the next
  CONNECT and the bytes received, or waiting in the session's poll.\<close>

datatype tcp_phase = Idle | Handshake int bytes | Session bytes

text \<open>The head of the handshake's loop, up to its poll.  A failure there, or anywhere in the
  handshake, is recorded by \<open>gw_tcp_handshake\<close> and again by \<open>gw_handle_client\<close>.\<close>

definition handshake_failed :: "gw_state \<Rightarrow> tcp_phase \<times> gw_state" where
  "handshake_failed st = (Idle, tcp_comm_error (tcp_comm_error st))"

definition tcp_await_sync :: "gw_env \<Rightarrow> bytes \<Rightarrow> int \<Rightarrow> bytes \<Rightarrow> gw_state \<Rightarrow> tcp_phase \<times> gw_state" where
  "tcp_await_sync env connect_body next_send_ms rbuf st =
     (case gw_announce env connect_body next_send_ms st of
        (None, st1) \<Rightarrow> handshake_failed st1
      | (Some nxt, st1) \<Rightarrow> (Handshake nxt rbuf, st1))"

definition tcp_open :: "gw_env \<Rightarrow> bytes \<Rightarrow> gw_state \<Rightarrow> tcp_phase \<times> gw_state" where
  "tcp_open env connect_body st = tcp_await_sync env connect_body 0 [] st"

definition handshake_event ::
    "gw_env \<Rightarrow> bytes \<Rightarrow> sock_event \<Rightarrow> int \<Rightarrow> bytes \<Rightarrow> gw_state \<Rightarrow> tcp_phase \<times> gw_state" where
  "handshake_event env connect_body ev nxt rbuf st =
     (case ev of
        PollError \<Rightarrow> handshake_failed st
      | PollTimeout \<Rightarrow> tcp_await_sync env connect_body nxt rbuf st
      | PeerGone \<Rightarrow> handshake_failed st
      | PollOther \<Rightarrow> tcp_await_sync env connect_body nxt rbuf st
      | RecvError \<Rightarrow> handshake_failed st
      | Recv data \<Rightarrow>
          let rbuf1 = (if length rbuf \<ge> GW_RX_BUF_SIZE then [] else rbuf);
              room = GW_RX_BUF_SIZE - length rbuf1
          in if data = [] then handshake_failed st
             else
               let (got_sync, rbuf2, st2) =
                     gw_process_frames_handshake env False (rbuf1 @ take room data) st
               in if got_sync then (Session rbuf2, st2\<lparr>gw_err := gw_error_clear (gw_err st2)\<rparr>)
                  else tcp_await_sync env connect_body nxt rbuf2 st2)"

definition session_event :: "gw_env \<Rightarrow> sock_event \<Rightarrow> bytes \<Rightarrow> gw_state \<Rightarrow> tcp_phase \<times> gw_state" where
  "session_event env ev rbuf st =
     (let rbuf1 = (if length rbuf \<ge> GW_RX_BUF_SIZE then [] else rbuf)
      in case ev of
           PollError \<Rightarrow> (Idle, tcp_comm_error st)
         | PollTimeout \<Rightarrow> (Session rbuf1, st)
         | PeerGone \<Rightarrow> (Idle, tcp_comm_error st)
         | PollOther \<Rightarrow> (Session rbuf1, st)
         | RecvError \<Rightarrow> (Idle, tcp_comm_error st)
         | Recv data \<Rightarrow>
             let room = GW_RX_BUF_SIZE - length rbuf1
             in if data = [] then (Idle, tcp_comm_error st)
                else let (rbuf2, st2) = gw_session_frames env (rbuf1 @ take room data) st
                     in (Session rbuf2, st2))"

text \<open>A closed connection has no socket any more, nothing happens on it.\<close>

fun tcp_event :: "gw_env \<Rightarrow> bytes \<Rightarrow> sock_event \<Rightarrow> tcp_phase \<times> gw_state \<Rightarrow> tcp_phase \<times> gw_state" where
  "tcp_event env connect_body ev (Idle, st) = (Idle, st)"
| "tcp_event env connect_body ev (Handshake nxt rbuf, st) = handshake_event env connect_body ev nxt rbuf st"
| "tcp_event env connect_body ev (Session rbuf, st) = session_event env ev rbuf st"

text \<open>The sizes of the buffer in the phases.\<close>

fun phase_ok :: "tcp_phase \<Rightarrow> bool" where
  "phase_ok Idle \<longleftrightarrow> True"
| "phase_ok (Handshake nxt rbuf) \<longleftrightarrow> length rbuf < 260"
| "phase_ok (Session rbuf) \<longleftrightarrow> length rbuf < 262"

lemma event_idle [simp]: "fold (tcp_event env c) evs (Idle, st) = (Idle, st)"
  by (induction evs) simp_all

section \<open>The loops are sequences of polls\<close>

text \<open>What the socket holds, read in more than one \<open>zsock_recv\<close>: \<open>reads evs' evs\<close> when \<open>evs'\<close> is
  \<open>evs\<close> with the data of some events cut into several non-empty pieces.\<close>

inductive reads :: "sock_event list \<Rightarrow> sock_event list \<Rightarrow> bool" where
  Nil: "reads [] []"
| Same: "reads evs' evs \<Longrightarrow> reads (ev # evs') (ev # evs)"
| Split: "reads evs' (Recv b # evs) \<Longrightarrow> a \<noteq> [] \<Longrightarrow> b \<noteq> [] \<Longrightarrow> reads (Recv a # evs') (Recv (a @ b) # evs)"

lemma reads_refl: "reads evs evs"
  by (induction evs) (auto intro: reads.intros)

lemma reads_bytes: "reads evs' evs \<Longrightarrow> concat (map event_bytes evs') = concat (map event_bytes evs)"
  by (induction rule: reads.induct) auto

lemma reads_leftover:
  assumes "0 < room" "data \<noteq> []" "reads rest (leftover room data evs)"
  shows "reads (Recv (take room data) # rest) (Recv data # evs)"
proof (cases "length data > room")
  case True
  then have "reads (Recv (take room data) # rest) (Recv (take room data @ drop room data) # evs)"
    using assms by (intro Split) (auto simp: leftover_def)
  then show ?thesis by simp
next
  case False
  then show ?thesis using assms(3) by (auto simp: leftover_def intro: Same)
qed

lemma session_loop_steps:
  "gw_session_loop env rbuf evs st = (over, r', st') \<Longrightarrow> length rbuf < 262 \<Longrightarrow>
     length r' < 262 \<and> (\<exists>evs'. reads evs' evs \<and>
       fold (tcp_event env c) evs' (Session rbuf, st) = (if over then Idle else Session r', st'))"
proof (induction env rbuf evs st rule: gw_session_loop.induct)
  case (1 env rbuf evs st)
  have buf: "(if length rbuf \<ge> GW_RX_BUF_SIZE then [] else rbuf) = rbuf" using "1.prems"(2) by simp
  show ?case
  proof (cases evs)
    case Nil
    with "1.prems" show ?thesis by (auto simp: gw_session_loop.simps [of env rbuf] intro: reads.Nil)
  next
    case (Cons ev evs')
    note loop = "1.prems"(1) [unfolded Cons gw_session_loop.simps [of env rbuf "ev # evs'"] list.case Let_def buf]
    have quiet: ?thesis if ev: "ev \<in> {PollTimeout, PollOther}" and ih:
      "length r' < 262 \<and> (\<exists>es. reads es evs' \<and>
         fold (tcp_event env c) es (Session rbuf, st) = (if over then Idle else Session r', st'))"
    proof -
      obtain es where "reads es evs'"
        "fold (tcp_event env c) es (Session rbuf, st) = (if over then Idle else Session r', st')"
        using ih by blast
      then have "reads (ev # es) evs \<and>
          fold (tcp_event env c) (ev # es) (Session rbuf, st) = (if over then Idle else Session r', st')"
        using ev buf by (auto simp: Cons session_event_def intro: Same)
      then show ?thesis using ih by blast
    qed
    consider "ev = PollTimeout" | "ev = PollOther" | data where "ev = Recv data" "data \<noteq> []"
      | "ev \<in> {PollError, PeerGone, RecvError, Recv []}"
      by (cases ev) auto
    then show ?thesis
    proof cases
      case 1
      with "1.IH"(1) [OF Cons refl 1, unfolded buf] loop "1.prems"(2) show ?thesis by (intro quiet) auto
    next
      case 2
      with "1.IH"(2) [OF Cons refl 2, unfolded buf] loop "1.prems"(2) show ?thesis by (intro quiet) auto
    next
      case (3 data)
      let ?room = "GW_RX_BUF_SIZE - length rbuf"
      obtain r2 st2 where s: "gw_session_frames env (rbuf @ take ?room data) st = (r2, st2)"
        by fastforce
      obtain fs r where "cut_stream 6 gw_srv_sess_rx_frame_info (rbuf @ take ?room data) = (fs, r)" by fastforce
      then have l2: "length r2 < 262" using session_frames_fold [OF s] by blast
      have "gw_session_loop env r2 (leftover ?room data evs') st2 = (over, r', st')"
        using loop 3 s by simp
      with "1.IH"(3) [OF Cons refl 3(1), unfolded buf] 3(2) s [symmetric] l2 obtain es where
        es: "length r' < 262" "reads es (leftover ?room data evs')"
          "fold (tcp_event env c) es (Session r2, st2) = (if over then Idle else Session r', st')"
        by blast
      have room: "0 < ?room" using "1.prems"(2) by simp
      have "session_event env (Recv (take ?room data)) rbuf st = (Session r2, st2)"
        using 3(2) room s by (simp add: session_event_def buf)
      then show ?thesis
        using es reads_leftover [OF room 3(2) es(2)]
        by (intro conjI exI [of _ "Recv (take ?room data) # es"]) (simp_all add: Cons 3(1))
    next
      case 4
      then have "session_event env ev rbuf st = (Idle, tcp_comm_error st)"
        by (auto simp: session_event_def)
      with loop "1.prems"(2) 4 show ?thesis
        by (auto intro!: exI [of _ evs] simp: reads_refl Cons)
    qed
  qed
qed

text \<open>The end of a handshake in both forms.  After a SYNC the events \<open>used\<close> have been consumed,
  and what follows is read from the rest.\<close>

definition handshake_steps ::
    "gw_env \<Rightarrow> bytes \<Rightarrow> sock_event list \<Rightarrow> tcp_phase \<times> gw_state \<Rightarrow> hs_result \<times> gw_state \<Rightarrow> bool" where
  "handshake_steps env c evs p res \<longleftrightarrow>
     (case res of
        (HsFail, st') \<Rightarrow>
          (\<exists>es. reads es evs \<and> fold (tcp_event env c) es p = (Idle, tcp_comm_error st'))
      | (HsWaiting, st') \<Rightarrow>
          (\<exists>es n r. reads es evs \<and> fold (tcp_event env c) es p = (Handshake n r, st'))
      | (HsSync r evs', st') \<Rightarrow> length r < 260 \<and>
          (\<exists>used. (\<forall>rest. reads rest evs' \<longrightarrow> reads (used @ rest) evs) \<and>
             fold (tcp_event env c) used p = (Session r, st'\<lparr>gw_err := gw_error_clear (gw_err st')\<rparr>)))"

lemma handshake_steps_Cons:
  assumes "handshake_steps env c evs' (tcp_event env c ev p) res"
    and "\<And>rest. reads rest evs' \<Longrightarrow> reads (ev # rest) evs"
  shows "handshake_steps env c evs p res"
proof -
  obtain h st' where res: "res = (h, st')" by (cases res)
  have f: "fold (tcp_event env c) (ev # es) p = fold (tcp_event env c) es (tcp_event env c ev p)" for es
    by simp
  show ?thesis
  proof (cases h)
    case (HsSync r rest)
    then obtain used where u: "length r < 260" "\<forall>more'. reads more' rest \<longrightarrow> reads (used @ more') evs'"
      "fold (tcp_event env c) used (tcp_event env c ev p) = (Session r, st'\<lparr>gw_err := gw_error_clear (gw_err st')\<rparr>)"
      using assms(1) unfolding handshake_steps_def res by auto
    then have "\<forall>more'. reads more' rest \<longrightarrow> reads ((ev # used) @ more') evs" using assms(2) by simp
    moreover note u(3) [folded f]
    ultimately show ?thesis unfolding handshake_steps_def res HsSync prod.case hs_result.case using u(1) by blast
  next
    case HsFail
    then obtain es where "reads es evs'" "fold (tcp_event env c) (ev # es) p = (Idle, tcp_comm_error st')"
      using assms(1) unfolding handshake_steps_def res f by auto
    then show ?thesis unfolding handshake_steps_def res HsFail prod.case hs_result.case using assms(2) by blast
  next
    case HsWaiting
    then obtain es n r where "reads es evs'" "fold (tcp_event env c) (ev # es) p = (Handshake n r, st')"
      using assms(1) unfolding handshake_steps_def res f by auto
    then show ?thesis unfolding handshake_steps_def res HsWaiting prod.case hs_result.case using assms(2) by blast
  qed
qed

lemma handshake_loop_steps:
  "gw_tcp_handshake env c nxt rbuf evs st = res \<Longrightarrow> length rbuf < 260 \<Longrightarrow>
     handshake_steps env c evs (tcp_await_sync env c nxt rbuf st) res"
proof (induction env c nxt rbuf evs st rule: gw_tcp_handshake.induct)
  case (1 env c nxt rbuf evs st)
  have buf: "(if length rbuf \<ge> GW_RX_BUF_SIZE then [] else rbuf) = rbuf" using "1.prems"(2) by simp
  obtain o1 st1 where a: "gw_announce env c nxt st = (o1, st1)" by fastforce
  note loop = "1.prems"(1) [unfolded gw_tcp_handshake.simps [of env c nxt rbuf evs] a prod.case]
  have failed: "handshake_steps env c evs (handshake_failed s) (HsFail, tcp_comm_error s)" for s evs
    by (auto simp: handshake_steps_def handshake_failed_def intro: reads_refl)
  show ?case
  proof (cases o1)
    case None
    with loop failed [of evs st1] show ?thesis by (simp add: tcp_await_sync_def a)
  next
    case (Some n1)
    have here: "tcp_await_sync env c nxt rbuf st = (Handshake n1 rbuf, st1)"
      by (simp add: tcp_await_sync_def a Some)
    note a' = a [unfolded Some, symmetric]
    show ?thesis
    proof (cases evs)
      case Nil
      with loop Some show ?thesis unfolding here by (auto simp: handshake_steps_def intro!: exI [of _ "[]"] reads.Nil)
    next
      case (Cons ev evs')
      have same: "reads rest evs' \<Longrightarrow> reads (ev # rest) evs" for rest by (simp add: Cons Same)
      consider "ev = PollTimeout" | "ev = PollOther" | data where "ev = Recv data" "data \<noteq> []"
        | "ev \<in> {PollError, PeerGone, RecvError, Recv []}"
        by (cases ev) auto
      then show ?thesis
      proof cases
        case 1
        have "gw_tcp_handshake env c n1 rbuf evs' st1 = res" using loop Some Cons 1 by simp
        from "1.IH"(1) [OF a' refl Cons 1 this "1.prems"(2)] show ?thesis
          unfolding here by (intro handshake_steps_Cons [OF _ same]) (simp add: 1 handshake_event_def)
      next
        case 2
        have "gw_tcp_handshake env c n1 rbuf evs' st1 = res" using loop Some Cons 2 by simp
        from "1.IH"(2) [OF a' refl Cons 2 this "1.prems"(2)] show ?thesis
          unfolding here by (intro handshake_steps_Cons [OF _ same]) (simp add: 2 handshake_event_def)
      next
        case (3 data)
        let ?room = "GW_RX_BUF_SIZE - length rbuf"
        obtain g r2 st2 where s: "gw_process_frames_handshake env False (rbuf @ take ?room data) st1 = (g, r2, st2)"
          by (rule prod_cases3)
        obtain fs r where "cut_stream 3 gw_srv_rx_frame_info (rbuf @ take ?room data) = (fs, r)" by fastforce
        then have l2: "length r2 < 260" using handshake_frames_fold [OF s] by blast
        have room: "0 < ?room" using "1.prems"(2) by simp
        have rd: "reads rest (leftover ?room data evs') \<Longrightarrow> reads (Recv (take ?room data) # rest) evs" for rest
          unfolding Cons 3(1) by (rule reads_leftover [OF room 3(2)])
        have e: "handshake_event env c (Recv (take ?room data)) n1 rbuf st1 =
            (if g then (Session r2, st2\<lparr>gw_err := gw_error_clear (gw_err st2)\<rparr>) else tcp_await_sync env c n1 r2 st2)"
          using 3(2) room s by (simp add: handshake_event_def buf)
        show ?thesis
        proof (cases g)
          case True
          have "res = (HsSync r2 (leftover ?room data evs'), st2)"
            using loop Some Cons 3 s True by (simp add: buf Let_def)
          then show ?thesis unfolding here
            by (intro handshake_steps_Cons [OF _ rd])
              (auto simp: e True handshake_steps_def l2 intro!: exI [of _ "[]"])
        next
          case False
          have "gw_tcp_handshake env c n1 r2 (leftover ?room data evs') st2 = res"
            using loop Some Cons 3 s False by (simp add: buf Let_def)
          with "1.IH"(3) [OF a' refl Cons 3(1), unfolded buf] 3(2) s [symmetric] l2 False
          have "handshake_steps env c (leftover ?room data evs') (tcp_await_sync env c n1 r2 st2) res" by blast
          then show ?thesis unfolding here by (intro handshake_steps_Cons [OF _ rd]) (simp add: e False)
        qed
      next
        case 4
        then have "res = (HsFail, tcp_comm_error st1)" "handshake_event env c ev n1 rbuf st1 = handshake_failed st1"
          using loop Some Cons by (auto simp: handshake_event_def)
        with failed [of evs' st1] show ?thesis
          unfolding here by (intro handshake_steps_Cons [OF _ same]) simp
      qed
    qed
  qed
qed

lemma connection_steps:
  assumes "gw_handle_client env connect_body evs st = (over, st')"
  shows "\<exists>evs' phase. reads evs' evs \<and>
    fold (tcp_event env connect_body) evs' (tcp_open env connect_body st) = (phase, st') \<and>
    (over \<longleftrightarrow> phase = Idle)"
proof -
  obtain h st1 where h: "gw_tcp_handshake env connect_body 0 [] evs st = (h, st1)" by fastforce
  have s: "handshake_steps env connect_body evs (tcp_open env connect_body st) (h, st1)"
    unfolding tcp_open_def by (rule handshake_loop_steps [OF h]) simp
  show ?thesis
  proof (cases h)
    case (HsSync r rest)
    let ?st1 = "st1\<lparr>gw_err := gw_error_clear (gw_err st1)\<rparr>"
    obtain used where u: "length r < 260" "\<And>es. reads es rest \<Longrightarrow> reads (used @ es) evs"
      "fold (tcp_event env connect_body) used (tcp_open env connect_body st) = (Session r, ?st1)"
      using s by (auto simp: handshake_steps_def HsSync)
    obtain b r' st2 where l: "gw_session_loop env r rest ?st1 = (b, r', st2)" by (rule prod_cases3)
    have "length r < 262" using u(1) by simp
    from session_loop_steps [OF l this, of connect_body] obtain es where es: "reads es rest"
      "fold (tcp_event env connect_body) es (Session r, ?st1) = (if b then Idle else Session r', st2)"
      by blast
    have e: "over = b" "st' = st2" using assms by (simp_all add: gw_handle_client_def h HsSync l)
    show ?thesis
      using u(2) [OF es(1)] u(3) es(2)
      by (intro exI [of _ "used @ es"] exI [of _ "if b then Idle else Session r'"]) (simp add: e)
  next
    case HsFail
    then show ?thesis using s assms by (auto simp: handshake_steps_def gw_handle_client_def h)
  next
    case HsWaiting
    then show ?thesis using s assms by (fastforce simp: handshake_steps_def gw_handle_client_def h)
  qed
qed


lemma sample_announce: "\<exists>n st1. gw_announce sample_env [0x41] m st = (Some n, st1)"
proof -
  have "fst (gw_send_all sample_env p st)" for p st
    using gw_send_all_ok [OF sends_ok_sample] by (metis fst_conv surj_pair)
  then show ?thesis by (auto simp: gw_announce_def Let_def gw_build_compact_tx_def split: prod.split)
    (metis fst_conv)
qed


section \<open>Invariants between the polls\<close>

context gateway_inv begin

lemma await_sync_inv:
  "I st \<Longrightarrow> length rbuf < 260 \<Longrightarrow> tcp_await_sync env c nxt rbuf st = (ph, st') \<Longrightarrow> I st' \<and> phase_ok ph"
  by (auto simp: tcp_await_sync_def handshake_failed_def comm_error_inv dest: announce_inv
      split: prod.splits option.splits)

lemma open_inv: "I st \<Longrightarrow> tcp_open env c st = (ph, st') \<Longrightarrow> I st' \<and> phase_ok ph"
  using await_sync_inv [of st "[]"] by (simp add: tcp_open_def)

lemma handshake_event_inv:
  assumes "I st" "length rbuf < 260" "handshake_event env c ev nxt rbuf st = (ph, st')"
  shows "I st' \<and> phase_ok ph"
proof (cases "\<exists>data. ev = Recv data \<and> data \<noteq> []")
  case True
  then obtain data where data: "ev = Recv data" "data \<noteq> []" by blast
  have buf: "(if length rbuf \<ge> GW_RX_BUF_SIZE then [] else rbuf) = rbuf" using assms(2) by simp
  obtain g r2 st2 where s: "gw_process_frames_handshake env False
      (rbuf @ take (GW_RX_BUF_SIZE - length rbuf) data) st = (g, r2, st2)"
    by (rule prod_cases3)
  note f = handshake_frames_inv [OF assms(1) s]
  have e: "(ph, st') = (if g then (Session r2, st2\<lparr>gw_err := gw_error_clear (gw_err st2)\<rparr>)
      else tcp_await_sync env c nxt r2 st2)"
    using assms(3) data s by (simp add: handshake_event_def buf)
  show ?thesis
  proof (cases g)
    case True
    with e f show ?thesis by (simp add: inv_clear)
  next
    case False
    with e f await_sync_inv [of st2 r2 c nxt ph st'] show ?thesis by simp
  qed
next
  case False
  then show ?thesis
    using assms await_sync_inv [OF assms(1,2), of c nxt ph st']
    by (cases ev) (auto simp: handshake_event_def handshake_failed_def comm_error_inv)
qed

lemma session_event_inv:
  assumes "I st" "length rbuf < 262" "session_event env ev rbuf st = (ph, st')"
  shows "I st' \<and> phase_ok ph"
proof (cases "\<exists>data. ev = Recv data \<and> data \<noteq> []")
  case True
  then obtain data where data: "ev = Recv data" "data \<noteq> []" by blast
  obtain r2 st2 where s: "gw_session_frames env (rbuf @ take (GW_RX_BUF_SIZE - length rbuf) data) st = (r2, st2)"
    by fastforce
  then show ?thesis
    using assms(2,3) data session_frames_inv [OF assms(1) s] by (auto simp: session_event_def)
next
  case False
  then show ?thesis
    using assms by (cases ev) (auto simp: session_event_def comm_error_inv split: if_splits)
qed

lemma tcp_event_inv:
  assumes "I (snd p) \<and> phase_ok (fst p)"
  shows "I (snd (tcp_event env c ev p)) \<and> phase_ok (fst (tcp_event env c ev p))"
proof -
  obtain ph st where p: "p = (ph, st)" by (cases p)
  obtain ph' st' where e: "tcp_event env c ev p = (ph', st')" by fastforce
  show ?thesis
  proof (cases ph)
    case Idle
    with assms e p show ?thesis by auto
  next
    case (Handshake n r)
    with assms e p handshake_event_inv [of st r c ev n ph' st'] show ?thesis by simp
  next
    case (Session r)
    with assms e p session_event_inv [of st r ev ph' st'] show ?thesis by simp
  qed
qed

end

sublocale gateway_inv \<subseteq> polls: event_task "\<lambda>ev. True" "\<lambda>p. I (snd p) \<and> phase_ok (fst p)" "tcp_event env c" for c
  by unfold_locales (rule tcp_event_inv)

context gateway_inv begin

lemma handle_client_inv: "I st \<Longrightarrow> I (snd (gw_handle_client env c evs st))"
proof -
  assume i: "I st"
  obtain over st' where h: "gw_handle_client env c evs st = (over, st')" by fastforce
  obtain p where o: "tcp_open env c st = p" "I (snd p) \<and> phase_ok (fst p)"
    using open_inv [OF i] by (metis prod.collapse)
  obtain es ph where "fold (tcp_event env c) es p = (ph, st')"
    using connection_steps [OF h] o(1) by blast
  then show ?thesis using polls.run_inv [OF _ o(2), of es c] h by (simp add: list_all_iff)
qed

end

section \<open>The state of the gateway\<close>

text \<open>The invariant of theory \<open>Tcp_Gateway\<close> is kept by the elementary effects.\<close>

interpretation gw: gateway_inv env gw_wf for env
proof unfold_locales
  fix st :: gw_state and body :: bytes and u :: int
  assume "gw_wf st" "gw_sync_body_check (e_timegm env) (Some body) = GW_ERR_NONE"
  then show "gw_wf (st\<lparr>gw_gate := sg_timesync_from_tcp_notify (e_timegm env) u (Some (take 9 body)) (gw_gate st)\<rparr>)"
    by (simp add: gw_wf_def gate_wf_notify)
next
  fix st :: gw_state and rc cfg ok port
  assume "gw_wf st" "rs232_reconfigure rc GW_RS232_DATA_PORT (Some cfg) (gw_port st) = (ok, port)"
  then show "gw_wf (st\<lparr>gw_port := port\<rparr>)"
    using reconfigure_wf [of "gw_port st" rc 1 "Some cfg" ok port] by (simp add: gw_wf_def)
qed (auto simp: gw_wf_def dest: gw_txrx_spec)



text \<open>A stronger one: an open gate stands for a clock that was set from a body the check
  accepted.\<close>

definition clock_from_sync :: "(tm \<Rightarrow> int) \<Rightarrow> sync_gate \<Rightarrow> bool" where
  "clock_from_sync timegm g \<longleftrightarrow>
     (sg_udp_allowed g \<longrightarrow>
        (\<exists>body u cl. gw_sync_body_check timegm (Some body) = GW_ERR_NONE \<and>
           sg_clock g = time_sync_from_tcp_timesync_body timegm u (Some body) cl))"

definition gw_synced :: "(tm \<Rightarrow> int) \<Rightarrow> gw_state \<Rightarrow> bool" where
  "gw_synced timegm st \<longleftrightarrow> gw_wf st \<and> clock_from_sync timegm (gw_gate st)"

lemma clock_from_sync_init [simp]: "clock_from_sync timegm sg_init"
  by (simp add: clock_from_sync_def sg_init_def sg_udp_allowed_def)

lemma clock_from_sync_notify:
  assumes "gw_sync_body_check timegm (Some body) = GW_ERR_NONE"
  shows "clock_from_sync timegm (sg_timesync_from_tcp_notify timegm u (Some (take 9 body)) g)"
proof -
  have "9 \<le> length body" using assms unfolding sync_body_check_ok by simp
  with assms show ?thesis
    by (auto simp: clock_from_sync_def sg_timesync_from_tcp_notify_def time_sync_take_9)
qed

interpretation synced: gateway_inv env "gw_synced (e_timegm env)" for env
proof unfold_locales
  fix st :: gw_state and body :: bytes and u :: int
  assume "gw_synced (e_timegm env) st" "gw_sync_body_check (e_timegm env) (Some body) = GW_ERR_NONE"
  then show "gw_synced (e_timegm env) (st\<lparr>gw_gate :=
      sg_timesync_from_tcp_notify (e_timegm env) u (Some (take 9 body)) (gw_gate st)\<rparr>)"
    using gw.inv_notify [of st env body u] by (simp add: gw_synced_def clock_from_sync_notify)
next
  fix st :: gw_state and rc body ok port
  assume "gw_synced (e_timegm env) st"
    "rs232_reconfigure rc GW_RS232_DATA_PORT (Some (sync_remote_cfg body)) (gw_port st) = (ok, port)"
  then show "gw_synced (e_timegm env) (st\<lparr>gw_port := port\<rparr>)"
    using gw.inv_reconf [of st rc body ok port] by (simp add: gw_synced_def)
next
  fix st st' :: gw_state and body r
  assume "gw_synced (e_timegm env) st" "gw_txrx env body st = (r, st')"
  then show "gw_synced (e_timegm env) st'"
    using gw_txrx_spec [of env body st r st'] by (simp add: gw_synced_def)
qed (simp_all add: gw_synced_def gw_wf_def)

text \<open>Nothing the gateway does closes the gate.\<close>

interpretation opened: gateway_inv env "\<lambda>st. sg_udp_allowed (gw_gate st)" for env
  by unfold_locales (simp_all add: gw_txrx_spec)

end
