(* ===== verification/Config_Nvs.thy ===== *)
theory Config_Nvs
  imports Gw_Prelude "HOL-Library.Monad_Syntax"
begin

text \<open>
  \<^verbatim>\<open>src/config_nvs.c\<close>: the configuration of the gateway, its defaults, its copy in the
  non-volatile storage and the console menu that edits it.  A \<^verbatim>\<open>char\<close> array of the struct is a
  byte list of the array's size, \<open>c_str\<close> is the string in it.  The storage is the key-value
  store of the platform: its operations are the parameter \<open>nvs_ops\<close>, what they promise is
  \<open>nvs_laws\<close>.  A function that writes outside an array is \<open>None\<close>.
\<close>

section \<open>Character arrays\<close>

definition c_str :: "bytes \<Rightarrow> bytes" where
  "c_str a = takeWhile (\<lambda>c. c \<noteq> 0) a"

definition strncpy :: "bytes \<Rightarrow> bytes \<Rightarrow> nat \<Rightarrow> bytes" where
  "strncpy dst src n = take n (c_str src @ replicate n 0) @ drop n dst"

text \<open>The array is full-size and ends in a null.\<close>

definition field_ok :: "nat \<Rightarrow> bytes \<Rightarrow> bool" where
  "field_ok n a \<longleftrightarrow> n > 0 \<and> length a = n \<and> a ! (n - 1) = 0"

lemma c_str_append_null: "0 \<notin> set s \<Longrightarrow> c_str (s @ 0 # r) = s"
  by (induction s) (auto simp: c_str_def)

lemma null_notin_c_str [simp]: "0 \<notin> set (c_str a)"
  by (auto simp: c_str_def dest: set_takeWhileD)

lemma c_str_idem [simp]: "c_str (c_str a) = c_str a"
  by (simp add: c_str_def)

lemma c_str_no_null: "0 \<notin> set s \<Longrightarrow> c_str s = s"
  unfolding c_str_def by (induction s) auto

lemma length_c_str: "field_ok n a \<Longrightarrow> length (c_str a) < n"
proof -
  assume f: "field_ok n a"
  have "c_str a \<noteq> a"
    using f null_notin_c_str [of a] unfolding field_ok_def by (metis diff_less nth_mem zero_less_one)
  moreover have "a = c_str a @ dropWhile (\<lambda>c. c \<noteq> 0) a" by (simp add: c_str_def)
  ultimately show ?thesis
    using f unfolding field_ok_def by (metis append_Nil2 length_append length_greater_0_conv less_add_same_cancel1)
qed

lemma field_ok_copied: "n > 0 \<Longrightarrow> length a = n \<Longrightarrow> field_ok n (a[n - 1 := 0])"
  by (simp add: field_ok_def)

lemma length_strncpy [simp]: "length (strncpy dst src n) = max n (length dst)"
  by (simp add: strncpy_def)

lemma field_ok_strncpy:
  assumes f: "field_ok n dst"
  shows "field_ok n (strncpy dst src (n - 1))"
proof -
  have n: "length dst = n" "n > 0" "dst ! (n - 1) = 0" using f by (auto simp: field_ok_def)
  define p where "p = take (n - 1) (c_str src @ replicate (n - 1) 0)"
  have "length p = n - 1" unfolding p_def length_take by simp
  then have "strncpy dst src (n - 1) ! (n - 1) = drop (n - 1) dst ! 0"
    unfolding strncpy_def p_def [symmetric] by (simp add: nth_append)
  also have "\<dots> = 0" using n by simp
  finally show ?thesis using n by (simp add: field_ok_def)
qed

text \<open>The copy the menu makes: \<open>strncpy\<close> up to the last byte, which becomes the null.\<close>

definition cfg_set_str :: "bytes \<Rightarrow> bytes \<Rightarrow> bytes" where
  "cfg_set_str dst buf = (strncpy dst buf (length dst - 1))[length dst - 1 := 0]"

lemma field_ok_cfg_set_str: "field_ok n dst \<Longrightarrow> field_ok n (cfg_set_str dst buf)"
  by (simp add: cfg_set_str_def field_ok_def)

lemma c_str_cfg_set_str:
  assumes f: "field_ok n dst"
  shows "c_str (cfg_set_str dst buf) = take (n - 1) (c_str buf)"
proof -
  have n: "length dst = n" "n > 0" using f by (auto simp: field_ok_def)
  let ?s = "take (n - 1) (c_str buf)"
  have nn: "0 \<notin> set ?s" using null_notin_c_str [of buf] by (meson in_set_takeD)
  define p where "p = take (n - 1) (c_str buf @ replicate (n - 1) 0)"
  have lp: "length p = n - 1" unfolding p_def length_take by simp
  have "drop (n - 1) dst = [dst ! (n - 1)]"
    using n Cons_nth_drop_Suc [of "n - 1" dst] by simp
  then have "cfg_set_str dst buf = p @ [0]"
    unfolding cfg_set_str_def strncpy_def n(1) p_def [symmetric] by (simp add: list_update_append lp)
  also have "p = ?s @ replicate (n - 1 - length (c_str buf)) 0"
    by (simp add: p_def)
  finally have e: "cfg_set_str dst buf = ?s @ replicate (n - 1 - length (c_str buf)) 0 @ [0]"
    by simp
  show ?thesis
    unfolding e using nn by (cases "n - 1 - length (c_str buf)") (simp_all add: c_str_append_null)
qed

section \<open>The configuration and its build defaults\<close>

record gw_config =
  master_code :: bytes
  device_index :: u16
  eth_ip :: bytes
  eth_netmask :: bytes
  eth_gw :: bytes
  eth_tcp_server_ip :: bytes
  eth_tcp_server_port :: u16
  eth_udp_server_ip :: bytes
  eth_udp_server_port :: u16
  wifi_ssid :: bytes
  wifi_psk :: bytes
  wifi_ip :: bytes
  wifi_netmask :: bytes
  wifi_gw :: bytes
  wifi_tcp_server_ip :: bytes
  wifi_tcp_server_port :: u16
  wifi_udp_server_ip :: bytes
  wifi_udp_server_port :: u16
  net_boot_mode :: u8
  sensor_model_usb1 :: u8
  sensor_model_usb0 :: u8

abbreviation (input) GW_NET_BOOT_WIFI :: u8 where "GW_NET_BOOT_WIFI \<equiv> 0"
abbreviation (input) GW_NET_BOOT_ETH :: u8 where "GW_NET_BOOT_ETH \<equiv> 1"

text \<open>The Kconfig symbols the defaults come from; \<open>k_device_id\<close> may be undefined.\<close>

record kconfig =
  k_line_id :: bytes
  k_device_id :: "int option"
  k_eth_ip :: bytes
  k_eth_netmask :: bytes
  k_eth_gw :: bytes
  k_eth_tcp_peer_ip :: bytes
  k_eth_tcp_peer_port :: int
  k_eth_udp_peer_ip :: bytes
  k_eth_udp_peer_port :: int
  k_wifi_enable :: bool
  k_wifi_ssid :: bytes
  k_wifi_psk :: bytes
  k_wifi_ip :: bytes
  k_wifi_netmask :: bytes
  k_wifi_gw :: bytes
  k_wifi_tcp_peer_ip :: bytes
  k_wifi_tcp_peer_port :: int
  k_wifi_udp_peer_ip :: bytes
  k_wifi_udp_peer_port :: int
  k_net_boot_default :: int
  k_force_eth :: bool
  k_force_wifi :: bool

text \<open>\<open>memset\<close> of the whole struct.\<close>

definition cfg_zero :: gw_config where
  "cfg_zero =
     \<lparr>master_code = replicate 32 0, device_index = 0,
      eth_ip = replicate 16 0, eth_netmask = replicate 16 0, eth_gw = replicate 16 0,
      eth_tcp_server_ip = replicate 16 0, eth_tcp_server_port = 0,
      eth_udp_server_ip = replicate 16 0, eth_udp_server_port = 0,
      wifi_ssid = replicate 33 0, wifi_psk = replicate 65 0,
      wifi_ip = replicate 16 0, wifi_netmask = replicate 16 0, wifi_gw = replicate 16 0,
      wifi_tcp_server_ip = replicate 16 0, wifi_tcp_server_port = 0,
      wifi_udp_server_ip = replicate 16 0, wifi_udp_server_port = 0,
      net_boot_mode = 0, sensor_model_usb1 = 0, sensor_model_usb0 = 0\<rparr>"

definition boot_default :: "int \<Rightarrow> u8" where
  "boot_default d = (if d < 0 \<or> d > 1 then 0 else word_of_int d)"

definition load_defaults :: "kconfig \<Rightarrow> gw_config" where
  "load_defaults k =
     (let c = cfg_zero\<lparr>
            master_code := strncpy (master_code cfg_zero) (k_line_id k) 31,
            device_index := (case k_device_id k of None \<Rightarrow> 1
                              | Some d \<Rightarrow> word_of_int (min (d mod 2 ^ 32) 65535)),
            eth_ip := strncpy (eth_ip cfg_zero) (k_eth_ip k) 15,
            eth_netmask := strncpy (eth_netmask cfg_zero) (k_eth_netmask k) 15,
            eth_gw := strncpy (eth_gw cfg_zero) (k_eth_gw k) 15,
            eth_tcp_server_ip := strncpy (eth_tcp_server_ip cfg_zero) (k_eth_tcp_peer_ip k) 15,
            eth_tcp_server_port := word_of_int (k_eth_tcp_peer_port k),
            eth_udp_server_ip := strncpy (eth_udp_server_ip cfg_zero) (k_eth_udp_peer_ip k) 15,
            eth_udp_server_port := word_of_int (k_eth_udp_peer_port k)\<rparr>;
          w = (if k_wifi_enable k
               then c\<lparr>
                 wifi_ssid := (strncpy (wifi_ssid c) (k_wifi_ssid k) 32)[32 := 0],
                 wifi_psk := (strncpy (wifi_psk c) (k_wifi_psk k) 64)[64 := 0],
                 wifi_ip := strncpy (wifi_ip c) (k_wifi_ip k) 15,
                 wifi_netmask := strncpy (wifi_netmask c) (k_wifi_netmask k) 15,
                 wifi_gw := strncpy (wifi_gw c) (k_wifi_gw k) 15,
                 wifi_tcp_server_ip := strncpy (wifi_tcp_server_ip c) (k_wifi_tcp_peer_ip k) 15,
                 wifi_tcp_server_port := word_of_int (k_wifi_tcp_peer_port k),
                 wifi_udp_server_ip := strncpy (wifi_udp_server_ip c) (k_wifi_udp_peer_ip k) 15,
                 wifi_udp_server_port := word_of_int (k_wifi_udp_peer_port k),
                 net_boot_mode := boot_default (k_net_boot_default k)\<rparr>
               else c\<lparr>net_boot_mode := GW_NET_BOOT_ETH\<rparr>)
      in w\<lparr>sensor_model_usb1 := 1, sensor_model_usb0 := 0\<rparr>)"

text \<open>What every part of the program relies on: the strings are terminated inside their
  arrays, the boot mode and the sensor models are in range.\<close>

definition cfg_wf :: "gw_config \<Rightarrow> bool" where
  "cfg_wf c \<longleftrightarrow>
     field_ok 32 (master_code c) \<and>
     field_ok 16 (eth_ip c) \<and> field_ok 16 (eth_netmask c) \<and> field_ok 16 (eth_gw c) \<and>
     field_ok 16 (eth_tcp_server_ip c) \<and> field_ok 16 (eth_udp_server_ip c) \<and>
     field_ok 33 (wifi_ssid c) \<and> field_ok 65 (wifi_psk c) \<and>
     field_ok 16 (wifi_ip c) \<and> field_ok 16 (wifi_netmask c) \<and> field_ok 16 (wifi_gw c) \<and>
     field_ok 16 (wifi_tcp_server_ip c) \<and> field_ok 16 (wifi_udp_server_ip c) \<and>
     net_boot_mode c \<le> GW_NET_BOOT_ETH \<and> sensor_model_usb1 c < 7 \<and> sensor_model_usb0 c < 7"

lemma field_ok_zero [simp]: "n > 0 \<Longrightarrow> field_ok n (replicate n 0)"
  by (simp add: field_ok_def)

lemma field_ok_default [simp]:
  "n = Suc m \<Longrightarrow> field_ok n (strncpy (replicate n 0) s m)"
  using field_ok_strncpy [OF field_ok_zero, of "Suc m" s] by simp

lemma field_ok_default_terminated [simp]:
  "n = Suc m \<Longrightarrow> field_ok n ((strncpy (replicate n 0) s m)[m := 0])"
  by (simp add: field_ok_def)

lemma boot_default_le [simp]: "boot_default d \<le> 1"
proof -
  have "d = 0 \<or> d = 1 \<or> d < 0 \<or> d > 1" by linarith
  then show ?thesis by (auto simp: boot_default_def)
qed

lemma cfg_wf_load_defaults [simp]: "cfg_wf (load_defaults k)"
  unfolding cfg_wf_def load_defaults_def cfg_zero_def Let_def
  by (cases "k_wifi_enable k") (simp_all add: word_less_nat_alt)

section \<open>The stored copy\<close>

abbreviation (input) NVS_SCHEMA_VERSION :: u16 where "NVS_SCHEMA_VERSION \<equiv> 8"
abbreviation (input) KEY_SCHEMA_VER :: nat where "KEY_SCHEMA_VER \<equiv> 0"
abbreviation (input) KEY_MASTER_CODE :: nat where "KEY_MASTER_CODE \<equiv> 1"
abbreviation (input) KEY_ETH_IP :: nat where "KEY_ETH_IP \<equiv> 2"
abbreviation (input) KEY_ETH_MASK :: nat where "KEY_ETH_MASK \<equiv> 3"
abbreviation (input) KEY_ETH_GW :: nat where "KEY_ETH_GW \<equiv> 4"
abbreviation (input) KEY_ETH_TCP_IP :: nat where "KEY_ETH_TCP_IP \<equiv> 5"
abbreviation (input) KEY_ETH_TCP_PORT :: nat where "KEY_ETH_TCP_PORT \<equiv> 6"
abbreviation (input) KEY_ETH_UDP_IP :: nat where "KEY_ETH_UDP_IP \<equiv> 7"
abbreviation (input) KEY_ETH_UDP_PORT :: nat where "KEY_ETH_UDP_PORT \<equiv> 8"
abbreviation (input) KEY_WIFI_SSID :: nat where "KEY_WIFI_SSID \<equiv> 9"
abbreviation (input) KEY_WIFI_PSK :: nat where "KEY_WIFI_PSK \<equiv> 10"
abbreviation (input) KEY_WIFI_IP :: nat where "KEY_WIFI_IP \<equiv> 11"
abbreviation (input) KEY_WIFI_MASK :: nat where "KEY_WIFI_MASK \<equiv> 12"
abbreviation (input) KEY_WIFI_GW :: nat where "KEY_WIFI_GW \<equiv> 13"
abbreviation (input) KEY_WIFI_TCP_IP :: nat where "KEY_WIFI_TCP_IP \<equiv> 14"
abbreviation (input) KEY_WIFI_TCP_PORT :: nat where "KEY_WIFI_TCP_PORT \<equiv> 15"
abbreviation (input) KEY_WIFI_UDP_IP :: nat where "KEY_WIFI_UDP_IP \<equiv> 16"
abbreviation (input) KEY_WIFI_UDP_PORT :: nat where "KEY_WIFI_UDP_PORT \<equiv> 17"
abbreviation (input) KEY_NET_BOOT_MODE :: nat where "KEY_NET_BOOT_MODE \<equiv> 18"
abbreviation (input) KEY_DEVICE_INDEX :: nat where "KEY_DEVICE_INDEX \<equiv> 19"
abbreviation (input) KEY_SENSOR_USB1 :: nat where "KEY_SENSOR_USB1 \<equiv> 20"
abbreviation (input) KEY_SENSOR_USB0 :: nat where "KEY_SENSOR_USB0 \<equiv> 21"
abbreviation (input) KEY_LAST :: nat where "KEY_LAST \<equiv> KEY_SENSOR_USB0"

text \<open>The storage of the platform.  \<open>nvs_read\<close> gives the stored entry; the C function
  returns its whole length, also when that is more than was asked for, and copies at most as
  much as was asked for.\<close>

record 's nvs_ops =
  nvs_read :: "'s \<Rightarrow> nat \<Rightarrow> bytes option"
  nvs_write :: "'s \<Rightarrow> nat \<Rightarrow> bytes \<Rightarrow> 's"
  nvs_delete :: "'s \<Rightarrow> nat \<Rightarrow> 's"

definition nvs_laws :: "'s nvs_ops \<Rightarrow> bool" where
  "nvs_laws N \<longleftrightarrow>
     (\<forall>s k v k'. nvs_read N (nvs_write N s k v) k' = (if k' = k then Some v else nvs_read N s k')) \<and>
     (\<forall>s k k'. nvs_read N (nvs_delete N s k) k' = (if k' = k then None else nvs_read N s k'))"

record 's cfg_state =
  g_gw_config :: gw_config
  nvs_ok :: bool
  nvs :: 's

text \<open>A 16-bit variable in memory, least significant byte first.\<close>

definition u16_bytes :: "u16 \<Rightarrow> bytes" where
  "u16_bytes v = [ucast v, ucast (drop_bit 8 v)]"

definition u16_of_bytes :: "bytes \<Rightarrow> u16" where
  "u16_of_bytes e = sys_get_be16 (e ! 1) (e ! 0)"

lemma u16_of_bytes [simp]: "u16_of_bytes (u16_bytes v) = v"
  by (simp add: u16_of_bytes_def u16_bytes_def)

lemma length_u16_bytes [simp]: "length (u16_bytes v) = 2"
  by (simp add: u16_bytes_def)

subsection \<open>Reading\<close>

text \<open>\<open>nvs_rd_str\<close> asks for one byte less than the array has and takes the length of the
  stored entry for the number of bytes it got: an entry of the array's length or more makes it
  read beyond the bytes it received and write beyond the array, \<open>None\<close>.  The bound 67 is that
  of the temporary buffer.\<close>

definition nvs_rd_str :: "bytes option \<Rightarrow> bytes \<Rightarrow> bytes option" where
  "nvs_rd_str entry dst =
     (let rd = min (length dst - 1) 67
      in case entry of
           None \<Rightarrow> Some dst
         | Some e \<Rightarrow>
             if length e > 1
             then if length e \<le> rd then Some (e @ 0 # drop (length e + 1) dst) else None
             else Some dst)"

definition nvs_rd_u16 :: "bytes option \<Rightarrow> u16 \<Rightarrow> u16" where
  "nvs_rd_u16 entry v =
     (case entry of
        None \<Rightarrow> v
      | Some e \<Rightarrow> if length e = 2 \<and> u16_of_bytes e \<noteq> 0 then u16_of_bytes e else v)"

definition nvs_rd_u16_allow_zero :: "bytes option \<Rightarrow> u16 \<Rightarrow> u16" where
  "nvs_rd_u16_allow_zero entry v =
     (case entry of None \<Rightarrow> v | Some e \<Rightarrow> if length e = 2 then u16_of_bytes e else v)"

definition nvs_rd_u8_boot_mode :: "bytes option \<Rightarrow> u8 \<Rightarrow> u8" where
  "nvs_rd_u8_boot_mode entry v =
     (case entry of
        None \<Rightarrow> v
      | Some e \<Rightarrow> if length e = 1 \<and> e ! 0 \<le> GW_NET_BOOT_ETH then e ! 0 else v)"

definition nvs_rd_u8_gas_model :: "bytes option \<Rightarrow> u8 \<Rightarrow> u8" where
  "nvs_rd_u8_gas_model entry v =
     (case entry of None \<Rightarrow> v | Some e \<Rightarrow> if length e = 1 \<and> e ! 0 < 7 then e ! 0 else v)"

text \<open>The reads of \<open>config_nvs_load\<close>, each into its field.\<close>

definition cfg_read_fields :: "(nat \<Rightarrow> bytes option) \<Rightarrow> gw_config \<Rightarrow> gw_config option" where
  "cfg_read_fields rd c =
     do {
       mc \<leftarrow> nvs_rd_str (rd KEY_MASTER_CODE) (master_code c);
       eip \<leftarrow> nvs_rd_str (rd KEY_ETH_IP) (eth_ip c);
       emask \<leftarrow> nvs_rd_str (rd KEY_ETH_MASK) (eth_netmask c);
       egw \<leftarrow> nvs_rd_str (rd KEY_ETH_GW) (eth_gw c);
       etcp \<leftarrow> nvs_rd_str (rd KEY_ETH_TCP_IP) (eth_tcp_server_ip c);
       eudp \<leftarrow> nvs_rd_str (rd KEY_ETH_UDP_IP) (eth_udp_server_ip c);
       ssid \<leftarrow> nvs_rd_str (rd KEY_WIFI_SSID) (wifi_ssid c);
       psk \<leftarrow> nvs_rd_str (rd KEY_WIFI_PSK) (wifi_psk c);
       wip \<leftarrow> nvs_rd_str (rd KEY_WIFI_IP) (wifi_ip c);
       wmask \<leftarrow> nvs_rd_str (rd KEY_WIFI_MASK) (wifi_netmask c);
       wgw \<leftarrow> nvs_rd_str (rd KEY_WIFI_GW) (wifi_gw c);
       wtcp \<leftarrow> nvs_rd_str (rd KEY_WIFI_TCP_IP) (wifi_tcp_server_ip c);
       wudp \<leftarrow> nvs_rd_str (rd KEY_WIFI_UDP_IP) (wifi_udp_server_ip c);
       Some \<lparr>master_code = mc,
         device_index = nvs_rd_u16_allow_zero (rd KEY_DEVICE_INDEX) (device_index c),
         eth_ip = eip, eth_netmask = emask, eth_gw = egw, eth_tcp_server_ip = etcp,
         eth_tcp_server_port = nvs_rd_u16 (rd KEY_ETH_TCP_PORT) (eth_tcp_server_port c),
         eth_udp_server_ip = eudp,
         eth_udp_server_port = nvs_rd_u16 (rd KEY_ETH_UDP_PORT) (eth_udp_server_port c),
         wifi_ssid = ssid, wifi_psk = psk, wifi_ip = wip, wifi_netmask = wmask, wifi_gw = wgw,
         wifi_tcp_server_ip = wtcp,
         wifi_tcp_server_port = nvs_rd_u16 (rd KEY_WIFI_TCP_PORT) (wifi_tcp_server_port c),
         wifi_udp_server_ip = wudp,
         wifi_udp_server_port = nvs_rd_u16 (rd KEY_WIFI_UDP_PORT) (wifi_udp_server_port c),
         net_boot_mode = nvs_rd_u8_boot_mode (rd KEY_NET_BOOT_MODE) (net_boot_mode c),
         sensor_model_usb1 = nvs_rd_u8_gas_model (rd KEY_SENSOR_USB1) (sensor_model_usb1 c),
         sensor_model_usb0 = nvs_rd_u8_gas_model (rd KEY_SENSOR_USB0) (sensor_model_usb0 c)\<rparr>
     }"

subsection \<open>Writing\<close>

text \<open>The entries \<open>config_nvs_save\<close> writes, in its order: a string with its null.\<close>

definition cfg_entries :: "gw_config \<Rightarrow> (nat \<times> bytes) list" where
  "cfg_entries c =
     (let ws = (\<lambda>k v. (k, c_str v @ [0])); wu = (\<lambda>k v. (k, u16_bytes v)); wb = (\<lambda>k v. (k, [v]))
      in [wu KEY_SCHEMA_VER NVS_SCHEMA_VERSION,
          ws KEY_MASTER_CODE (master_code c), wu KEY_DEVICE_INDEX (device_index c),
          ws KEY_ETH_IP (eth_ip c), ws KEY_ETH_MASK (eth_netmask c), ws KEY_ETH_GW (eth_gw c),
          ws KEY_ETH_TCP_IP (eth_tcp_server_ip c), wu KEY_ETH_TCP_PORT (eth_tcp_server_port c),
          ws KEY_ETH_UDP_IP (eth_udp_server_ip c), wu KEY_ETH_UDP_PORT (eth_udp_server_port c),
          ws KEY_WIFI_SSID (wifi_ssid c), ws KEY_WIFI_PSK (wifi_psk c),
          ws KEY_WIFI_IP (wifi_ip c), ws KEY_WIFI_MASK (wifi_netmask c),
          ws KEY_WIFI_GW (wifi_gw c), ws KEY_WIFI_TCP_IP (wifi_tcp_server_ip c),
          wu KEY_WIFI_TCP_PORT (wifi_tcp_server_port c),
          ws KEY_WIFI_UDP_IP (wifi_udp_server_ip c),
          wu KEY_WIFI_UDP_PORT (wifi_udp_server_port c),
          wb KEY_NET_BOOT_MODE (net_boot_mode c), wb KEY_SENSOR_USB1 (sensor_model_usb1 c),
          wb KEY_SENSOR_USB0 (sensor_model_usb0 c)])"

definition nvs_write_all :: "'s nvs_ops \<Rightarrow> (nat \<times> bytes) list \<Rightarrow> 's \<Rightarrow> 's" where
  "nvs_write_all N es s = fold (\<lambda>(k, v) s. nvs_write N s k v) es s"

definition nvs_delete_all :: "'s nvs_ops \<Rightarrow> 's \<Rightarrow> 's" where
  "nvs_delete_all N s = fold (\<lambda>k s. nvs_delete N s k) [KEY_SCHEMA_VER..<KEY_LAST + 1] s"

definition config_nvs_save :: "'s nvs_ops \<Rightarrow> 's cfg_state \<Rightarrow> 's cfg_state" where
  "config_nvs_save N st =
     (if \<not> nvs_ok st then st
      else st\<lparr>nvs := nvs_write_all N (cfg_entries (g_gw_config st)) (nvs st)\<rparr>)"

definition config_nvs_save_boot_mode :: "'s nvs_ops \<Rightarrow> 's cfg_state \<Rightarrow> 's cfg_state" where
  "config_nvs_save_boot_mode N st =
     (if \<not> nvs_ok st then st
      else st\<lparr>nvs := nvs_write_all N
                [(KEY_NET_BOOT_MODE, [net_boot_mode (g_gw_config st)]),
                 (KEY_SCHEMA_VER, u16_bytes NVS_SCHEMA_VERSION)] (nvs st)\<rparr>)"

definition cfg_reset_to_defaults :: "'s nvs_ops \<Rightarrow> kconfig \<Rightarrow> bool \<Rightarrow> 's cfg_state \<Rightarrow> 's cfg_state" where
  "cfg_reset_to_defaults N k erase_nvs st =
     (let st1 = st\<lparr>g_gw_config := load_defaults k\<rparr>
      in if \<not> erase_nvs \<or> \<not> nvs_ok st1 then st1
         else st1\<lparr>nvs := nvs_delete_all N (nvs st1)\<rparr>)"

subsection \<open>Loading\<close>

text \<open>\<open>flash_ready\<close> is \<open>device_is_ready\<close> of the flash, \<open>mount\<close> the result of
  \<open>nvs_mount\<close>.\<close>

definition nvs_init_fs :: "bool \<Rightarrow> int \<Rightarrow> 's cfg_state \<Rightarrow> 's cfg_state" where
  "nvs_init_fs flash_ready mount st =
     (if \<not> flash_ready then st else st\<lparr>nvs_ok := (mount = 0)\<rparr>)"

definition cfg_build_boot_mode :: "kconfig \<Rightarrow> gw_config \<Rightarrow> gw_config" where
  "cfg_build_boot_mode k c =
     (if \<not> k_wifi_enable k then c\<lparr>net_boot_mode := GW_NET_BOOT_ETH\<rparr>
      else if net_boot_mode c > GW_NET_BOOT_ETH then c\<lparr>net_boot_mode := GW_NET_BOOT_WIFI\<rparr>
      else c)"

definition cfg_force_boot_mode :: "'s nvs_ops \<Rightarrow> kconfig \<Rightarrow> 's cfg_state \<Rightarrow> 's cfg_state" where
  "cfg_force_boot_mode N k st =
     (let force = (\<lambda>m. if nvs_ok st \<and> net_boot_mode (g_gw_config st) \<noteq> m
                    then config_nvs_save_boot_mode N
                           (st\<lparr>g_gw_config := (g_gw_config st)\<lparr>net_boot_mode := m\<rparr>\<rparr>)
                    else st)
      in if k_force_eth k then force GW_NET_BOOT_ETH
         else if k_force_wifi k \<and> k_wifi_enable k then force GW_NET_BOOT_WIFI
         else st)"

definition config_nvs_load ::
    "'s nvs_ops \<Rightarrow> kconfig \<Rightarrow> bool \<Rightarrow> int \<Rightarrow> 's cfg_state \<Rightarrow> 's cfg_state option" where
  "config_nvs_load N k flash_ready mount st =
     (let st1 = nvs_init_fs flash_ready mount (st\<lparr>g_gw_config := load_defaults k\<rparr>)
      in if \<not> nvs_ok st1 then Some st1
         else if nvs_rd_u16 (nvs_read N (nvs st1) KEY_SCHEMA_VER) 0 \<noteq> NVS_SCHEMA_VERSION
         then Some (st1\<lparr>nvs := nvs_write N (nvs_delete_all N (nvs st1)) KEY_SCHEMA_VER
                               (u16_bytes NVS_SCHEMA_VERSION)\<rparr>)
         else
           do {
             c \<leftarrow> cfg_read_fields (nvs_read N (nvs st1)) (g_gw_config st1);
             Some (cfg_force_boot_mode N k (st1\<lparr>g_gw_config := cfg_build_boot_mode k c\<rparr>))
           })"

section \<open>What the next boot loads\<close>

text \<open>An abstract reading of the configuration: the strings without their array tails.\<close>

definition cfg_view :: "gw_config \<Rightarrow> gw_config" where
  "cfg_view c = c\<lparr>
     master_code := c_str (master_code c),
     eth_ip := c_str (eth_ip c), eth_netmask := c_str (eth_netmask c), eth_gw := c_str (eth_gw c),
     eth_tcp_server_ip := c_str (eth_tcp_server_ip c),
     eth_udp_server_ip := c_str (eth_udp_server_ip c),
     wifi_ssid := c_str (wifi_ssid c), wifi_psk := c_str (wifi_psk c),
     wifi_ip := c_str (wifi_ip c), wifi_netmask := c_str (wifi_netmask c),
     wifi_gw := c_str (wifi_gw c), wifi_tcp_server_ip := c_str (wifi_tcp_server_ip c),
     wifi_udp_server_ip := c_str (wifi_udp_server_ip c)\<rparr>"

text \<open>The sizes and contents of the strings, and the configurations whose strings leave two
  bytes of their arrays unused.\<close>

definition cfg_strings :: "gw_config \<Rightarrow> (nat \<times> bytes) list" where
  "cfg_strings c =
     [(32, master_code c), (16, eth_ip c), (16, eth_netmask c), (16, eth_gw c),
      (16, eth_tcp_server_ip c), (16, eth_udp_server_ip c), (33, wifi_ssid c), (65, wifi_psk c),
      (16, wifi_ip c), (16, wifi_netmask c), (16, wifi_gw c), (16, wifi_tcp_server_ip c),
      (16, wifi_udp_server_ip c)]"

definition cfg_fits :: "gw_config \<Rightarrow> bool" where
  "cfg_fits c \<longleftrightarrow> list_all (\<lambda>(n, a). length (c_str a) + 2 \<le> n) (cfg_strings c)"

text \<open>The saved configuration as the next boot sees it: an empty string and a zero port do not
  override the default of the build, and the build decides on the boot mode.\<close>

definition kept_str :: "bytes \<Rightarrow> bytes \<Rightarrow> bytes" where
  "kept_str d s = (if c_str s = [] then c_str d else c_str s)"

definition kept_port :: "u16 \<Rightarrow> u16 \<Rightarrow> u16" where
  "kept_port d p = (if p = 0 then d else p)"

definition kept_mode :: "kconfig \<Rightarrow> u8 \<Rightarrow> u8" where
  "kept_mode k m =
     (if \<not> k_wifi_enable k \<or> k_force_eth k then GW_NET_BOOT_ETH
      else if k_force_wifi k then GW_NET_BOOT_WIFI else m)"

definition cfg_merge :: "gw_config \<Rightarrow> gw_config \<Rightarrow> gw_config" where
  "cfg_merge d c =
         \<lparr>master_code = kept_str (master_code d) (master_code c),
          device_index = device_index c,
          eth_ip = kept_str (eth_ip d) (eth_ip c),
          eth_netmask = kept_str (eth_netmask d) (eth_netmask c),
          eth_gw = kept_str (eth_gw d) (eth_gw c),
          eth_tcp_server_ip = kept_str (eth_tcp_server_ip d) (eth_tcp_server_ip c),
          eth_tcp_server_port = kept_port (eth_tcp_server_port d) (eth_tcp_server_port c),
          eth_udp_server_ip = kept_str (eth_udp_server_ip d) (eth_udp_server_ip c),
          eth_udp_server_port = kept_port (eth_udp_server_port d) (eth_udp_server_port c),
          wifi_ssid = kept_str (wifi_ssid d) (wifi_ssid c),
          wifi_psk = kept_str (wifi_psk d) (wifi_psk c),
          wifi_ip = kept_str (wifi_ip d) (wifi_ip c),
          wifi_netmask = kept_str (wifi_netmask d) (wifi_netmask c),
          wifi_gw = kept_str (wifi_gw d) (wifi_gw c),
          wifi_tcp_server_ip = kept_str (wifi_tcp_server_ip d) (wifi_tcp_server_ip c),
          wifi_tcp_server_port = kept_port (wifi_tcp_server_port d) (wifi_tcp_server_port c),
          wifi_udp_server_ip = kept_str (wifi_udp_server_ip d) (wifi_udp_server_ip c),
          wifi_udp_server_port = kept_port (wifi_udp_server_port d) (wifi_udp_server_port c),
          net_boot_mode = net_boot_mode c,
          sensor_model_usb1 = sensor_model_usb1 c,
          sensor_model_usb0 = sensor_model_usb0 c\<rparr>"

definition cfg_restored :: "kconfig \<Rightarrow> gw_config \<Rightarrow> gw_config" where
  "cfg_restored k c =
     (cfg_merge (load_defaults k) c)\<lparr>net_boot_mode := kept_mode k (net_boot_mode c)\<rparr>"

subsection \<open>Entries and fields\<close>

lemma nvs_read_write_all:
  assumes "nvs_laws N"
  shows "nvs_read N (nvs_write_all N es s) k =
    (case map_of (rev es) k of Some v \<Rightarrow> Some v | None \<Rightarrow> nvs_read N s k)"
  using assms
  by (induction es rule: rev_induct)
    (auto simp: nvs_write_all_def nvs_laws_def split: option.splits)

lemma field_ok_rd_str:
  assumes f: "field_ok n dst" and r: "nvs_rd_str entry dst = Some a"
  shows "field_ok n a"
proof (cases "a = dst")
  case False
  then obtain e where e: "a = e @ 0 # drop (length e + 1) dst" "length e \<le> length dst - 1"
    using r by (auto simp: nvs_rd_str_def Let_def split: option.splits if_splits)
  have n: "length dst = n" "n > 0" "dst ! (n - 1) = 0" using f by (auto simp: field_ok_def)
  have l: "length a = n" using e n by simp
  have "a ! (n - 1) = 0"
  proof (cases "length e = n - 1")
    case True
    then show ?thesis using e by (simp add: nth_append)
  next
    case False
    then have sn: "Suc (n - 2) = n - Suc 0" using e(2) n by linarith
    from False have "a ! (n - 1) = drop (length e + 1) dst ! (n - 1 - (length e + 1))"
      using e(2) n by (auto simp: e(1) nth_append nth_Cons')
    also have "\<dots> = dst ! (n - 1)"
      using e(2) False n by (subst nth_drop) (simp_all add: sn)
    also have "\<dots> = 0" using n by simp
    finally show ?thesis .
  qed
  then show ?thesis using l n by (simp add: field_ok_def)
qed (use f in simp)

text \<open>The bytes a saved string leaves in its field.\<close>

definition restored :: "bytes \<Rightarrow> bytes \<Rightarrow> bytes" where
  "restored dst a =
     (if c_str a = [] then dst else c_str a @ 0 # 0 # drop (length (c_str a) + 2) dst)"

lemma nvs_rd_str_saved:
  assumes "field_ok n dst" "2 \<le> n" "n \<le> 68"
  shows "nvs_rd_str (Some (c_str a @ [0])) dst =
    (if length (c_str a) + 2 \<le> n then Some (restored dst a) else None)"
  using assms by (auto simp: nvs_rd_str_def restored_def field_ok_def min_def Let_def)

lemma c_str_restored [simp]: "c_str (restored dst a) = kept_str dst a"
  by (simp add: restored_def kept_str_def c_str_append_null)

lemma bind_if: "Option.bind (if P then Some x else None) f = (if P then f x else None)"
  by simp

lemma nvs_rd_saved_numbers [simp]:
  "nvs_rd_u16 (Some (u16_bytes v)) d = kept_port d v"
  "nvs_rd_u16_allow_zero (Some (u16_bytes v)) w = v"
  "m \<le> 1 \<Longrightarrow> nvs_rd_u8_boot_mode (Some [m]) y = m"
  "x < 7 \<Longrightarrow> nvs_rd_u8_gas_model (Some [x]) y = x"
  by (simp_all add: nvs_rd_u16_def nvs_rd_u16_allow_zero_def nvs_rd_u8_boot_mode_def
      nvs_rd_u8_gas_model_def kept_port_def)

text \<open>Reading the fields of a saved configuration over another one.\<close>

lemma cfg_read_saved:
  assumes w: "cfg_wf c" and d: "cfg_wf d"
    and rd: "\<And>key. key \<le> 21 \<Longrightarrow> rd key = map_of (rev (cfg_entries c)) key"
  shows "map_option cfg_view (cfg_read_fields rd d) =
    (if cfg_fits c then Some (cfg_merge d c) else None)"
  using w d unfolding cfg_wf_def
  by (simp add: cfg_read_fields_def rd cfg_entries_def Let_def nvs_rd_str_saved [where n = 32]
      nvs_rd_str_saved [where n = 16] nvs_rd_str_saved [where n = 33]
      nvs_rd_str_saved [where n = 65] bind_if cfg_fits_def cfg_strings_def cfg_view_def
      cfg_merge_def)

lemma cfg_wf_read_fields:
  assumes d: "cfg_wf d" and r: "cfg_read_fields rd d = Some c"
  shows "cfg_wf c"
proof -
  have m: "nvs_rd_u8_boot_mode e v \<le> 1" if "v \<le> 1" for e v
    using that by (auto simp: nvs_rd_u8_boot_mode_def split: option.splits)
  have g: "nvs_rd_u8_gas_model e v < 7" if "v < 7" for e v
    using that by (auto simp: nvs_rd_u8_gas_model_def split: option.splits)
  from r d show ?thesis
    apply (clarsimp simp: cfg_read_fields_def bind_eq_Some_conv cfg_wf_def m g)
    apply (intro conjI; erule (1) field_ok_rd_str)
    done
qed

lemma cfg_wf_build_boot_mode: "cfg_wf c \<Longrightarrow> cfg_wf (cfg_build_boot_mode k c)"
  by (simp add: cfg_build_boot_mode_def cfg_wf_def)

lemma cfg_wf_force_boot_mode:
  "cfg_wf (g_gw_config st) \<Longrightarrow> cfg_wf (g_gw_config (cfg_force_boot_mode N k st))"
  by (simp add: cfg_force_boot_mode_def config_nvs_save_boot_mode_def cfg_wf_def Let_def)

text \<open>The two ways a load ends: with the defaults, or with the fields read over them.\<close>

lemma config_nvs_load_cases:
  fixes st :: "'s cfg_state"
  assumes "config_nvs_load N k flash_ready mount st = Some st'"
  defines "st1 \<equiv> nvs_init_fs flash_ready mount (st\<lparr>g_gw_config := load_defaults k\<rparr>)"
  shows "g_gw_config st' = load_defaults k \<or>
    (\<exists>c. cfg_read_fields (nvs_read N (nvs st1)) (load_defaults k) = Some c \<and>
      st' = cfg_force_boot_mode N k (st1\<lparr>g_gw_config := cfg_build_boot_mode k c\<rparr>))"
proof -
  have g: "g_gw_config st1 = load_defaults k" by (simp add: st1_def nvs_init_fs_def)
  let ?v = "nvs_rd_u16 (nvs_read N (nvs st1) KEY_SCHEMA_VER) 0 = NVS_SCHEMA_VERSION"
  have e: "config_nvs_load N k flash_ready mount st =
    (if \<not> nvs_ok st1 then Some st1
     else if \<not> ?v then Some (st1\<lparr>nvs := nvs_write N (nvs_delete_all N (nvs st1)) KEY_SCHEMA_VER
                               (u16_bytes NVS_SCHEMA_VERSION)\<rparr>)
     else Option.bind (cfg_read_fields (nvs_read N (nvs st1)) (g_gw_config st1))
       (\<lambda>c. Some (cfg_force_boot_mode N k (st1\<lparr>g_gw_config := cfg_build_boot_mode k c\<rparr>))))"
    unfolding config_nvs_load_def Let_def st1_def ..
  show ?thesis
  proof (cases "nvs_ok st1 \<and> ?v")
    case True
    then show ?thesis using assms(1) unfolding e g by (auto simp: bind_eq_Some_conv)
  next
    case False
    then have "g_gw_config st' = g_gw_config st1"
      using assms(1) unfolding e by (cases "nvs_ok st1") auto
    then show ?thesis using g by simp
  qed
qed

text \<open>
  Whatever the storage holds and whether or not it can be mounted, when the boot gets through
  loading the configuration, the configuration is well formed: every string is terminated inside
  its array, the boot mode is Ethernet or WiFi (Ethernet in a build without WiFi) and the sensor
  models are among the seven known ones.
\<close>

theorem config_load_wf:
  assumes "config_nvs_load N k flash_ready mount st = Some st'"
  shows "cfg_wf (g_gw_config st') \<and>
    (\<not> k_wifi_enable k \<longrightarrow> net_boot_mode (g_gw_config st') = GW_NET_BOOT_ETH)"
proof -
  have dm: "\<not> k_wifi_enable k \<Longrightarrow> net_boot_mode (load_defaults k) = 1"
    by (simp add: load_defaults_def Let_def)
  have bm: "\<not> k_wifi_enable k \<Longrightarrow> net_boot_mode (cfg_build_boot_mode k c) = 1" for c
    by (simp add: cfg_build_boot_mode_def)
  have fm: "\<not> k_wifi_enable k \<Longrightarrow> net_boot_mode (g_gw_config s) = 1 \<Longrightarrow>
      net_boot_mode (g_gw_config (cfg_force_boot_mode N k s)) = 1" for s
    by (simp add: cfg_force_boot_mode_def Let_def)
  define st1 where "st1 = nvs_init_fs flash_ready mount (st\<lparr>g_gw_config := load_defaults k\<rparr>)"
  have g: "g_gw_config st1 = load_defaults k" by (simp add: st1_def nvs_init_fs_def)
  consider "g_gw_config st' = load_defaults k"
    | c where "cfg_read_fields (nvs_read N (nvs st1)) (load_defaults k) = Some c"
        "st' = cfg_force_boot_mode N k (st1\<lparr>g_gw_config := cfg_build_boot_mode k c\<rparr>)"
    using config_nvs_load_cases [OF assms] unfolding st1_def by blast
  then show ?thesis
  proof cases
    case 1
    then show ?thesis using dm by simp
  next
    case 2
    then show ?thesis
      using cfg_wf_read_fields [OF cfg_wf_load_defaults 2(1)] bm fm
      by (auto intro!: cfg_wf_force_boot_mode cfg_wf_build_boot_mode)
  qed
qed

lemma saved_then_loaded:
  assumes N: "nvs_laws N" and w: "cfg_wf (g_gw_config st)" and ok: "nvs_ok st"
  shows "map_option (\<lambda>st'. cfg_view (g_gw_config st'))
      (config_nvs_load N k True 0 (boot\<lparr>nvs := nvs (config_nvs_save N st)\<rparr>)) =
    (if cfg_fits (g_gw_config st) then Some (cfg_restored k (g_gw_config st)) else None)"
proof -
  let ?c = "g_gw_config st" and ?d = "load_defaults k"
  let ?s = "nvs (config_nvs_save N st)"
  let ?r = "cfg_read_fields (nvs_read N ?s) ?d"
  have rd: "nvs_read N ?s key = map_of (rev (cfg_entries ?c)) key" if "key \<le> 21" for key
  proof -
    have "key \<in> set [0..<22]" using that by simp
    moreover have "\<forall>key \<in> set [0..<22]. map_of (rev (cfg_entries ?c)) key \<noteq> None"
      by (simp add: cfg_entries_def Let_def upt_conv_Cons)
    ultimately obtain v where "map_of (rev (cfg_entries ?c)) key = Some v" by fast
    then show ?thesis
      by (simp add: config_nvs_save_def ok nvs_read_write_all [OF N])
  qed
  have v: "nvs_rd_u16 (nvs_read N ?s 0) 0 = 8"
    by (simp add: rd cfg_entries_def Let_def kept_port_def)
  have r: "map_option cfg_view ?r = (if cfg_fits ?c then Some (cfg_merge ?d ?c) else None)"
    by (rule cfg_read_saved) (use w rd in simp_all)
  let ?b = "boot\<lparr>nvs := ?s, g_gw_config := ?d, nvs_ok := True\<rparr>"
  have l: "config_nvs_load N k True 0 (boot\<lparr>nvs := ?s\<rparr>) =
      map_option (\<lambda>c. cfg_force_boot_mode N k (?b\<lparr>g_gw_config := cfg_build_boot_mode k c\<rparr>)) ?r"
    by (cases ?r) (simp_all add: config_nvs_load_def nvs_init_fs_def v)
  have f: "cfg_view (g_gw_config (cfg_force_boot_mode N k s)) =
      (cfg_view c)\<lparr>net_boot_mode := kept_mode k (net_boot_mode c)\<rparr>"
    if "net_boot_mode c \<le> 1" "nvs_ok s" "g_gw_config s = cfg_build_boot_mode k c" for c and s :: "'a cfg_state"
    using that by (auto simp: cfg_force_boot_mode_def config_nvs_save_boot_mode_def Let_def cfg_view_def
        cfg_build_boot_mode_def kept_mode_def)
  show ?thesis
  proof (cases ?r)
    case None
    with r show ?thesis by (simp add: l split: if_splits)
  next
    case (Some c)
    with r have fit: "cfg_fits ?c" and view: "cfg_view c = cfg_merge ?d ?c" by (auto split: if_splits)
    have m: "net_boot_mode c = net_boot_mode ?c"
      using arg_cong [OF view, of net_boot_mode] by (simp add: cfg_view_def cfg_merge_def)
    have "net_boot_mode c \<le> 1" using w by (simp add: m cfg_wf_def)
    then show ?thesis using fit by (simp add: l Some f [where c = c] view m cfg_restored_def)
  qed
qed

text \<open>
  C21: what is saved is what the next boot loads.  When the strings leave two bytes of their
  arrays unused, the next boot sees the saved configuration, with an empty string or a zero port
  replaced by the default of the build and the boot mode decided by the build; when one string
  is as long as its array allows, the next boot writes beyond the array.
\<close>

theorem config_save_load:
  assumes "nvs_laws N" and "cfg_wf (g_gw_config st)" and "nvs_ok st"
  shows "map_option (\<lambda>st'. cfg_view (g_gw_config st'))
      (config_nvs_load N k True 0 (boot\<lparr>nvs := nvs (config_nvs_save N st)\<rparr>)) =
    (if cfg_fits (g_gw_config st) then Some (cfg_restored k (g_gw_config st)) else None)"
  using assms by (rule saved_then_loaded)

text \<open>A storage that keeps the entries in memory, and a build.\<close>

definition ram_nvs :: "(nat \<Rightarrow> bytes option) nvs_ops" where
  "ram_nvs = \<lparr>nvs_read = (\<lambda>s k. s k), nvs_write = (\<lambda>s k v. s(k := Some v)),
              nvs_delete = (\<lambda>s k. s(k := None))\<rparr>"

lemma nvs_laws_ram [simp]: "nvs_laws ram_nvs"
  by (simp add: nvs_laws_def ram_nvs_def)

definition sample_kconfig :: kconfig where
  "sample_kconfig =
     \<lparr>k_line_id = [0x4C, 0x31], k_device_id = Some 7, k_eth_ip = [0x31], k_eth_netmask = [0x32],
      k_eth_gw = [0x33], k_eth_tcp_peer_ip = [0x34], k_eth_tcp_peer_port = 5000,
      k_eth_udp_peer_ip = [0x35], k_eth_udp_peer_port = 5001, k_wifi_enable = True,
      k_wifi_ssid = [0x36], k_wifi_psk = [0x37], k_wifi_ip = [0x38], k_wifi_netmask = [0x39],
      k_wifi_gw = [0x40], k_wifi_tcp_peer_ip = [0x41], k_wifi_tcp_peer_port = 5002,
      k_wifi_udp_peer_ip = [0x42], k_wifi_udp_peer_port = 5003, k_net_boot_default = 1,
      k_force_eth = False, k_force_wifi = False\<rparr>"

definition sample_cfg_state :: "(nat \<Rightarrow> bytes option) cfg_state" where
  "sample_cfg_state = \<lparr>g_gw_config = load_defaults sample_kconfig, nvs_ok = True,
                       nvs = (\<lambda>_. None)\<rparr>"

lemma config_load_wf_witness:
  "\<exists>st'. config_nvs_load ram_nvs sample_kconfig True 0
           (sample_cfg_state\<lparr>nvs := [KEY_SCHEMA_VER \<mapsto> [8, 0], KEY_NET_BOOT_MODE \<mapsto> [0]]\<rparr>) = Some st' \<and>
    net_boot_mode (g_gw_config st') = GW_NET_BOOT_WIFI \<and> cfg_wf (g_gw_config st')"
proof -
  let ?st = "sample_cfg_state\<lparr>nvs := [KEY_SCHEMA_VER \<mapsto> [8, 0], KEY_NET_BOOT_MODE \<mapsto> [0]]\<rparr>"
  have v: "u16_of_bytes [8, 0] = 8" by (simp add: u16_of_bytes_def sys_get_be16_def)
  obtain st' where s: "config_nvs_load ram_nvs sample_kconfig True 0 ?st = Some st'"
    "net_boot_mode (g_gw_config st') = 0"
    by (simp add: config_nvs_load_def nvs_init_fs_def ram_nvs_def nvs_rd_u16_def v cfg_read_fields_def
        nvs_rd_str_def nvs_rd_u8_boot_mode_def cfg_build_boot_mode_def cfg_force_boot_mode_def
        sample_kconfig_def Let_def)
  with config_load_wf [OF s(1)] show ?thesis by blast
qed

lemma config_save_load_witness:
  "map_option (\<lambda>st'. cfg_view (g_gw_config st'))
      (config_nvs_load ram_nvs sample_kconfig True 0
        (sample_cfg_state\<lparr>nvs := nvs (config_nvs_save ram_nvs sample_cfg_state)\<rparr>)) =
    Some (cfg_restored sample_kconfig (g_gw_config sample_cfg_state)) \<and>
   map_option (\<lambda>st'. cfg_view (g_gw_config st'))
      (config_nvs_load ram_nvs sample_kconfig True 0
        (sample_cfg_state\<lparr>nvs := nvs (config_nvs_save ram_nvs
          (sample_cfg_state\<lparr>g_gw_config := (load_defaults sample_kconfig)
              \<lparr>eth_ip := replicate 15 0x31 @ [0]\<rparr>\<rparr>))\<rparr>)) = None"
proof -
  have fit: "cfg_fits (g_gw_config sample_cfg_state)"
    by code_simp
  let ?long = "sample_cfg_state\<lparr>g_gw_config := (load_defaults sample_kconfig)
              \<lparr>eth_ip := replicate 15 0x31 @ [0]\<rparr>\<rparr>"
  have nofit: "\<not> cfg_fits (g_gw_config ?long)" by code_simp
  have "field_ok 16 (replicate 15 0x31 @ [0])" by code_simp
  then have w: "cfg_wf (g_gw_config ?long)"
    using cfg_wf_load_defaults [of sample_kconfig] by (simp add: cfg_wf_def)
  have w0: "cfg_wf (g_gw_config sample_cfg_state)" by (simp add: sample_cfg_state_def)
  have ok: "nvs_ok sample_cfg_state" "nvs_ok ?long" by (simp_all add: sample_cfg_state_def)
  show ?thesis
    using config_save_load [OF nvs_laws_ram w0 ok(1)] config_save_load [OF nvs_laws_ram w ok(2)]
      fit nofit by presburger
qed

section \<open>The console\<close>

text \<open>The console is a script: the answers of the polls of the UART to come (\<open>None\<close>: nothing
  received), and the character \<open>cfg_rx_pushback\<close> that was read too early.\<close>

record console =
  rx_pushback :: "u8 option"
  rx_script :: "u8 option list"

definition console_size :: "console \<Rightarrow> nat" where
  "console_size con = length (rx_script con) + (case rx_pushback con of None \<Rightarrow> 0 | Some _ \<Rightarrow> 1)"

fun poll_until_char :: "u8 option list \<Rightarrow> (u8 \<times> u8 option list) option" where
  "poll_until_char [] = None"
| "poll_until_char (None # ps) = poll_until_char ps"
| "poll_until_char (Some c # ps) = Some (c, ps)"

text \<open>\<open>None\<close>: it waits for ever.\<close>

definition cfg_getchar_blocking :: "console \<Rightarrow> (u8 \<times> console) option" where
  "cfg_getchar_blocking con =
     (case rx_pushback con of
        Some c \<Rightarrow> Some (c, con\<lparr>rx_pushback := None\<rparr>)
      | None \<Rightarrow>
          (case poll_until_char (rx_script con) of
             None \<Rightarrow> None
           | Some (c, ps) \<Rightarrow> Some (c, con\<lparr>rx_script := ps\<rparr>)))"

fun crlf_tail :: "u8 option list \<Rightarrow> u8 option \<Rightarrow> u8 option \<times> u8 option list" where
  "crlf_tail [] pb = (pb, [])"
| "crlf_tail (None # ps) pb = (pb, ps)"
| "crlf_tail (Some c # ps) pb =
     (if c \<noteq> 0x0D \<and> c \<noteq> 0x0A then (Some c, ps) else crlf_tail ps pb)"

definition cfg_drain_crlf_tail :: "console \<Rightarrow> console" where
  "cfg_drain_crlf_tail con =
     (let (pb, ps) = crlf_tail (rx_script con) (rx_pushback con)
      in \<lparr>rx_pushback = pb, rx_script = ps\<rparr>)"

fun skip_pending :: "u8 option list \<Rightarrow> u8 option list" where
  "skip_pending [] = []"
| "skip_pending (None # ps) = ps"
| "skip_pending (Some c # ps) = skip_pending ps"

definition cfg_drain_rx_fifo :: "console \<Rightarrow> console" where
  "cfg_drain_rx_fifo con = \<lparr>rx_pushback = None, rx_script = skip_pending (rx_script con)\<rparr>"

lemma poll_until_char_length: "poll_until_char ps = Some (c, ps') \<Longrightarrow> length ps' < length ps"
  by (induction ps rule: poll_until_char.induct) auto

lemma getchar_size: "cfg_getchar_blocking con = Some (c, con') \<Longrightarrow> console_size con' < console_size con"
  by (auto simp: cfg_getchar_blocking_def console_size_def split: option.splits
      dest: poll_until_char_length)

lemma getchar_pushback: "cfg_getchar_blocking con = Some (c, con') \<Longrightarrow> rx_pushback con' = None"
  by (auto simp: cfg_getchar_blocking_def split: option.splits)

lemma crlf_tail_size:
  "crlf_tail ps pb = (pb', ps') \<Longrightarrow>
    length ps' + (case pb' of None \<Rightarrow> 0 | Some _ \<Rightarrow> 1) \<le> length ps + (case pb of None \<Rightarrow> 0 | Some _ \<Rightarrow> 1)"
  by (induction ps pb rule: crlf_tail.induct) (auto split: if_splits option.splits)

lemma drain_crlf_tail_size: "console_size (cfg_drain_crlf_tail con) \<le> console_size con"
  by (auto simp: cfg_drain_crlf_tail_def console_size_def Let_def split: prod.split dest: crlf_tail_size)

text \<open>\<open>read_line\<close> with the characters stored so far; the buffer holds \<open>sz\<close> bytes with the
  null.  The result is the line, without the null.\<close>

function read_line_loop :: "nat \<Rightarrow> bytes \<Rightarrow> console \<Rightarrow> (bytes \<times> console) option" where
  "read_line_loop sz acc con =
     (if length acc \<ge> sz - 1 then Some (acc, con)
      else
        case cfg_getchar_blocking con of
          None \<Rightarrow> None
        | Some (c, con1) \<Rightarrow>
            if c = 0x0D \<or> c = 0x0A
            then Some (acc, if c = 0x0D then cfg_drain_crlf_tail con1 else con1)
            else if (c = 0x08 \<or> c = 0x7F) \<and> length acc > 0 then read_line_loop sz (butlast acc) con1
            else if c < 0x20 then read_line_loop sz acc con1
            else read_line_loop sz (acc @ [c]) con1)"
  by pat_completeness auto
termination
  by (relation "measure (\<lambda>(sz, acc, con). console_size con)") (auto dest: getchar_size)

declare read_line_loop.simps [simp del]

definition read_line :: "nat \<Rightarrow> console \<Rightarrow> (bytes \<times> console) option" where
  "read_line sz con = read_line_loop sz [] con"

text \<open>What one character does.\<close>

lemma read_line_char:
  "\<not> length acc \<ge> sz - 1 \<Longrightarrow> cfg_getchar_blocking con = Some (c, con1) \<Longrightarrow>
    read_line_loop sz acc con =
      (if c = 0x0D \<or> c = 0x0A
       then Some (acc, if c = 0x0D then cfg_drain_crlf_tail con1 else con1)
       else if (c = 0x08 \<or> c = 0x7F) \<and> length acc > 0 then read_line_loop sz (butlast acc) con1
       else if c < 0x20 then read_line_loop sz acc con1
       else read_line_loop sz (acc @ [c]) con1)"
  by (subst read_line_loop.simps) simp

lemma read_line_loop_size:
  "read_line_loop sz acc con = Some (line, con') \<Longrightarrow> console_size con' \<le> console_size con"
proof (induction sz acc con rule: read_line_loop.induct)
  case (1 sz acc con)
  show ?case
  proof (cases "length acc \<ge> sz - 1")
    case True
    with 1(4) show ?thesis by (simp add: read_line_loop.simps)
  next
    case False
    then obtain c con1 where g: "cfg_getchar_blocking con = Some (c, con1)"
      using 1(4) by (subst (asm) read_line_loop.simps) (auto split: option.splits)
    note s = getchar_size [OF g]
    show ?thesis
      using 1(4) 1(1-3) [OF False g refl] s drain_crlf_tail_size [of con1]
      unfolding read_line_char [OF False g] by (auto split: if_splits)
  qed
qed

lemma read_line_size:
  assumes "read_line sz con = Some (line, con')" "sz > 1"
  shows "console_size con' < console_size con"
proof -
  from assms obtain c con1 where g: "cfg_getchar_blocking con = Some (c, con1)"
    by (auto simp: read_line_def read_line_loop.simps split: option.splits)
  have nf: "\<not> length ([] :: bytes) \<ge> sz - 1" using assms(2) by simp
  have "console_size con' \<le> console_size con1"
    using assms(1) drain_crlf_tail_size [of con1]
    unfolding read_line_def read_line_char [OF nf g]
    by (auto split: if_splits dest: read_line_loop_size)
  with getchar_size [OF g] show ?thesis by simp
qed

section \<open>Numbers\<close>

text \<open>The characters of the string up to its null.\<close>

fun parse_port_loop :: "bytes \<Rightarrow> nat \<Rightarrow> nat option" where
  "parse_port_loop [] v = Some v"
| "parse_port_loop (ch # p) v =
     (if ch < 0x30 \<or> ch > 0x39 then None
      else let v' = v * 10 + unat (ch - 0x30) in if v' > 65535 then None else parse_port_loop p v')"

definition parse_port :: "bytes \<Rightarrow> u16 option" where
  "parse_port s =
     (if s = [] then None else map_option word_of_nat (parse_port_loop s 0))"

definition digit :: "u8 \<Rightarrow> bool" where
  "digit ch \<longleftrightarrow> 0x30 \<le> ch \<and> ch \<le> 0x39"

definition decimal :: "bytes \<Rightarrow> nat" where
  "decimal s = foldl (\<lambda>v ch. v * 10 + (unat ch - 48)) 0 s"

lemma decimal_grows: "v \<le> foldl (\<lambda>v ch. v * 10 + (unat ch - 48)) v (s :: bytes)"
proof (induction s arbitrary: v)
  case (Cons ch s)
  show ?case using Cons [of "v * 10 + (unat ch - 48)"] by simp
qed simp

lemma parse_port_loop_eq:
  "v \<le> 65535 \<Longrightarrow> parse_port_loop s v =
    (let d = foldl (\<lambda>v ch. v * 10 + (unat ch - 48)) v s
     in if list_all digit s \<and> d \<le> 65535 then Some d else None)"
proof (induction s arbitrary: v)
  case (Cons ch s)
  let ?v = "v * 10 + (unat ch - 48)"
  show ?case
  proof (cases "digit ch")
    case True
    then have u: "unat (ch - 0x30) = unat ch - 48"
      by (simp add: digit_def unat_sub)
    have "\<not> (ch < 0x30 \<or> ch > 0x39)" using True by (auto simp: digit_def)
    then show ?thesis
      using Cons.IH [of ?v] True decimal_grows [of ?v s] by (auto simp: u Let_def)
  next
    case False
    then show ?thesis by (auto simp: digit_def Let_def)
  qed
qed simp

text \<open>
  \<open>parse_port\<close> accepts exactly the non-empty strings of decimal digits whose value fits 16
  bits, leading zeros included, and returns that value.
\<close>

theorem parse_port_iff:
  "parse_port s = Some p \<longleftrightarrow>
    s \<noteq> [] \<and> list_all digit s \<and> decimal s \<le> 65535 \<and> p = word_of_nat (decimal s)"
  by (auto simp: parse_port_def parse_port_loop_eq decimal_def Let_def)

lemma parse_port_iff_witness: "parse_port [0x38, 0x30] = Some 80 \<and> parse_port [0x36, 0x35, 0x35, 0x33, 0x36] = None"
proof -
  have "digit 0x38" "digit 0x30" by (simp_all add: digit_def word_le_nat_alt)
  then have "parse_port [0x38, 0x30] = Some 80"
    by (subst parse_port_iff) (simp add: decimal_def)
  moreover have "\<not> decimal [0x36, 0x35, 0x35, 0x33, 0x36] \<le> 65535"
    by (simp add: decimal_def)
  then have "parse_port [0x36, 0x35, 0x35, 0x33, 0x36] \<noteq> Some p" for p
    by (subst parse_port_iff) simp
  ultimately show ?thesis by blast
qed

section \<open>The menu\<close>

abbreviation (input) CFG_MENU_BUF :: nat where "CFG_MENU_BUF \<equiv> 72"

text \<open>The item that is edited: \<open>sel\<close> is the upper-case key, \<open>buf\<close> the new value; an invalid
  number or an unknown item changes nothing.\<close>

definition cfg_port :: "bytes \<Rightarrow> u16 \<Rightarrow> u16" where
  "cfg_port buf p = (case parse_port buf of Some port \<Rightarrow> port | None \<Rightarrow> p)"

definition cfg_menu_item :: "u8 \<Rightarrow> bytes \<Rightarrow> gw_config \<Rightarrow> gw_config" where
  "cfg_menu_item sel buf c =
     (if sel = 0x31 then c\<lparr>master_code := cfg_set_str (master_code c) buf\<rparr>
      else if sel = 0x32 then c\<lparr>device_index := cfg_port buf (device_index c)\<rparr>
      else if sel = 0x33 then c\<lparr>eth_ip := cfg_set_str (eth_ip c) buf\<rparr>
      else if sel = 0x34 then c\<lparr>eth_netmask := cfg_set_str (eth_netmask c) buf\<rparr>
      else if sel = 0x35 then c\<lparr>eth_gw := cfg_set_str (eth_gw c) buf\<rparr>
      else if sel = 0x36 then c\<lparr>eth_tcp_server_ip := cfg_set_str (eth_tcp_server_ip c) buf\<rparr>
      else if sel = 0x37 then c\<lparr>eth_tcp_server_port := cfg_port buf (eth_tcp_server_port c)\<rparr>
      else if sel = 0x38 then c\<lparr>eth_udp_server_ip := cfg_set_str (eth_udp_server_ip c) buf\<rparr>
      else if sel = 0x39 then c\<lparr>eth_udp_server_port := cfg_port buf (eth_udp_server_port c)\<rparr>
      else if sel = 0x41 then c\<lparr>wifi_ssid := cfg_set_str (wifi_ssid c) buf\<rparr>
      else if sel = 0x42 then c\<lparr>wifi_psk := cfg_set_str (wifi_psk c) buf\<rparr>
      else if sel = 0x43 then c\<lparr>wifi_ip := cfg_set_str (wifi_ip c) buf\<rparr>
      else if sel = 0x44 then c\<lparr>wifi_netmask := cfg_set_str (wifi_netmask c) buf\<rparr>
      else if sel = 0x45 then c\<lparr>wifi_gw := cfg_set_str (wifi_gw c) buf\<rparr>
      else if sel = 0x46 then c\<lparr>wifi_tcp_server_ip := cfg_set_str (wifi_tcp_server_ip c) buf\<rparr>
      else if sel = 0x47 then c\<lparr>wifi_tcp_server_port := cfg_port buf (wifi_tcp_server_port c)\<rparr>
      else if sel = 0x48 then c\<lparr>wifi_udp_server_ip := cfg_set_str (wifi_udp_server_ip c) buf\<rparr>
      else if sel = 0x49 then c\<lparr>wifi_udp_server_port := cfg_port buf (wifi_udp_server_port c)\<rparr>
      else c)"

definition cfg_menu_mode :: "bytes \<Rightarrow> gw_config \<Rightarrow> gw_config" where
  "cfg_menu_mode buf c =
     (if buf \<noteq> [] \<and> hd buf \<ge> 0x30 \<and> hd buf \<le> 0x31 then c\<lparr>net_boot_mode := hd buf - 0x30\<rparr> else c)"

definition upper_key :: "u8 \<Rightarrow> u8" where
  "upper_key sel = (if sel \<ge> 0x61 \<and> sel \<le> 0x7A then sel - 32 else sel)"

text \<open>The loop of the menu, in the build without the DI/DO and gas sensor submenus.  It leaves
  with the configuration saved or not, or waits for input that does not come.\<close>

datatype menu_exit = Waiting | Saved | Unsaved

function cfg_menu_letter_loop ::
    "'s nvs_ops \<Rightarrow> kconfig \<Rightarrow> console \<Rightarrow> 's cfg_state \<Rightarrow> menu_exit \<times> console \<times> 's cfg_state" where
  "cfg_menu_letter_loop N k con st =
     (case read_line CFG_MENU_BUF con of
        None \<Rightarrow> (Waiting, con, st)
      | Some (buf, con1) \<Rightarrow>
          if buf = [] then cfg_menu_letter_loop N k con1 st
          else
            let sel = upper_key (hd buf)
            in if sel = 0x51 then (Unsaved, con1, st)
               else if sel = 0x53 then (Saved, con1, config_nvs_save N st)
               else if sel = 0x52 then cfg_menu_letter_loop N k con1 (cfg_reset_to_defaults N k True st)
               else if sel = 0x57
               then cfg_menu_letter_loop N k con1
                      (st\<lparr>g_gw_config := (g_gw_config st)\<lparr>net_boot_mode := GW_NET_BOOT_WIFI\<rparr>\<rparr>)
               else if sel = 0x4C
               then cfg_menu_letter_loop N k con1
                      (st\<lparr>g_gw_config := (g_gw_config st)\<lparr>net_boot_mode := GW_NET_BOOT_ETH\<rparr>\<rparr>)
               else
                 case read_line CFG_MENU_BUF con1 of
                   None \<Rightarrow> (Waiting, con1, st)
                 | Some (val, con2) \<Rightarrow>
                     if sel = 0x4E
                     then cfg_menu_letter_loop N k con2
                            (st\<lparr>g_gw_config := cfg_menu_mode val (g_gw_config st)\<rparr>)
                     else if val = [] then cfg_menu_letter_loop N k con2 st
                     else cfg_menu_letter_loop N k con2
                            (st\<lparr>g_gw_config := cfg_menu_item sel val (g_gw_config st)\<rparr>))"
  by pat_completeness auto
termination
  by (relation "measure (\<lambda>(N, k, con, st). console_size con)")
    (auto dest!: read_line_size simp del: One_nat_def)

declare cfg_menu_letter_loop.simps [simp del]

text \<open>The wait for the key that opens the menu: each turn is the uptime and the answer of the
  poll that follows; \<open>None\<close> is \<open>-1\<close>.\<close>

fun cfg_wait_for_setup_key :: "int \<Rightarrow> (int \<times> u8 option) list \<Rightarrow> u8 option" where
  "cfg_wait_for_setup_key deadline [] = None"
| "cfg_wait_for_setup_key deadline ((now, poll) # ts) =
     (if now \<ge> deadline then None
      else case poll of Some c \<Rightarrow> Some c | None \<Rightarrow> cfg_wait_for_setup_key deadline ts)"

definition config_nvs_menu ::
    "'s nvs_ops \<Rightarrow> kconfig \<Rightarrow> bool \<Rightarrow> int \<Rightarrow> (int \<times> u8 option) list \<Rightarrow> console \<Rightarrow> 's cfg_state \<Rightarrow>
       menu_exit \<times> console \<times> 's cfg_state" where
  "config_nvs_menu N k uart_ready now turns con st =
     (if \<not> uart_ready then (Unsaved, con, st)
      else
        case cfg_wait_for_setup_key (now + 15 * 1000) turns of
          None \<Rightarrow> (Unsaved, con, st)
        | Some c \<Rightarrow>
            cfg_menu_letter_loop N k (cfg_drain_rx_fifo (cfg_drain_crlf_tail con)) st)"

lemma cfg_menu_mode_cases:
  "cfg_menu_mode buf c = c \<or> (\<exists>m \<le> 1. cfg_menu_mode buf c = c\<lparr>net_boot_mode := m\<rparr>)"
proof (cases "buf \<noteq> [] \<and> hd buf \<ge> 0x30 \<and> hd buf \<le> 0x31")
  case True
  then have "unat (hd buf - 0x30) = unat (hd buf) - 48" by (simp add: unat_sub)
  moreover have "unat (hd buf) \<le> 49" using True by (simp add: word_le_nat_alt)
  ultimately have "hd buf - 0x30 \<le> 1" by (simp add: word_le_nat_alt)
  then show ?thesis unfolding cfg_menu_mode_def if_P [OF True] by blast
next
  case False
  then show ?thesis unfolding cfg_menu_mode_def by (simp only: if_False simp_thms)
qed

lemma cfg_wf_if: "cfg_wf a \<Longrightarrow> cfg_wf b \<Longrightarrow> cfg_wf (if q then a else b)"
  by simp

lemma cfg_wf_menu_item: "cfg_wf c \<Longrightarrow> cfg_wf (cfg_menu_item sel buf c)"
  unfolding cfg_menu_item_def
  by (intro cfg_wf_if; simp add: cfg_wf_def field_ok_cfg_set_str)

text \<open>What holds of the state at the start, and is kept by every choice of the menu, holds when
  the menu is left; \<open>S\<close> saves such a state.\<close>

lemma menu_invariant:
  assumes reset: "\<And>s. P s \<Longrightarrow> P (cfg_reset_to_defaults N k True s)"
    and mode: "\<And>s m. P s \<Longrightarrow> m \<le> 1 \<Longrightarrow> P (s\<lparr>g_gw_config := (g_gw_config s)\<lparr>net_boot_mode := m\<rparr>\<rparr>)"
    and item: "\<And>s sel buf. P s \<Longrightarrow> P (s\<lparr>g_gw_config := cfg_menu_item sel buf (g_gw_config s)\<rparr>)"
  shows "P st \<Longrightarrow> cfg_menu_letter_loop N k con st = (ex, con', st') \<Longrightarrow>
    (if ex = Saved then \<exists>s. P s \<and> st' = config_nvs_save N s else P st')"
proof -
  define Q where "Q \<longleftrightarrow> (if ex = Saved then \<exists>s. P s \<and> st' = config_nvs_save N s else P st')"
  have Q: "P s \<Longrightarrow> ex \<noteq> Saved \<Longrightarrow> st' = s \<Longrightarrow> Q" "P s \<Longrightarrow> ex = Saved \<Longrightarrow> st' = config_nvs_save N s \<Longrightarrow> Q" for s
    by (auto simp: Q_def)
  have "P st \<Longrightarrow> cfg_menu_letter_loop N k con st = (ex, con', st') \<Longrightarrow> Q" for con st
proof (induction "console_size con" arbitrary: con st rule: less_induct)
  case less
  have typed: "P (s\<lparr>g_gw_config := cfg_menu_mode buf (g_gw_config s)\<rparr>)" if "P s" for s buf
    using cfg_menu_mode_cases [of buf "g_gw_config s"] that mode by auto
  show ?case
  proof (cases "read_line CFG_MENU_BUF con")
    case None
    then show ?thesis using less.prems Q(1) by (simp add: cfg_menu_letter_loop.simps)
  next
    case (Some p)
    then obtain buf con1 where r1: "read_line CFG_MENU_BUF con = Some (buf, con1)" by fastforce
    have s1: "console_size con1 < console_size con" by (rule read_line_size [OF r1]) simp
    note IH1 = less.hyps [OF s1]
    note e = less.prems(2) [unfolded cfg_menu_letter_loop.simps [of N k con st] r1 Let_def]
    have IH2: "P s2 \<Longrightarrow> cfg_menu_letter_loop N k con2 s2 = (ex, con', st') \<Longrightarrow> Q"
      if "read_line CFG_MENU_BUF con1 = Some (val, con2)" for val con2 s2
      using less.hyps [of con2 s2] read_line_size [OF that] s1 by simp
    show ?thesis
    proof (cases "read_line CFG_MENU_BUF con1")
      case None
      then show ?thesis
        using e IH1 [OF less.prems(1)] IH1 [OF reset [OF less.prems(1)]]
          IH1 [OF mode [OF less.prems(1), of 0]] IH1 [OF mode [OF less.prems(1), of 1]]
          Q [OF less.prems(1)]
        by (simp split: if_splits)
    next
      case (Some p)
      then obtain val con2 where r2: "read_line CFG_MENU_BUF con1 = Some (val, con2)" by fastforce
      show ?thesis
        using e IH1 [OF less.prems(1)] IH1 [OF reset [OF less.prems(1)]]
          IH1 [OF mode [OF less.prems(1), of 0]] IH1 [OF mode [OF less.prems(1), of 1]]
          IH2 [OF r2 less.prems(1)] IH2 [OF r2 typed [OF less.prems(1)]]
          IH2 [OF r2 item [OF less.prems(1)]] Q [OF less.prems(1)]
        by (simp add: r2 split: if_splits)
    qed
  qed
qed
then show "P st \<Longrightarrow> cfg_menu_letter_loop N k con st = (ex, con', st') \<Longrightarrow>
    (if ex = Saved then \<exists>s. P s \<and> st' = config_nvs_save N s else P st')"
    unfolding Q_def by blast
qed

text \<open>Entries of the storage are only ever deleted by the menu, except by \<open>S\<close>.\<close>

definition only_deleted :: "'s nvs_ops \<Rightarrow> 's \<Rightarrow> 's \<Rightarrow> bool" where
  "only_deleted N s0 s \<longleftrightarrow> (\<forall>key. nvs_read N s key = None \<or> nvs_read N s key = nvs_read N s0 key)"

lemma only_deleted_delete_all:
  assumes "nvs_laws N" "only_deleted N s0 s"
  shows "only_deleted N s0 (nvs_delete_all N s)"
proof -
  have "only_deleted N s0 (fold (\<lambda>k s. nvs_delete N s k) ks s)" for ks
    using assms(2)
  proof (induction ks arbitrary: s)
    case (Cons k ks)
    have "only_deleted N s0 (nvs_delete N s k)"
      using Cons.prems assms(1) by (simp add: only_deleted_def nvs_laws_def)
    with Cons.IH show ?case by simp
  qed simp
  then show ?thesis by (simp add: nvs_delete_all_def)
qed

lemma menu_keeps:
  assumes N: "nvs_laws N" and w: "cfg_wf (g_gw_config st)"
    and run: "cfg_menu_letter_loop N k con st = (ex, con', st')"
  shows "if ex = Saved
    then \<exists>s. (cfg_wf (g_gw_config s) \<and> nvs_ok s = nvs_ok st \<and> only_deleted N (nvs st) (nvs s)) \<and>
      st' = config_nvs_save N s
    else cfg_wf (g_gw_config st') \<and> nvs_ok st' = nvs_ok st \<and> only_deleted N (nvs st) (nvs st')"
proof (rule menu_invariant [where P = "\<lambda>s. cfg_wf (g_gw_config s) \<and> nvs_ok s = nvs_ok st \<and>
      only_deleted N (nvs st) (nvs s)", OF _ _ _ _ run])
  fix s :: "'a cfg_state" and m and sel and buf
  assume s: "cfg_wf (g_gw_config s) \<and> nvs_ok s = nvs_ok st \<and> only_deleted N (nvs st) (nvs s)"
  show "cfg_wf (g_gw_config (cfg_reset_to_defaults N k True s)) \<and>
      nvs_ok (cfg_reset_to_defaults N k True s) = nvs_ok st \<and>
      only_deleted N (nvs st) (nvs (cfg_reset_to_defaults N k True s))"
    using s only_deleted_delete_all [OF N] by (simp add: cfg_reset_to_defaults_def Let_def)
  show "cfg_wf (g_gw_config (s\<lparr>g_gw_config := (g_gw_config s)\<lparr>net_boot_mode := m\<rparr>\<rparr>)) \<and>
      nvs_ok (s\<lparr>g_gw_config := (g_gw_config s)\<lparr>net_boot_mode := m\<rparr>\<rparr>) = nvs_ok st \<and>
      only_deleted N (nvs st) (nvs (s\<lparr>g_gw_config := (g_gw_config s)\<lparr>net_boot_mode := m\<rparr>\<rparr>))"
    if "m \<le> 1" using s that by (simp add: cfg_wf_def)
  show "cfg_wf (g_gw_config (s\<lparr>g_gw_config := cfg_menu_item sel buf (g_gw_config s)\<rparr>)) \<and>
      nvs_ok (s\<lparr>g_gw_config := cfg_menu_item sel buf (g_gw_config s)\<rparr>) = nvs_ok st \<and>
      only_deleted N (nvs st) (nvs (s\<lparr>g_gw_config := cfg_menu_item sel buf (g_gw_config s)\<rparr>))"
    using s cfg_wf_menu_item by simp
qed (use w in \<open>simp add: only_deleted_def\<close>)


section \<open>Typing at the menu\<close>

text \<open>A line as a terminal sends it, with a pause after it.\<close>

definition typed :: "bytes \<Rightarrow> u8 option list" where
  "typed t = map Some t @ [Some 0x0D, None]"

definition printable :: "u8 \<Rightarrow> bool" where
  "printable c \<longleftrightarrow> 0x20 \<le> c \<and> c \<noteq> 0x7F"

lemma read_line_loop_typed:
  assumes "list_all printable t" "length acc + length t < sz - 1"
  shows "read_line_loop sz acc \<lparr>rx_pushback = None, rx_script = typed t @ rest\<rparr> =
    Some (acc @ t, \<lparr>rx_pushback = None, rx_script = rest\<rparr>)"
  using assms
proof (induction t arbitrary: acc)
  case Nil
  then show ?case
    by (subst read_line_loop.simps) (simp add: typed_def cfg_getchar_blocking_def cfg_drain_crlf_tail_def)
next
  case (Cons c t)
  have c: "\<not> c < 0x20" "c \<noteq> 0x7F" using Cons.prems by (auto simp: printable_def not_less)
  then have c': "c \<noteq> 0x0D" "c \<noteq> 0x0A" "c \<noteq> 0x08" by (auto simp: word_less_nat_alt)
  have t: "typed (c # t) = Some c # typed t" by (simp add: typed_def)
  have "read_line_loop sz acc \<lparr>rx_pushback = None, rx_script = typed (c # t) @ rest\<rparr> =
      read_line_loop sz (acc @ [c]) \<lparr>rx_pushback = None, rx_script = typed t @ rest\<rparr>"
    using Cons.prems(2) c c' by (subst read_line_loop.simps) (simp add: t cfg_getchar_blocking_def)
  also have "\<dots> = Some ((acc @ [c]) @ t, \<lparr>rx_pushback = None, rx_script = rest\<rparr>)"
    using Cons.prems by (intro Cons.IH) simp_all
  finally show ?case by simp
qed

lemma read_line_typed:
  "list_all printable t \<Longrightarrow> length t < 71 \<Longrightarrow>
    read_line CFG_MENU_BUF \<lparr>rx_pushback = None, rx_script = typed t @ rest\<rparr> =
      Some (t, \<lparr>rx_pushback = None, rx_script = rest\<rparr>)"
  using read_line_loop_typed [of t "[]" CFG_MENU_BUF rest] by (simp add: read_line_def)


lemma menu_typed:
  assumes "printable x" "upper_key x \<notin> {0x51, 0x53, 0x52, 0x4E, 0x57, 0x4C}"
    and "list_all printable t" "length t < 71" "t \<noteq> []"
  shows "cfg_menu_letter_loop N k \<lparr>rx_pushback = None, rx_script = typed [x] @ typed t @ rest\<rparr> st =
    cfg_menu_letter_loop N k \<lparr>rx_pushback = None, rx_script = rest\<rparr>
      (st\<lparr>g_gw_config := cfg_menu_item (upper_key x) t (g_gw_config st)\<rparr>)"
  using assms
  by (subst cfg_menu_letter_loop.simps) (simp add: read_line_typed Let_def)



end
