(* ===== verification/Wifi_Manager.thy ===== *)
theory Wifi_Manager
  imports Config_Nvs
begin

text \<open>
  \<^verbatim>\<open>src/wifi_manager.c\<close>: association with the access point and the static address of the WiFi
  interface.  The network stack, the kernel's clock and the pins are the platform's: its state
  has the type \<open>'d\<close>, its calls are the fields of \<open>net_drv\<close>, and a call that takes time gives
  the state the platform has afterwards.
\<close>

section \<open>The platform\<close>

type_synonym in_addr = u32

text \<open>An interface is named by its handle, a registered router by its own.\<close>

type_synonym net_if = nat

datatype gpio = Eth_reset | Wifi_pd | Wifi_pwr
datatype gpio_flags = GPIO_OUTPUT | GPIO_OUTPUT_ACTIVE

text \<open>The management events \<open>on_wifi_event\<close> is registered for, with the status of the first.\<close>

datatype wifi_event = Connect_result int | Disconnect_result

datatype wifi_security = SEC_NONE | SEC_PSK | SEC_SAE_AUTO | SEC_WPA_AUTO_PERSONAL
datatype wifi_band = BAND_UNKNOWN | BAND_2_4_GHZ | BAND_5_GHZ

text \<open>A string and its length together are a byte list; a credential that is not passed is
  \<open>None\<close>.  Channel (any) and frame protection (optional) are constants.\<close>

record wifi_params =
  wp_ssid :: bytes
  wp_psk :: "bytes option"
  wp_sae_password :: "bytes option"
  wp_security :: wifi_security
  wp_band :: wifi_band

record 'd net_drv =
  nd_pton :: "bytes \<Rightarrow> in_addr option"
  nd_if_by_index :: "nat \<Rightarrow> 'd \<Rightarrow> net_if option"
  nd_first_wifi :: "'d \<Rightarrow> net_if option"
  nd_l2_ethernet :: "net_if \<Rightarrow> 'd \<Rightarrow> bool"
  nd_admin_up :: "net_if \<Rightarrow> 'd \<Rightarrow> bool"
  nd_is_up :: "net_if \<Rightarrow> 'd \<Rightarrow> bool"
  nd_lower_up :: "net_if \<Rightarrow> 'd \<Rightarrow> bool"
  nd_if_up :: "net_if \<Rightarrow> 'd \<Rightarrow> 'd"
  nd_if_down :: "net_if \<Rightarrow> 'd \<Rightarrow> 'd"
  nd_dhcp_stop :: "net_if \<Rightarrow> 'd \<Rightarrow> 'd"
  nd_set_default :: "net_if \<Rightarrow> 'd \<Rightarrow> 'd"
  nd_addr_add :: "net_if \<Rightarrow> in_addr \<Rightarrow> 'd \<Rightarrow> bool \<times> 'd"
  nd_addr_rm :: "net_if \<Rightarrow> in_addr \<Rightarrow> 'd \<Rightarrow> 'd"
  nd_addr_lookup :: "net_if \<Rightarrow> in_addr \<Rightarrow> 'd \<Rightarrow> bool"
  nd_set_netmask :: "net_if \<Rightarrow> in_addr \<Rightarrow> in_addr \<Rightarrow> 'd \<Rightarrow> 'd"
  nd_set_gw :: "net_if \<Rightarrow> in_addr \<Rightarrow> 'd \<Rightarrow> 'd"
  nd_router_lookup :: "net_if \<Rightarrow> in_addr \<Rightarrow> 'd \<Rightarrow> nat option"
  nd_router_rm :: "nat \<Rightarrow> 'd \<Rightarrow> 'd"
  nd_router_add :: "net_if \<Rightarrow> in_addr \<Rightarrow> 'd \<Rightarrow> bool \<times> 'd"
  nd_add_event_callback :: "'d \<Rightarrow> 'd"
  nd_wifi_connect :: "net_if \<Rightarrow> wifi_params \<Rightarrow> 'd \<Rightarrow> int \<times> 'd"
  nd_wifi_disconnect :: "net_if \<Rightarrow> 'd \<Rightarrow> 'd"
  nd_msleep :: "nat \<Rightarrow> 'd \<Rightarrow> 'd"
  nd_wait :: "nat \<Rightarrow> 'd \<Rightarrow> wifi_event list \<times> 'd"
  nd_gpio_ready :: "gpio \<Rightarrow> 'd \<Rightarrow> bool"
  nd_gpio_configure :: "gpio \<Rightarrow> gpio_flags \<Rightarrow> 'd \<Rightarrow> 'd"
  nd_gpio_set :: "gpio \<Rightarrow> bool \<Rightarrow> 'd \<Rightarrow> 'd"

text \<open>The build: the WiFi switch, the security choice, the scan band and the delay of the
  first attempt.\<close>

datatype security_choice = Choice_open | Choice_wpa2 | Choice_wpa3 | Choice_wpa_auto

record net_build =
  nb_wifi_enable :: bool
  nb_security :: security_choice
  nb_band_2_4 :: bool
  nb_band_5 :: bool
  nb_defer_wifi_ms :: nat

section \<open>State\<close>

text \<open>The semaphores have the limit one.\<close>

record 'd wifi_state =
  w_dev :: 'd
  sem_connected :: nat
  sem_wifi_ready :: nat
  s_mgr_inited :: bool

definition wifi_boot :: "'d \<Rightarrow> 'd wifi_state" where
  "wifi_boot d = \<lparr>w_dev = d, sem_connected = 0, sem_wifi_ready = 0, s_mgr_inited = False\<rparr>"

definition k_sem_give :: "nat \<Rightarrow> nat" where
  "k_sem_give n = min 1 (n + 1)"

definition on_wifi_event :: "wifi_event \<Rightarrow> 'd wifi_state \<Rightarrow> 'd wifi_state" where
  "on_wifi_event ev w =
     (case ev of
        Connect_result st \<Rightarrow>
          if st = 0 then w\<lparr>sem_connected := k_sem_give (sem_connected w)\<rparr> else w
      | Disconnect_result \<Rightarrow> w)"

text \<open>\<open>k_sem_take\<close> on \<open>sem_connected\<close>: if it is not available, the thread sleeps and the
  events of that time are handled; the answer is whether it got the semaphore.\<close>

definition take_connected :: "'d net_drv \<Rightarrow> nat \<Rightarrow> 'd wifi_state \<Rightarrow> bool \<times> 'd wifi_state" where
  "take_connected D timeout w =
     (if sem_connected w > 0 then (True, w\<lparr>sem_connected := sem_connected w - 1\<rparr>)
      else case nd_wait D timeout (w_dev w) of
             (evs, d) \<Rightarrow>
               let w1 = fold on_wifi_event evs (w\<lparr>w_dev := d\<rparr>)
               in if sem_connected w1 > 0 then (True, w1\<lparr>sem_connected := sem_connected w1 - 1\<rparr>)
                  else (False, w1))"

section \<open>Connecting\<close>

definition wifi_fill_connect_params :: "net_build \<Rightarrow> gw_config \<Rightarrow> wifi_params" where
  "wifi_fill_connect_params B c =
     (let psk = c_str (wifi_psk c);
          p = \<lparr>wp_ssid = c_str (wifi_ssid c), wp_psk = None, wp_sae_password = None,
               wp_security = SEC_NONE,
               wp_band = (if nb_band_2_4 B then BAND_2_4_GHZ
                          else if nb_band_5 B then BAND_5_GHZ else BAND_UNKNOWN)\<rparr>
      in case nb_security B of
           Choice_wpa3 \<Rightarrow> p\<lparr>wp_sae_password := Some psk, wp_security := SEC_SAE_AUTO\<rparr>
         | Choice_wpa_auto \<Rightarrow>
             p\<lparr>wp_psk := Some psk, wp_sae_password := Some psk,
               wp_security := SEC_WPA_AUTO_PERSONAL\<rparr>
         | Choice_wpa2 \<Rightarrow> p\<lparr>wp_psk := Some psk, wp_security := SEC_PSK\<rparr>
         | Choice_open \<Rightarrow> p)"

definition wifi_set_static_ip ::
    "'d net_drv \<Rightarrow> gw_config \<Rightarrow> net_if \<Rightarrow> 'd \<Rightarrow> errno option \<times> 'd" where
  "wifi_set_static_ip D c i d =
     (case (nd_pton D (c_str (wifi_ip c)), nd_pton D (c_str (wifi_netmask c)),
            nd_pton D (c_str (wifi_gw c))) of
        (Some addr, Some netmask, Some gw) \<Rightarrow>
          (case nd_addr_add D i addr d of
             (False, d1) \<Rightarrow> (Some ENODEV, d1)
           | (True, d1) \<Rightarrow>
               let d2 = nd_set_default D i (nd_set_gw D i gw (nd_set_netmask D i addr netmask d1));
                   d3 = (case nd_router_lookup D i gw d2 of
                           None \<Rightarrow> d2 | Some old \<Rightarrow> nd_router_rm D old d2)
               in (None, snd (nd_router_add D i gw d3)))
      | _ \<Rightarrow> (Some EINVAL, d))"

definition wifi_mgr_init :: "'d net_drv \<Rightarrow> 'd wifi_state \<Rightarrow> errno option \<times> 'd wifi_state" where
  "wifi_mgr_init D w =
     (if s_mgr_inited w then (None, w)
      else case nd_first_wifi D (w_dev w) of
             None \<Rightarrow> (Some ENODEV, w)
           | Some _ \<Rightarrow>
               (None, w\<lparr>w_dev := nd_msleep D 2000 (nd_add_event_callback D (w_dev w)),
                        s_mgr_inited := True\<rparr>))"

definition wifi_connect_once ::
    "'d net_drv \<Rightarrow> net_build \<Rightarrow> gw_config \<Rightarrow> nat \<Rightarrow> 'd wifi_state \<Rightarrow> errno option \<times> 'd wifi_state" where
  "wifi_connect_once D B c timeout_ms w =
     (case wifi_mgr_init D w of
        (Some _, w1) \<Rightarrow> (Some ENODEV, w1)
      | (None, w1) \<Rightarrow>
          (case nd_first_wifi D (w_dev w1) of
             None \<Rightarrow> (Some ENODEV, w1)
           | Some i \<Rightarrow>
               (case nd_wifi_connect D i (wifi_fill_connect_params B c) (w_dev w1) of
                  (r, d2) \<Rightarrow>
                    let w2 = w1\<lparr>sem_connected := 0, w_dev := d2\<rparr>
                    in if r \<noteq> 0 then (Some EIO, w2)
                       else case take_connected D timeout_ms w2 of
                              (False, w3) \<Rightarrow> (Some ETIMEDOUT, w3)
                            | (True, w3) \<Rightarrow>
                                (case wifi_set_static_ip D c i (w_dev w3) of
                                   (e, d4) \<Rightarrow> (e, w3\<lparr>w_dev := d4\<rparr>)))))"

definition wifi_is_ready :: "'d net_drv \<Rightarrow> gw_config \<Rightarrow> 'd \<Rightarrow> bool" where
  "wifi_is_ready D c d =
     (case nd_first_wifi D d of
        None \<Rightarrow> False
      | Some i \<Rightarrow>
          if \<not> nd_is_up D i d \<or> \<not> nd_lower_up D i d then False
          else case nd_pton D (c_str (wifi_ip c)) of
                 None \<Rightarrow> False
               | Some want \<Rightarrow> nd_addr_lookup D i want d)"

definition wifi_force_disconnect :: "'d net_drv \<Rightarrow> 'd \<Rightarrow> 'd" where
  "wifi_force_disconnect D d =
     (case nd_first_wifi D d of None \<Rightarrow> d | Some i \<Rightarrow> nd_wifi_disconnect D i d)"

text \<open>The older one-shot task, which connects once and raises \<open>sem_wifi_ready\<close>.  It does not
  reset \<open>sem_connected\<close>.\<close>

definition wifi_task :: "'d net_drv \<Rightarrow> net_build \<Rightarrow> gw_config \<Rightarrow> 'd wifi_state \<Rightarrow> 'd wifi_state" where
  "wifi_task D B c w =
     (case nd_first_wifi D (w_dev w) of
        None \<Rightarrow> w
      | Some i \<Rightarrow>
          (case wifi_mgr_init D w of
             (Some _, w1) \<Rightarrow> w1
           | (None, w1) \<Rightarrow>
               (case nd_wifi_connect D i (wifi_fill_connect_params B c) (w_dev w1) of
                  (r, d2) \<Rightarrow>
                    let w2 = w1\<lparr>w_dev := d2\<rparr>
                    in if r \<noteq> 0 then w2
                       else case take_connected D 30000 w2 of
                              (False, w3) \<Rightarrow> w3
                            | (True, w3) \<Rightarrow>
                                (case wifi_set_static_ip D c i (w_dev w3) of
                                   (Some _, d4) \<Rightarrow> w3\<lparr>w_dev := d4\<rparr>
                                 | (None, d4) \<Rightarrow>
                                     w3\<lparr>w_dev := d4,
                                        sem_wifi_ready := k_sem_give (sem_wifi_ready w3)\<rparr>))))"

text \<open>Waiting for the older task: the state is the one in which the wait ends, when the
  semaphore is raised or the time is over.\<close>

definition wifi_wait_ready :: "'d wifi_state \<Rightarrow> bool \<times> 'd wifi_state" where
  "wifi_wait_ready w =
     (if sem_wifi_ready w > 0 then (True, w\<lparr>sem_wifi_ready := sem_wifi_ready w - 1\<rparr>)
      else (False, w))"

section \<open>What a connection is\<close>

lemma on_wifi_event_same [simp]:
  "w_dev (on_wifi_event ev w) = w_dev w" "s_mgr_inited (on_wifi_event ev w) = s_mgr_inited w"
  "sem_wifi_ready (on_wifi_event ev w) = sem_wifi_ready w"
  by (cases ev; simp add: on_wifi_event_def)+

lemma fold_on_wifi_event_same [simp]:
  "w_dev (fold on_wifi_event evs w) = w_dev w"
  "s_mgr_inited (fold on_wifi_event evs w) = s_mgr_inited w"
  "sem_wifi_ready (fold on_wifi_event evs w) = sem_wifi_ready w"
  by (induction evs arbitrary: w) simp_all

lemma sem_connected_le_1: "sem_connected w \<le> 1 \<Longrightarrow> sem_connected (on_wifi_event ev w) \<le> 1"
  by (cases ev) (simp_all add: on_wifi_event_def k_sem_give_def)

lemma fold_sem_connected:
  "sem_connected w = 0 \<Longrightarrow>
   sem_connected (fold on_wifi_event evs w) = (if Connect_result 0 \<in> set evs then 1 else 0)"
proof (induction evs rule: rev_induct)
  case (snoc ev evs)
  then show ?case
    by (cases ev) (auto simp: on_wifi_event_def k_sem_give_def)
qed simp

text \<open>After the reset, exactly a successful association result within the time is taken.\<close>

lemma take_connected_iff:
  assumes "sem_connected w = 0"
  shows "fst (take_connected D t w) \<longleftrightarrow> Connect_result 0 \<in> set (fst (nd_wait D t (w_dev w)))"
    and "sem_connected (snd (take_connected D t w)) = 0"
  using assms fold_sem_connected [of "w\<lparr>w_dev := snd (nd_wait D t (w_dev w))\<rparr>"
      "fst (nd_wait D t (w_dev w))"]
  by (auto simp: take_connected_def Let_def split: prod.split if_splits)

end
