(* ===== verification/Net_Manager.thy ===== *)
theory Net_Manager
  imports Wifi_Manager
begin

text \<open>
  \<^verbatim>\<open>src/network_manager.c\<close>: the task that brings up the one interface the stored mode names,
  publishes it to the other tasks while it lasts, and stores the other mode and restarts the
  board when it does not come up.  The task runs from one of its sleeps to the next in one step
  \<open>netmgr_step\<close>; the other tasks call the public functions in between.
\<close>

section \<open>State\<close>

datatype netmgr_iface_t = NETMGR_IFACE_NONE | NETMGR_IFACE_WIFI | NETMGR_IFACE_ETH

text \<open>\<open>s_tcp_fail_count\<close> is an atomic 32-bit counter.  \<open>netmgr_point\<close> is where the task is: at
  the head of a cycle, in one of the service loops, or gone into the restart.\<close>

datatype netmgr_point = Cycle | Wifi_service | Eth_service "net_if option" | Restart

record ('d, 's) netmgr =
  nm_wifi :: "'d wifi_state"
  nm_cfg :: "'s cfg_state"
  s_ready :: bool
  s_active :: netmgr_iface_t
  s_local_ip :: bytes
  s_sem_ready :: nat
  s_tcp_fail_count :: u32
  s_force_wifi_reconnect :: bool

definition netmgr_boot :: "'d \<Rightarrow> 's cfg_state \<Rightarrow> ('d, 's) netmgr" where
  "netmgr_boot d cfg =
     \<lparr>nm_wifi = wifi_boot d, nm_cfg = cfg, s_ready = False, s_active = NETMGR_IFACE_NONE,
      s_local_ip = replicate 16 0, s_sem_ready = 0, s_tcp_fail_count = 0,
      s_force_wifi_reconnect = False\<rparr>"

abbreviation nm_gw :: "('d, 's) netmgr \<Rightarrow> gw_config" where
  "nm_gw st \<equiv> g_gw_config (nm_cfg st)"

abbreviation nm_dev :: "('d, 's) netmgr \<Rightarrow> 'd" where
  "nm_dev st \<equiv> w_dev (nm_wifi st)"

definition nm_do :: "('d \<Rightarrow> 'd) \<Rightarrow> ('d, 's) netmgr \<Rightarrow> ('d, 's) netmgr" where
  "nm_do f st = st\<lparr>nm_wifi := (nm_wifi st)\<lparr>w_dev := f (nm_dev st)\<rparr>\<rparr>"

section \<open>The public functions\<close>

definition netmgr_is_ready :: "('d, 's) netmgr \<Rightarrow> bool" where
  "netmgr_is_ready st = s_ready st"

definition netmgr_active_iface :: "('d, 's) netmgr \<Rightarrow> netmgr_iface_t" where
  "netmgr_active_iface st = s_active st"

definition netmgr_active_iface_label :: "('d, 's) netmgr \<Rightarrow> string" where
  "netmgr_active_iface_label st =
     (case s_active st of NETMGR_IFACE_WIFI \<Rightarrow> ''WiFi'' | NETMGR_IFACE_ETH \<Rightarrow> ''ETH''
      | NETMGR_IFACE_NONE \<Rightarrow> ''(none)'')"

definition netmgr_local_ip :: "('d, 's) netmgr \<Rightarrow> bytes" where
  "netmgr_local_ip st = c_str (s_local_ip st)"

text \<open>The state is the one in which the wait ends.\<close>

definition netmgr_wait_ready :: "('d, 's) netmgr \<Rightarrow> bool \<times> ('d, 's) netmgr" where
  "netmgr_wait_ready st =
     (if s_ready st then (True, st)
      else if s_sem_ready st > 0 then (True, st\<lparr>s_sem_ready := s_sem_ready st - 1\<rparr>)
      else (False, st))"

definition netmgr_tcp_peer_ip :: "('d, 's) netmgr \<Rightarrow> bytes" where
  "netmgr_tcp_peer_ip st =
     (if s_active st = NETMGR_IFACE_WIFI then c_str (wifi_tcp_server_ip (nm_gw st))
      else if s_active st = NETMGR_IFACE_ETH then c_str (eth_tcp_server_ip (nm_gw st)) else [])"

definition netmgr_tcp_peer_port :: "('d, 's) netmgr \<Rightarrow> u16" where
  "netmgr_tcp_peer_port st =
     (if s_active st = NETMGR_IFACE_WIFI then wifi_tcp_server_port (nm_gw st)
      else if s_active st = NETMGR_IFACE_ETH then eth_tcp_server_port (nm_gw st) else 0)"

definition netmgr_udp_peer_ip :: "('d, 's) netmgr \<Rightarrow> bytes" where
  "netmgr_udp_peer_ip st =
     (if s_active st = NETMGR_IFACE_WIFI then c_str (wifi_udp_server_ip (nm_gw st))
      else if s_active st = NETMGR_IFACE_ETH then c_str (eth_udp_server_ip (nm_gw st)) else [])"

definition netmgr_udp_peer_port :: "('d, 's) netmgr \<Rightarrow> u16" where
  "netmgr_udp_peer_port st =
     (if s_active st = NETMGR_IFACE_WIFI then wifi_udp_server_port (nm_gw st)
      else if s_active st = NETMGR_IFACE_ETH then eth_udp_server_port (nm_gw st) else 0)"

definition netmgr_notify_tcp_connect_fail ::
    "'d net_drv \<Rightarrow> net_build \<Rightarrow> ('d, 's) netmgr \<Rightarrow> ('d, 's) netmgr" where
  "netmgr_notify_tcp_connect_fail D B st =
     (let st1 = st\<lparr>s_tcp_fail_count := s_tcp_fail_count st + 1\<rparr>;
          n = sint (s_tcp_fail_count st) + 1
      in if nb_wifi_enable B \<and> n \<ge> 5 \<and> s_active st = NETMGR_IFACE_WIFI
         then let st2 = st1\<lparr>s_tcp_fail_count := 0\<rparr>
              in if wifi_is_ready D (nm_gw st) (nm_dev st) then st2
                 else st2\<lparr>s_force_wifi_reconnect := True\<rparr>
         else st1)"

definition netmgr_notify_tcp_connect_ok :: "('d, 's) netmgr \<Rightarrow> ('d, 's) netmgr" where
  "netmgr_notify_tcp_connect_ok st =
     st\<lparr>s_tcp_fail_count := 0, s_force_wifi_reconnect := False\<rparr>"

section \<open>Publishing the interface\<close>

definition set_active :: "netmgr_iface_t \<Rightarrow> bytes \<Rightarrow> ('d, 's) netmgr \<Rightarrow> ('d, 's) netmgr" where
  "set_active iface local_ip st =
     st\<lparr>s_local_ip := (strncpy (s_local_ip st) local_ip 15)[15 := 0],
        s_active := iface, s_ready := True, s_sem_ready := k_sem_give (s_sem_ready st)\<rparr>"

definition clear_active :: "('d, 's) netmgr \<Rightarrow> ('d, 's) netmgr" where
  "clear_active st =
     st\<lparr>s_ready := False, s_active := NETMGR_IFACE_NONE,
        s_local_ip := (s_local_ip st)[0 := 0], s_sem_ready := 0\<rparr>"

section \<open>The Ethernet interface\<close>

fun eth_iface_loop :: "'d net_drv \<Rightarrow> net_if option \<Rightarrow> nat list \<Rightarrow> 'd \<Rightarrow> net_if option" where
  "eth_iface_loop D wifi [] d = None"
| "eth_iface_loop D wifi (idx # ids) d =
     (case nd_if_by_index D idx d of
        None \<Rightarrow> None
      | Some i \<Rightarrow>
          if Some i = wifi then eth_iface_loop D wifi ids d
          else if nd_l2_ethernet D i d then Some i
          else eth_iface_loop D wifi ids d)"

definition get_eth_iface :: "'d net_drv \<Rightarrow> net_build \<Rightarrow> 'd \<Rightarrow> net_if option" where
  "get_eth_iface D B d =
     eth_iface_loop D (if nb_wifi_enable B then nd_first_wifi D d else None) [1..<9] d"

definition eth_link_is_up :: "'d net_drv \<Rightarrow> net_if \<Rightarrow> 'd \<Rightarrow> bool" where
  "eth_link_is_up D i d \<longleftrightarrow> nd_admin_up D i d \<and> nd_lower_up D i d"

definition eth_set_static_ip ::
    "'d net_drv \<Rightarrow> gw_config \<Rightarrow> net_if \<Rightarrow> 'd \<Rightarrow> errno option \<times> 'd" where
  "eth_set_static_ip D c i d =
     (case (nd_pton D (c_str (eth_ip c)), nd_pton D (c_str (eth_netmask c)),
            nd_pton D (c_str (eth_gw c))) of
        (Some addr, Some netmask, Some gw) \<Rightarrow>
          (case nd_addr_add D i addr (nd_addr_rm D i addr (nd_dhcp_stop D i d)) of
             (False, d1) \<Rightarrow> (Some ENODEV, d1)
           | (True, d1) \<Rightarrow>
               (None, snd (nd_router_add D i gw (nd_set_default D i (nd_set_gw D i gw
                            (nd_set_netmask D i addr netmask d1))))))
      | _ \<Rightarrow> (Some EINVAL, d))"

definition eth_clear_ip :: "'d net_drv \<Rightarrow> gw_config \<Rightarrow> net_if \<Rightarrow> 'd \<Rightarrow> 'd" where
  "eth_clear_ip D c i d =
     (case nd_pton D (c_str (eth_ip c)) of None \<Rightarrow> d | Some addr \<Rightarrow> nd_addr_rm D i addr d)"

function eth_down_loop :: "'d net_drv \<Rightarrow> net_if \<Rightarrow> nat \<Rightarrow> 'd \<Rightarrow> 'd" where
  "eth_down_loop D i waited d =
     (if nd_admin_up D i d \<and> waited < 2000
      then eth_down_loop D i (waited + 100) (nd_msleep D 100 d) else d)"
  by pat_completeness auto
termination by (relation "measure (\<lambda>(D, i, waited, d). 2000 - waited)") auto

declare eth_down_loop.simps [simp del]

definition eth_force_admin_down :: "'d net_drv \<Rightarrow> net_if option \<Rightarrow> 'd \<Rightarrow> 'd" where
  "eth_force_admin_down D iface d =
     (case iface of
        None \<Rightarrow> d
      | Some i \<Rightarrow> eth_down_loop D i 0 (if nd_admin_up D i d then nd_if_down D i d else d))"

text \<open>One wait for the link, at most 30 polls of 500 ms.\<close>

function eth_wait_link :: "'d net_drv \<Rightarrow> net_if \<Rightarrow> nat \<Rightarrow> 'd \<Rightarrow> 'd" where
  "eth_wait_link D i elapsed d =
     (if elapsed < 15000 then
        if eth_link_is_up D i d then d
        else eth_wait_link D i (elapsed + 500) (nd_msleep D 500 d)
      else d)"
  by pat_completeness auto
termination by (relation "measure (\<lambda>(D, i, elapsed, d). 15000 - elapsed)") auto

declare eth_wait_link.simps [simp del]

fun try_eth_loop :: "'d net_drv \<Rightarrow> gw_config \<Rightarrow> net_if \<Rightarrow> nat \<Rightarrow> 'd \<Rightarrow> bool \<times> 'd" where
  "try_eth_loop D c i 0 d = (False, d)"
| "try_eth_loop D c i (Suc n) d =
     (let d1 = eth_wait_link D i 0 d
      in if \<not> eth_link_is_up D i d1 then try_eth_loop D c i n d1
         else case eth_set_static_ip D c i d1 of
                (None, d2) \<Rightarrow> (True, d2)
              | (Some _, d2) \<Rightarrow> try_eth_loop D c i n (eth_clear_ip D c i d2))"

definition try_eth :: "'d net_drv \<Rightarrow> net_build \<Rightarrow> gw_config \<Rightarrow> 'd \<Rightarrow> bool \<times> 'd" where
  "try_eth D B c d =
     (case get_eth_iface D B d of None \<Rightarrow> (False, d) | Some i \<Rightarrow> try_eth_loop D c i 3 d)"

section \<open>The WiFi attempts\<close>

text \<open>\<open>n\<close> attempts are left; the sleep separates two attempts.\<close>

fun try_wifi_loop ::
    "'d net_drv \<Rightarrow> net_build \<Rightarrow> gw_config \<Rightarrow> nat \<Rightarrow> 'd wifi_state \<Rightarrow> bool \<times> 'd wifi_state" where
  "try_wifi_loop D B c 0 w = (False, w)"
| "try_wifi_loop D B c (Suc n) w =
     (case wifi_connect_once D B c 30000 w of
        (None, w1) \<Rightarrow> (True, w1)
      | (Some _, w1) \<Rightarrow>
          try_wifi_loop D B c n
            (if n > 0 then w1\<lparr>w_dev := nd_msleep D 3000 (w_dev w1)\<rparr> else w1))"

definition try_wifi :: "'d net_drv \<Rightarrow> net_build \<Rightarrow> gw_config \<Rightarrow> 'd wifi_state \<Rightarrow> bool \<times> 'd wifi_state" where
  "try_wifi D B c w =
     (let w1 = (if nb_defer_wifi_ms B > 0
                then w\<lparr>w_dev := nd_msleep D (nb_defer_wifi_ms B) (w_dev w)\<rparr> else w)
      in case wifi_mgr_init D w1 of
           (Some _, w2) \<Rightarrow> (False, w2)
         | (None, w2) \<Rightarrow> try_wifi_loop D B c 3 w2)"

section \<open>The pins\<close>

definition netmgr_phy_hw_reset :: "'d net_drv \<Rightarrow> 'd \<Rightarrow> 'd" where
  "netmgr_phy_hw_reset D d =
     (if \<not> nd_gpio_ready D Eth_reset d then d
      else nd_msleep D 100 (nd_gpio_set D Eth_reset True (nd_msleep D 50
             (nd_gpio_set D Eth_reset False (nd_gpio_configure D Eth_reset GPIO_OUTPUT_ACTIVE d)))))"

definition netmgr_wifi_pd_init :: "'d net_drv \<Rightarrow> 'd \<Rightarrow> 'd" where
  "netmgr_wifi_pd_init D d =
     (if \<not> nd_gpio_ready D Wifi_pd d then d
      else nd_gpio_set D Wifi_pd True (nd_gpio_configure D Wifi_pd GPIO_OUTPUT_ACTIVE d))"

definition netmgr_wifi_reset_assert :: "'d net_drv \<Rightarrow> 'd \<Rightarrow> 'd" where
  "netmgr_wifi_reset_assert D d =
     (let low = (\<lambda>p d. if nd_gpio_ready D p d
                   then nd_gpio_set D p False (nd_gpio_configure D p GPIO_OUTPUT d) else d)
      in nd_msleep D 200 (low Wifi_pwr (low Wifi_pd d)))"

section \<open>The task\<close>

definition run_eth_begin :: "'d net_drv \<Rightarrow> net_build \<Rightarrow> ('d, 's) netmgr \<Rightarrow> bool \<times> ('d, 's) netmgr" where
  "run_eth_begin D B st =
     (let d = nm_dev st;
          d1 = (case get_eth_iface D B d of
                  None \<Rightarrow> d
                | Some i \<Rightarrow>
                    if \<not> nd_admin_up D i d then nd_msleep D 500 (nd_if_up D i d)
                    else if \<not> nd_is_up D i d then nd_msleep D 300 (nd_if_up D i d)
                    else d)
      in case try_eth D B (nm_gw st) d1 of
           (False, d2) \<Rightarrow> (False, nm_do (\<lambda>_. d2) st)
         | (True, d2) \<Rightarrow>
             (True, set_active NETMGR_IFACE_ETH (eth_ip (nm_gw st)) (nm_do (\<lambda>_. d2) st)))"

text \<open>The other mode is stored, the WiFi module loses its power, the board restarts.\<close>

definition netmgr_switch_mode ::
    "'d net_drv \<Rightarrow> 's nvs_ops \<Rightarrow> u8 \<Rightarrow> ('d, 's) netmgr \<Rightarrow> netmgr_point \<times> ('d, 's) netmgr" where
  "netmgr_switch_mode D N m st =
     (let cfg = config_nvs_save_boot_mode N
                  ((nm_cfg st)\<lparr>g_gw_config := (nm_gw st)\<lparr>net_boot_mode := m\<rparr>\<rparr>)
      in (Restart, nm_do (netmgr_wifi_reset_assert D) (st\<lparr>nm_cfg := cfg\<rparr>)))"

definition netmgr_cycle ::
    "'d net_drv \<Rightarrow> 's nvs_ops \<Rightarrow> net_build \<Rightarrow> ('d, 's) netmgr \<Rightarrow> netmgr_point \<times> ('d, 's) netmgr" where
  "netmgr_cycle D N B st =
     (if \<not> nb_wifi_enable B then
        (case run_eth_begin D B st of
           (True, st1) \<Rightarrow> (Eth_service (get_eth_iface D B (nm_dev st)), st1)
         | (False, st1) \<Rightarrow> (Cycle, nm_do (nd_msleep D 5000) st1))
      else
        let st0 = (if net_boot_mode (nm_gw st) > GW_NET_BOOT_ETH
                   then st\<lparr>nm_cfg := (nm_cfg st)\<lparr>g_gw_config :=
                             (nm_gw st)\<lparr>net_boot_mode := GW_NET_BOOT_WIFI\<rparr>\<rparr>\<rparr>
                   else st)
        in if net_boot_mode (nm_gw st0) = GW_NET_BOOT_ETH then
             (case run_eth_begin D B st0 of
                (True, st1) \<Rightarrow> (Eth_service (get_eth_iface D B (nm_dev st0)), st1)
              | (False, st1) \<Rightarrow> netmgr_switch_mode D N GW_NET_BOOT_WIFI st1)
           else
             let st1 = nm_do (\<lambda>d. eth_force_admin_down D (get_eth_iface D B d) d) st0
             in case try_wifi D B (nm_gw st1) (nm_wifi st1) of
                  (False, w) \<Rightarrow> netmgr_switch_mode D N GW_NET_BOOT_ETH (st1\<lparr>nm_wifi := w\<rparr>)
                | (True, w) \<Rightarrow>
                    (Wifi_service,
                     set_active NETMGR_IFACE_WIFI (wifi_ip (nm_gw st1)) (st1\<lparr>nm_wifi := w\<rparr>)))"

text \<open>The ends of the service loops, with the pause before the next cycle.\<close>

definition wifi_service_end :: "'d net_drv \<Rightarrow> ('d, 's) netmgr \<Rightarrow> netmgr_point \<times> ('d, 's) netmgr" where
  "wifi_service_end D st =
     (Cycle, nm_do (\<lambda>d. nd_msleep D 5000 (nd_msleep D 300 (wifi_force_disconnect D d))) (clear_active st))"

definition eth_service_end ::
    "'d net_drv \<Rightarrow> net_if option \<Rightarrow> ('d, 's) netmgr \<Rightarrow> netmgr_point \<times> ('d, 's) netmgr" where
  "eth_service_end D iface st =
     (Cycle, nm_do (\<lambda>d. nd_msleep D 5000
                 (case iface of None \<Rightarrow> d | Some i \<Rightarrow> eth_clear_ip D (nm_gw st) i d)) (clear_active st))"

definition netmgr_step ::
    "'d net_drv \<Rightarrow> 's nvs_ops \<Rightarrow> net_build \<Rightarrow> netmgr_point \<times> ('d, 's) netmgr \<Rightarrow>
     netmgr_point \<times> ('d, 's) netmgr" where
  "netmgr_step D N B ps =
     (case ps of
        (Cycle, st) \<Rightarrow> netmgr_cycle D N B st
      | (Wifi_service, st) \<Rightarrow>
          if \<not> wifi_is_ready D (nm_gw st) (nm_dev st) then wifi_service_end D st
          else if s_force_wifi_reconnect st
          then wifi_service_end D (st\<lparr>s_force_wifi_reconnect := False\<rparr>)
          else (Wifi_service, nm_do (nd_msleep D 1000) st)
      | (Eth_service (Some i), st) \<Rightarrow>
          if eth_link_is_up D i (nm_dev st) then (Eth_service (Some i), nm_do (nd_msleep D 1000) st)
          else eth_service_end D (Some i) st
      | (Eth_service None, st) \<Rightarrow> eth_service_end D None st
      | (Restart, st) \<Rightarrow> (Restart, st))"

section \<open>Reachable states\<close>

text \<open>Between two steps of the task the other tasks call the public functions, the network
  stack reports events and the platform changes.  After the restart is ordered nothing runs.\<close>

inductive netmgr_trans ::
    "'d net_drv \<Rightarrow> 's nvs_ops \<Rightarrow> net_build \<Rightarrow> netmgr_point \<times> ('d, 's) netmgr \<Rightarrow>
     netmgr_point \<times> ('d, 's) netmgr \<Rightarrow> bool"
  for D N B where
  Task: "netmgr_trans D N B ps (netmgr_step D N B ps)"
| Tcp_fail: "p \<noteq> Restart \<Longrightarrow>
    netmgr_trans D N B (p, st) (p, netmgr_notify_tcp_connect_fail D B st)"
| Tcp_ok: "p \<noteq> Restart \<Longrightarrow> netmgr_trans D N B (p, st) (p, netmgr_notify_tcp_connect_ok st)"
| Main_wait: "p \<noteq> Restart \<Longrightarrow> netmgr_trans D N B (p, st) (p, snd (netmgr_wait_ready st))"
| Event: "p \<noteq> Restart \<Longrightarrow>
    netmgr_trans D N B (p, st) (p, st\<lparr>nm_wifi := on_wifi_event ev (nm_wifi st)\<rparr>)"
| Platform: "p \<noteq> Restart \<Longrightarrow> netmgr_trans D N B (p, st) (p, nm_do f st)"

inductive netmgr_reach ::
    "'d net_drv \<Rightarrow> 's nvs_ops \<Rightarrow> net_build \<Rightarrow> 'd \<Rightarrow> 's cfg_state \<Rightarrow>
     netmgr_point \<times> ('d, 's) netmgr \<Rightarrow> bool"
  for D N B d cfg where
  Start: "netmgr_reach D N B d cfg (Cycle, netmgr_boot d cfg)"
| Step: "netmgr_reach D N B d cfg ps \<Longrightarrow> netmgr_trans D N B ps ps' \<Longrightarrow> netmgr_reach D N B d cfg ps'"

inductive_simps netmgr_trans_restart: "netmgr_trans D N B (Restart, st) ps'"

text \<open>The restart is final: nothing happens between the order and the next boot.\<close>

lemma restart_final: "netmgr_trans D N B (Restart, st) ps' \<longleftrightarrow> ps' = (Restart, st)"
  by (simp add: netmgr_trans_restart netmgr_step_def)

text \<open>The mode the task follows, and the interface of a mode.\<close>

definition effective_mode :: "net_build \<Rightarrow> u8 \<Rightarrow> u8" where
  "effective_mode B m =
     (if \<not> nb_wifi_enable B then GW_NET_BOOT_ETH
      else if m > GW_NET_BOOT_ETH then GW_NET_BOOT_WIFI else m)"

definition mode_iface :: "u8 \<Rightarrow> netmgr_iface_t" where
  "mode_iface m = (if m = GW_NET_BOOT_ETH then NETMGR_IFACE_ETH else NETMGR_IFACE_WIFI)"

definition iface_ip :: "gw_config \<Rightarrow> netmgr_iface_t \<Rightarrow> bytes" where
  "iface_ip c i =
     (case i of NETMGR_IFACE_NONE \<Rightarrow> [] | NETMGR_IFACE_WIFI \<Rightarrow> c_str (wifi_ip c)
      | NETMGR_IFACE_ETH \<Rightarrow> c_str (eth_ip c))"

definition netmgr_inv :: "net_build \<Rightarrow> gw_config \<Rightarrow> netmgr_point \<times> ('d, 's) netmgr \<Rightarrow> bool" where
  "netmgr_inv B c0 ps =
     (case ps of (p, st) \<Rightarrow>
        field_ok 16 (s_local_ip st) \<and> sem_connected (nm_wifi st) \<le> 1 \<and>
        (\<exists>m. nm_gw st = c0\<lparr>net_boot_mode := m\<rparr> \<and>
             (p \<noteq> Restart \<longrightarrow> effective_mode B m = effective_mode B (net_boot_mode c0))) \<and>
        netmgr_local_ip st = iface_ip c0 (s_active st) \<and>
        (case p of
           Cycle \<Rightarrow> \<not> s_ready st \<and> s_active st = NETMGR_IFACE_NONE \<and> s_sem_ready st = 0
         | Restart \<Rightarrow> \<not> s_ready st \<and> s_active st = NETMGR_IFACE_NONE \<and> s_sem_ready st = 0
         | Wifi_service \<Rightarrow>
             s_ready st \<and> s_active st = NETMGR_IFACE_WIFI \<and> s_sem_ready st \<le> 1 \<and>
             effective_mode B (net_boot_mode c0) = GW_NET_BOOT_WIFI
         | Eth_service i \<Rightarrow>
             s_ready st \<and> s_active st = NETMGR_IFACE_ETH \<and> s_sem_ready st \<le> 1 \<and>
             effective_mode B (net_boot_mode c0) = GW_NET_BOOT_ETH))"

lemma nm_do_same [simp]:
  "s_ready (nm_do f st) = s_ready st" "s_active (nm_do f st) = s_active st"
  "s_local_ip (nm_do f st) = s_local_ip st" "s_sem_ready (nm_do f st) = s_sem_ready st"
  "nm_cfg (nm_do f st) = nm_cfg st" "s_tcp_fail_count (nm_do f st) = s_tcp_fail_count st"
  "s_force_wifi_reconnect (nm_do f st) = s_force_wifi_reconnect st"
  "nm_dev (nm_do f st) = f (nm_dev st)" "sem_connected (nm_wifi (nm_do f st)) = sem_connected (nm_wifi st)"
  by (simp_all add: nm_do_def)

lemma local_ip_set_active:
  assumes "field_ok 16 (s_local_ip st)" "field_ok 16 ip"
  shows "field_ok 16 (s_local_ip (set_active i ip st))"
    and "netmgr_local_ip (set_active i ip st) = c_str ip"
proof -
  have l: "length (s_local_ip st) = 16" using assms(1) by (simp add: field_ok_def)
  then have e: "s_local_ip (set_active i ip st) = cfg_set_str (s_local_ip st) ip"
    by (simp add: set_active_def cfg_set_str_def)
  show "field_ok 16 (s_local_ip (set_active i ip st))"
    unfolding e by (rule field_ok_cfg_set_str [OF assms(1)])
  show "netmgr_local_ip (set_active i ip st) = c_str ip"
    using c_str_cfg_set_str [OF assms(1), of ip] length_c_str [OF assms(2)]
    by (simp add: netmgr_local_ip_def e)
qed

lemma local_ip_clear_active:
  assumes "field_ok 16 (s_local_ip st)"
  shows "field_ok 16 (s_local_ip (clear_active st))" "netmgr_local_ip (clear_active st) = []"
  using assms by (cases "s_local_ip st"; simp add: clear_active_def netmgr_local_ip_def field_ok_def c_str_def)+

text \<open>An attempt to connect leaves no pending result behind, or has not begun.\<close>

lemma wifi_mgr_init_sem: "wifi_mgr_init D w = (e, w1) \<Longrightarrow> sem_connected w1 = sem_connected w"
  by (auto simp: wifi_mgr_init_def split: if_splits option.splits)

lemma take_connected_sem: "sem_connected w = 0 \<Longrightarrow> take_connected D t w = (b, w1) \<Longrightarrow> sem_connected w1 = 0"
  using take_connected_iff(2) [of w D t] by simp

lemma wifi_connect_once_sem:
  assumes "sem_connected w \<le> 1"
  shows "sem_connected (snd (wifi_connect_once D B c t w)) \<le> 1"
proof (cases "wifi_mgr_init D w")
  case (Pair e w1)
  have "sem_connected w1 \<le> 1" using wifi_mgr_init_sem [OF Pair] assms by simp
  then show ?thesis
    unfolding wifi_connect_once_def Pair Let_def
    by (auto split: prod.splits option.splits bool.splits dest: take_connected_sem [rotated])
qed

lemma try_wifi_loop_sem:
  "sem_connected w \<le> 1 \<Longrightarrow> sem_connected (snd (try_wifi_loop D B c n w)) \<le> 1"
proof (induction n arbitrary: w)
  case (Suc n)
  have "sem_connected (snd (wifi_connect_once D B c 30000 w)) \<le> 1"
    by (rule wifi_connect_once_sem [OF Suc.prems])
  then show ?case
    by (auto intro!: Suc.IH [simplified] split: prod.split option.split)
qed simp

lemma try_wifi_sem: "sem_connected w \<le> 1 \<Longrightarrow> sem_connected (snd (try_wifi D B c w)) \<le> 1"
  by (auto simp: try_wifi_def wifi_mgr_init_def Let_def intro!: try_wifi_loop_sem [simplified]
      split: prod.split option.split)

lemma effective_mode_cases:
  "effective_mode B m = GW_NET_BOOT_WIFI \<or> effective_mode B m = GW_NET_BOOT_ETH"
proof -
  have "unat m = 0 \<or> unat m = 1 \<or> unat m > 1" by linarith
  then show ?thesis
    by (auto simp: effective_mode_def word_less_nat_alt u8_eq_iff)
qed

lemma effective_mode_eth [simp]: "effective_mode B 1 = 1"
  by (simp add: effective_mode_def)

lemma effective_mode_wifi [simp]: "nb_wifi_enable B \<Longrightarrow> effective_mode B 0 = 0"
  by (simp add: effective_mode_def)

lemma run_eth_begin_outcome:
  assumes "run_eth_begin D B st = (ok, st1)"
  obtains d where "st1 = (if ok then set_active NETMGR_IFACE_ETH (eth_ip (nm_gw st)) (nm_do (\<lambda>_. d) st)
                          else nm_do (\<lambda>_. d) st)"
  using assms by (auto simp: run_eth_begin_def Let_def split: prod.splits bool.splits)

lemma netmgr_inv_boot:
  "netmgr_inv B (g_gw_config cfg) (Cycle, netmgr_boot d cfg)"
  by (auto simp: netmgr_inv_def netmgr_boot_def wifi_boot_def netmgr_local_ip_def c_str_def
      iface_ip_def intro!: exI [of _ "net_boot_mode (g_gw_config cfg)"])

text \<open>No interface is published, the configuration is \<open>c0\<close> with the mode \<open>m\<close>.\<close>

definition netmgr_idle :: "gw_config \<Rightarrow> u8 \<Rightarrow> ('d, 's) netmgr \<Rightarrow> bool" where
  "netmgr_idle c0 m st \<longleftrightarrow>
     field_ok 16 (s_local_ip st) \<and> netmgr_local_ip st = [] \<and> sem_connected (nm_wifi st) \<le> 1 \<and>
     nm_gw st = c0\<lparr>net_boot_mode := m\<rparr> \<and>
     \<not> s_ready st \<and> s_active st = NETMGR_IFACE_NONE \<and> s_sem_ready st = 0"

lemma netmgr_idle_do [simp]: "netmgr_idle c0 m (nm_do f st) = netmgr_idle c0 m st"
  by (simp add: netmgr_idle_def netmgr_local_ip_def)

lemma netmgr_inv_idle:
  assumes "netmgr_idle c0 m st"
    "p = Restart \<or> p = Cycle \<and> effective_mode B m = effective_mode B (net_boot_mode c0)"
  shows "netmgr_inv B c0 (p, st)"
  using assms by (auto simp: netmgr_idle_def netmgr_inv_def iface_ip_def)

lemma netmgr_idle_inv:
  assumes "netmgr_inv B c0 (Cycle, st)"
  obtains m where "netmgr_idle c0 m st" "effective_mode B m = effective_mode B (net_boot_mode c0)"
  using assms by (auto simp: netmgr_idle_def netmgr_inv_def iface_ip_def)

lemma netmgr_idle_clear:
  assumes "netmgr_inv B c0 (p, st)" "p \<noteq> Restart"
  obtains m where "netmgr_idle c0 m (clear_active st)"
    "effective_mode B m = effective_mode B (net_boot_mode c0)"
proof -
  obtain m where m: "nm_gw st = c0\<lparr>net_boot_mode := m\<rparr>"
    "effective_mode B m = effective_mode B (net_boot_mode c0)"
    using assms by (auto simp: netmgr_inv_def)
  have f: "field_ok 16 (s_local_ip st)" "sem_connected (nm_wifi st) \<le> 1"
    using assms by (auto simp: netmgr_inv_def)
  have "nm_gw (clear_active st) = c0\<lparr>net_boot_mode := m\<rparr>" using m by (simp add: clear_active_def)
  then have "netmgr_idle c0 m (clear_active st)"
    using f local_ip_clear_active [OF f(1)] unfolding netmgr_idle_def by (simp add: clear_active_def)
  then show ?thesis using m(2) by (rule that)
qed

lemma netmgr_inv_service_end:
  "netmgr_inv B c0 (p, st) \<Longrightarrow> p \<noteq> Restart \<Longrightarrow> netmgr_inv B c0 (Cycle, nm_do f (clear_active st))"
  by (erule (1) netmgr_idle_clear) (auto intro: netmgr_inv_idle)

lemma netmgr_inv_switch:
  assumes "netmgr_idle c0 m0 st"
  shows "netmgr_inv B c0 (netmgr_switch_mode D N m st)"
  unfolding netmgr_switch_mode_def Let_def
  by (rule netmgr_inv_idle [where m = m])
    (use assms in \<open>simp_all add: netmgr_idle_def netmgr_local_ip_def config_nvs_save_boot_mode_def\<close>)

lemma netmgr_inv_active:
  assumes "netmgr_idle c0 m st" "field_ok 16 ip" "c_str ip = iface_ip c0 i"
    "effective_mode B m = effective_mode B (net_boot_mode c0)"
    "i = NETMGR_IFACE_WIFI \<and> p = Wifi_service \<and> effective_mode B (net_boot_mode c0) = GW_NET_BOOT_WIFI \<or>
     i = NETMGR_IFACE_ETH \<and> p = Eth_service e \<and> effective_mode B (net_boot_mode c0) = GW_NET_BOOT_ETH"
  shows "netmgr_inv B c0 (p, set_active i ip st)"
proof -
  have "field_ok 16 (s_local_ip st)" using assms(1) by (simp add: netmgr_idle_def)
  note ip = local_ip_set_active [OF this assms(2), of i]
  show ?thesis
    using assms ip unfolding netmgr_idle_def
    by (auto simp: netmgr_inv_def set_active_def k_sem_give_def netmgr_local_ip_def)
qed

text \<open>The Ethernet phase, from an idle state to the service or back.\<close>

lemma netmgr_idle_eth:
  assumes "netmgr_idle c0 m st" "cfg_wf c0" "run_eth_begin D B st = (ok, st1)"
    "effective_mode B m = effective_mode B (net_boot_mode c0)"
    "effective_mode B (net_boot_mode c0) = GW_NET_BOOT_ETH"
  shows "if ok then netmgr_inv B c0 (Eth_service x, st1) else netmgr_idle c0 m st1"
proof -
  obtain d where d: "st1 = (if ok then set_active NETMGR_IFACE_ETH (eth_ip (nm_gw st)) (nm_do (\<lambda>_. d) st)
                            else nm_do (\<lambda>_. d) st)"
    using assms(3) by (rule run_eth_begin_outcome)
  have i: "netmgr_idle c0 m (nm_do (\<lambda>_. d) st)" using assms(1) by simp
  have ip: "eth_ip (nm_gw st) = eth_ip c0" using assms(1) by (simp add: netmgr_idle_def)
  have "netmgr_inv B c0 (Eth_service x, set_active NETMGR_IFACE_ETH (eth_ip (nm_gw st)) (nm_do (\<lambda>_. d) st))"
    unfolding ip by (rule netmgr_inv_active [OF i])
      (use assms in \<open>simp_all add: iface_ip_def cfg_wf_def\<close>)
  with d i show ?thesis by simp
qed

text \<open>The WiFi phase.\<close>

lemma netmgr_idle_wifi:
  assumes "netmgr_idle c0 m st" "cfg_wf c0" "try_wifi D B (nm_gw st) (nm_wifi st) = (ok, w)"
    "effective_mode B m = effective_mode B (net_boot_mode c0)"
    "effective_mode B (net_boot_mode c0) = GW_NET_BOOT_WIFI"
  shows "if ok then netmgr_inv B c0 (Wifi_service,
              set_active NETMGR_IFACE_WIFI (wifi_ip (nm_gw st)) (st\<lparr>nm_wifi := w\<rparr>))
         else netmgr_idle c0 m (st\<lparr>nm_wifi := w\<rparr>)"
proof -
  have "sem_connected (nm_wifi st) \<le> 1" using assms(1) by (simp add: netmgr_idle_def)
  from try_wifi_sem [OF this, of D B "nm_gw st"] assms(3)
  have i: "netmgr_idle c0 m (st\<lparr>nm_wifi := w\<rparr>)"
    using assms(1) by (simp add: netmgr_idle_def netmgr_local_ip_def)
  have ip: "wifi_ip (nm_gw st) = wifi_ip c0" using assms(1) by (simp add: netmgr_idle_def)
  have "netmgr_inv B c0 (Wifi_service,
      set_active NETMGR_IFACE_WIFI (wifi_ip (nm_gw st)) (st\<lparr>nm_wifi := w\<rparr>))"
    unfolding ip by (rule netmgr_inv_active [OF i])
      (use assms in \<open>simp_all add: iface_ip_def cfg_wf_def\<close>)
  with i show ?thesis by simp
qed

lemma netmgr_idle_normalise:
  assumes "netmgr_idle c0 m st" "nb_wifi_enable B"
    "st0 = (if net_boot_mode (nm_gw st) > GW_NET_BOOT_ETH
            then st\<lparr>nm_cfg := (nm_cfg st)\<lparr>g_gw_config := (nm_gw st)\<lparr>net_boot_mode := GW_NET_BOOT_WIFI\<rparr>\<rparr>\<rparr>
            else st)"
  shows "netmgr_idle c0 (effective_mode B m) st0" "net_boot_mode (nm_gw st0) = effective_mode B m"
proof -
  have "nm_gw st = c0\<lparr>net_boot_mode := m\<rparr>" using assms(1) by (simp add: netmgr_idle_def)
  then show "netmgr_idle c0 (effective_mode B m) st0" "net_boot_mode (nm_gw st0) = effective_mode B m"
    using assms by (simp_all add: netmgr_idle_def effective_mode_def netmgr_local_ip_def)
qed

lemma effective_mode_idem [simp]: "effective_mode B (effective_mode B x) = effective_mode B x"
  using effective_mode_cases [of B x] by (auto simp: effective_mode_def split: if_splits)

lemma netmgr_inv_cycle_wifi_build:
  assumes "cfg_wf c0" "netmgr_idle c0 m st" "nb_wifi_enable B"
    "effective_mode B m = effective_mode B (net_boot_mode c0)"
  shows "netmgr_inv B c0 (netmgr_cycle D N B st)"
proof -
  let ?e = "effective_mode B m"
  define st0 where "st0 = (if net_boot_mode (nm_gw st) > GW_NET_BOOT_ETH
      then st\<lparr>nm_cfg := (nm_cfg st)\<lparr>g_gw_config := (nm_gw st)\<lparr>net_boot_mode := GW_NET_BOOT_WIFI\<rparr>\<rparr>\<rparr>
      else st)"
  note n = netmgr_idle_normalise [OF assms(2,3) st0_def]
  define st1 where "st1 = nm_do (\<lambda>d. eth_force_admin_down D (get_eth_iface D B d) d) st0"
  have i1: "netmgr_idle c0 ?e st1" using n(1) by (simp add: st1_def)
  obtain ok w where t: "try_wifi D B (nm_gw st1) (nm_wifi st1) = (ok, w)"
    by (cases "try_wifi D B (nm_gw st1) (nm_wifi st1)")
  obtain ok' st2 where r: "run_eth_begin D B st0 = (ok', st2)" by (cases "run_eth_begin D B st0")
  have eth: "if ok' then netmgr_inv B c0 (Eth_service x, st2) else netmgr_idle c0 ?e st2"
    if "?e = GW_NET_BOOT_ETH" for x
    by (rule netmgr_idle_eth [OF n(1) assms(1) r]) (use assms that in simp_all)
  have wifi: "if ok then netmgr_inv B c0 (Wifi_service,
              set_active NETMGR_IFACE_WIFI (wifi_ip (nm_gw st1)) (st1\<lparr>nm_wifi := w\<rparr>))
         else netmgr_idle c0 ?e (st1\<lparr>nm_wifi := w\<rparr>)" if "?e \<noteq> GW_NET_BOOT_ETH"
    by (rule netmgr_idle_wifi [OF i1 assms(1) t])
      (use assms that effective_mode_cases [of B m] in \<open>auto simp del: One_nat_def\<close>)
  show ?thesis
    using eth wifi assms(3) r t
    unfolding netmgr_cycle_def st0_def [symmetric] Let_def n(2) st1_def [symmetric]
    by (cases ok; cases ok') (auto intro: netmgr_inv_switch)
qed

lemma netmgr_inv_cycle:
  assumes "cfg_wf c0" "netmgr_inv B c0 (Cycle, st)"
  shows "netmgr_inv B c0 (netmgr_cycle D N B st)"
proof -
  obtain m where m: "netmgr_idle c0 m st" "effective_mode B m = effective_mode B (net_boot_mode c0)"
    using assms(2) by (rule netmgr_idle_inv)
  show ?thesis
  proof (cases "nb_wifi_enable B")
    case True
    then show ?thesis using netmgr_inv_cycle_wifi_build assms(1) m by blast
  next
    case False
    then have e: "effective_mode B (net_boot_mode c0) = GW_NET_BOOT_ETH" by (simp add: effective_mode_def)
    obtain ok st1 where r: "run_eth_begin D B st = (ok, st1)" by (cases "run_eth_begin D B st")
    show ?thesis
      using netmgr_idle_eth [OF m(1) assms(1) r m(2) e] False r m(2)
      by (cases ok) (auto simp: netmgr_cycle_def intro: netmgr_inv_idle)
  qed
qed

lemma netmgr_inv_do [simp]: "netmgr_inv B c0 (p, nm_do f st) = netmgr_inv B c0 (p, st)"
  by (cases p) (simp_all add: netmgr_inv_def netmgr_local_ip_def)

lemma netmgr_inv_flag [simp]:
  "netmgr_inv B c0 (p, st\<lparr>s_force_wifi_reconnect := b\<rparr>) = netmgr_inv B c0 (p, st)"
  "netmgr_inv B c0 (p, st\<lparr>s_tcp_fail_count := n\<rparr>) = netmgr_inv B c0 (p, st)"
  by (cases p; simp add: netmgr_inv_def netmgr_local_ip_def)+

lemma netmgr_inv_step:
  assumes "cfg_wf c0" "netmgr_inv B c0 ps"
  shows "netmgr_inv B c0 (netmgr_step D N B ps)"
proof -
  obtain p st where ps: "ps = (p, st)" by (cases ps)
  show ?thesis
  proof (cases p)
    case Cycle
    then show ?thesis using assms by (simp add: ps netmgr_step_def netmgr_inv_cycle)
  next
    case Wifi_service
    then have "netmgr_inv B c0 (Wifi_service, st)" using assms by (simp add: ps)
    then show ?thesis
      using netmgr_inv_service_end [of B c0 Wifi_service] Wifi_service
      by (auto simp: ps netmgr_step_def wifi_service_end_def)
  next
    case (Eth_service i)
    then have "netmgr_inv B c0 (Eth_service i, st)" using assms by (simp add: ps)
    then show ?thesis
      using netmgr_inv_service_end [of B c0 "Eth_service i"] Eth_service
      by (cases i) (auto simp: ps netmgr_step_def eth_service_end_def)
  next
    case Restart
    then show ?thesis using assms by (simp add: ps netmgr_step_def)
  qed
qed

lemma netmgr_inv_trans:
  assumes "cfg_wf c0" "netmgr_trans D N B ps ps'" "netmgr_inv B c0 ps"
  shows "netmgr_inv B c0 ps'"
  using assms(2)
proof (cases rule: netmgr_trans.cases)
  case Task
  then show ?thesis using assms(1,3) netmgr_inv_step by simp
next
  case (Tcp_fail p st)
  then show ?thesis using assms(3) by (simp add: netmgr_notify_tcp_connect_fail_def Let_def)
next
  case (Tcp_ok p st)
  then show ?thesis using assms(3) by (simp add: netmgr_notify_tcp_connect_ok_def)
next
  case (Main_wait p st)
  then show ?thesis using assms(3)
    by (auto simp: netmgr_inv_def netmgr_local_ip_def netmgr_wait_ready_def split: netmgr_point.splits)
next
  case (Event p st ev)
  then show ?thesis using assms(3) sem_connected_le_1 [of "nm_wifi st" ev]
    by (simp add: netmgr_inv_def netmgr_local_ip_def split: netmgr_point.splits)
next
  case (Platform p st f)
  then show ?thesis using assms(3) by simp
qed

lemma netmgr_reach_inv:
  assumes "cfg_wf (g_gw_config cfg)" "netmgr_reach D N B d cfg ps"
  shows "netmgr_inv B (g_gw_config cfg) ps"
  using assms(2)
  by (induction rule: netmgr_reach.induct) (auto intro: netmgr_inv_boot netmgr_inv_trans [OF assms(1)])

text \<open>C27: whatever the links, the access point and the other tasks do, the manager publishes
  at any time either nothing or the interface of the mode stored at boot, with exactly the
  board address configured for it; the address, the label and the peers that the other tasks
  read belong to that interface, and a wait for the network succeeds exactly when one is
  published.\<close>

theorem netmgr_publishes:
  assumes "cfg_wf (g_gw_config cfg)" "netmgr_reach D N B d cfg (p, st)"
  shows "(netmgr_is_ready st \<longleftrightarrow> netmgr_active_iface st \<noteq> NETMGR_IFACE_NONE) \<and>
    (fst (netmgr_wait_ready st) \<longleftrightarrow> netmgr_is_ready st) \<and>
    (if netmgr_is_ready st
     then netmgr_active_iface st = mode_iface (effective_mode B (net_boot_mode (g_gw_config cfg)))
     else netmgr_tcp_peer_port st = 0 \<and> netmgr_udp_peer_ip st = []) \<and>
    netmgr_local_ip st = iface_ip (g_gw_config cfg) (netmgr_active_iface st) \<and>
    (netmgr_active_iface st = NETMGR_IFACE_WIFI \<longrightarrow>
       netmgr_active_iface_label st = ''WiFi'' \<and>
       netmgr_udp_peer_ip st = c_str (wifi_udp_server_ip (g_gw_config cfg)) \<and>
       netmgr_tcp_peer_ip st = c_str (wifi_tcp_server_ip (g_gw_config cfg))) \<and>
    (netmgr_active_iface st = NETMGR_IFACE_ETH \<longrightarrow>
       netmgr_active_iface_label st = ''ETH'' \<and>
       netmgr_udp_peer_ip st = c_str (eth_udp_server_ip (g_gw_config cfg)) \<and>
       netmgr_tcp_peer_ip st = c_str (eth_tcp_server_ip (g_gw_config cfg)))"
proof -
  have i: "netmgr_inv B (g_gw_config cfg) (p, st)" by (rule netmgr_reach_inv [OF assms])
  then obtain m where "nm_gw st = (g_gw_config cfg)\<lparr>net_boot_mode := m\<rparr>"
    by (auto simp: netmgr_inv_def)
  then show ?thesis
    using i
    by (cases p) (auto simp: netmgr_inv_def netmgr_is_ready_def netmgr_active_iface_def
        netmgr_wait_ready_def mode_iface_def netmgr_tcp_peer_port_def netmgr_udp_peer_ip_def
        netmgr_tcp_peer_ip_def netmgr_active_iface_label_def)
qed

section \<open>The fallback across a restart\<close>

lemma run_eth_begin_cfg: "run_eth_begin D B st = (ok, st1) \<Longrightarrow> nm_cfg st1 = nm_cfg st"
  by (auto elim!: run_eth_begin_outcome simp: set_active_def)

lemma netmgr_cycle_restart:
  assumes "netmgr_cycle D N B st = (Restart, st')"
  shows "nb_wifi_enable B"
    and "nm_cfg st' = config_nvs_save_boot_mode N ((nm_cfg st)\<lparr>g_gw_config :=
           (nm_gw st)\<lparr>net_boot_mode := 1 - effective_mode B (net_boot_mode (nm_gw st))\<rparr>\<rparr>)"
proof -
  show w: "nb_wifi_enable B"
    using assms by (auto simp: netmgr_cycle_def split: if_splits prod.splits bool.splits)
  have e: "effective_mode B x = (if x > 1 then 0 else x)" for x using w by (simp add: effective_mode_def)
  have x: "x \<noteq> 1 \<Longrightarrow> \<not> 1 < x \<Longrightarrow> x = 0" for x :: u8
    using effective_mode_cases [of B x] by (auto simp: e)
  show "nm_cfg st' = config_nvs_save_boot_mode N ((nm_cfg st)\<lparr>g_gw_config :=
           (nm_gw st)\<lparr>net_boot_mode := 1 - effective_mode B (net_boot_mode (nm_gw st))\<rparr>\<rparr>)"
    using assms w x [of "net_boot_mode (nm_gw st)"]
    by (auto simp: netmgr_cycle_def netmgr_switch_mode_def Let_def e
        dest!: run_eth_begin_cfg split: if_splits prod.splits bool.splits)
qed

lemma cfg_read_fields_boot_mode:
  "cfg_read_fields rd c = Some c' \<Longrightarrow>
   net_boot_mode c' = nvs_rd_u8_boot_mode (rd KEY_NET_BOOT_MODE) (net_boot_mode c)"
  by (auto simp: cfg_read_fields_def bind_eq_Some_conv)

lemma one_minus_effective_mode:
  "1 - effective_mode B m \<le> GW_NET_BOOT_ETH" "1 - effective_mode B m \<noteq> effective_mode B m"
  using effective_mode_cases [of B m] by auto


section \<open>Time\<close>

text \<open>The time that passes on the platform is the time the code asks to wait: a sleep lasts as
  long as it says, a wait at most that long, and the other calls take none.\<close>

definition net_clock :: "'d net_drv \<Rightarrow> ('d \<Rightarrow> nat) \<Rightarrow> bool" where
  "net_clock D clk \<longleftrightarrow>
     (\<forall>ms d. clk (nd_msleep D ms d) = clk d + ms) \<and>
     (\<forall>ms d. clk (snd (nd_wait D ms d)) \<le> clk d + ms) \<and>
     (\<forall>i d. clk (nd_if_up D i d) = clk d \<and> clk (nd_if_down D i d) = clk d \<and>
            clk (nd_dhcp_stop D i d) = clk d \<and> clk (nd_set_default D i d) = clk d \<and>
            clk (nd_wifi_disconnect D i d) = clk d \<and> clk (nd_router_rm D i d) = clk d) \<and>
     (\<forall>i a d. clk (snd (nd_addr_add D i a d)) = clk d \<and> clk (nd_addr_rm D i a d) = clk d \<and>
              clk (nd_set_gw D i a d) = clk d \<and> clk (snd (nd_router_add D i a d)) = clk d) \<and>
     (\<forall>i a m d. clk (nd_set_netmask D i a m d) = clk d) \<and>
     (\<forall>i p d. clk (snd (nd_wifi_connect D i p d)) = clk d) \<and>
     (\<forall>d. clk (nd_add_event_callback D d) = clk d) \<and>
     (\<forall>g f d. clk (nd_gpio_configure D g f d) = clk d) \<and>
     (\<forall>g b d. clk (nd_gpio_set D g b d) = clk d)"

lemma clk_simps:
  assumes "net_clock D clk"
  shows "clk (nd_msleep D ms d) = clk d + ms" "clk (nd_if_up D i d) = clk d"
    "clk (nd_if_down D i d) = clk d" "clk (nd_dhcp_stop D i d) = clk d"
    "clk (nd_set_default D i d) = clk d" "clk (nd_wifi_disconnect D i d) = clk d"
    "clk (nd_router_rm D i d) = clk d" "clk (snd (nd_addr_add D i a d)) = clk d"
    "clk (nd_addr_rm D i a d) = clk d" "clk (nd_set_gw D i a d) = clk d"
    "clk (snd (nd_router_add D i a d)) = clk d" "clk (nd_set_netmask D i a m d) = clk d"
    "clk (snd (nd_wifi_connect D i p d)) = clk d" "clk (nd_add_event_callback D d) = clk d"
    "clk (nd_gpio_configure D g f d) = clk d" "clk (nd_gpio_set D g b d) = clk d"
    "clk (snd (nd_wait D ms d)) \<le> clk d + ms"
  using assms by (simp_all add: net_clock_def)

lemma clk_eqs:
  "nd_addr_add D i a d = (b, d1) \<Longrightarrow> net_clock D clk \<Longrightarrow> clk d1 = clk d"
  "nd_wifi_connect D i p d = (r, d1) \<Longrightarrow> net_clock D clk \<Longrightarrow> clk d1 = clk d"
  "nd_wait D ms d = (evs, d1) \<Longrightarrow> net_clock D clk \<Longrightarrow> clk d1 \<le> clk d + ms"
  using clk_simps(8,13,17) [of D clk] by (metis snd_conv)+

lemma clk_eth_set_static_ip:
  assumes C: "net_clock D clk"
  shows "clk (snd (eth_set_static_ip D c i d)) = clk d"
  by (auto simp: eth_set_static_ip_def clk_simps [OF C] split: option.split prod.split bool.split
      dest!: clk_eqs(1) [OF _ C])

lemma clk_eth_clear_ip: "net_clock D clk \<Longrightarrow> clk (eth_clear_ip D c i d) = clk d"
  by (simp add: eth_clear_ip_def clk_simps split: option.split)

lemma clk_eth_wait_link:
  "net_clock D clk \<Longrightarrow> 500 dvd e \<Longrightarrow> clk (eth_wait_link D i e d) \<le> clk d + (15000 - e)"
proof (induction D i e d rule: eth_wait_link.induct)
  case (1 D i e d)
  show ?case
  proof (cases "e < 15000 \<and> \<not> eth_link_is_up D i d")
    case True
    obtain k where k: "e = 500 * k" using 1(3) by (rule dvdE)
    then have "k < 30" using True by linarith
    then have "e + 500 \<le> 15000" using k by linarith
    then show ?thesis
      using 1(1) [OF _ _ 1(2)] 1(2,3) True by (simp add: eth_wait_link.simps [of D i e d] clk_simps)
  next
    case False
    then show ?thesis by (auto simp: eth_wait_link.simps [of D i e d])
  qed
qed

lemma clk_eth_down_loop:
  "net_clock D clk \<Longrightarrow> 100 dvd e \<Longrightarrow> clk (eth_down_loop D i e d) \<le> clk d + (2000 - e)"
proof (induction D i e d rule: eth_down_loop.induct)
  case (1 D i e d)
  show ?case
  proof (cases "nd_admin_up D i d \<and> e < 2000")
    case True
    obtain k where k: "e = 100 * k" using 1(3) by (rule dvdE)
    then have "k < 20" using True by linarith
    then have "e + 100 \<le> 2000" using k by linarith
    then show ?thesis
      using 1(1) [OF _ 1(2)] 1(2,3) True by (simp add: eth_down_loop.simps [of D i e d] clk_simps)
  next
    case False
    then show ?thesis by (auto simp: eth_down_loop.simps [of D i e d])
  qed
qed

lemma clk_eth_force_admin_down:
  "net_clock D clk \<Longrightarrow> clk (eth_force_admin_down D iface d) \<le> clk d + 2000"
  using clk_eth_down_loop [of D clk 0 _ d] clk_eth_down_loop [of D clk 0 _ "nd_if_down D _ d"]
  by (simp add: eth_force_admin_down_def clk_simps split: option.split)

text \<open>A wait that ends without a link has lasted its full time.\<close>

lemma eth_wait_link_no_link:
  "net_clock D clk \<Longrightarrow> 500 dvd e \<Longrightarrow> e \<le> 15000 \<Longrightarrow> \<not> eth_link_is_up D i (eth_wait_link D i e d) \<Longrightarrow>
   clk (eth_wait_link D i e d) = clk d + (15000 - e)"
proof (induction D i e d rule: eth_wait_link.induct)
  case (1 D i e d)
  show ?case
  proof (cases "e < 15000 \<and> \<not> eth_link_is_up D i d")
    case True
    obtain k where k: "e = 500 * k" using 1(3) by (rule dvdE)
    then have "k < 30" using True by linarith
    then have "e + 500 \<le> 15000" using k by linarith
    then show ?thesis
      using 1(1) [OF _ _ 1(2)] 1(2-) True by (simp add: eth_wait_link.simps [of D i e d] clk_simps)
  next
    case False
    then show ?thesis using 1(4,5) by (auto simp: eth_wait_link.simps [of D i e d])
  qed
qed

lemma clk_try_eth_loop:
  "net_clock D clk \<Longrightarrow> clk (snd (try_eth_loop D c i n d)) \<le> clk d + n * 15000"
proof (induction n arbitrary: d)
  case (Suc n)
  let ?d1 = "eth_wait_link D i 0 d"
  let ?d2 = "snd (eth_set_static_ip D c i ?d1)"
  have "clk ?d1 \<le> clk d + 15000" using clk_eth_wait_link [OF Suc.prems, of 0] by simp
  moreover have "clk ?d2 = clk ?d1" "clk (eth_clear_ip D c i ?d2) = clk ?d1"
    using Suc.prems by (simp_all add: clk_eth_set_static_ip clk_eth_clear_ip)
  ultimately show ?case
    using Suc.IH [OF Suc.prems, of ?d1] Suc.IH [OF Suc.prems, of "eth_clear_ip D c i ?d2"]
    by (auto simp: Let_def split: prod.split option.split)
qed simp

lemma clk_try_eth: "net_clock D clk \<Longrightarrow> clk (snd (try_eth D B c d)) \<le> clk d + 45000"
  using clk_try_eth_loop [of D clk c _ 3 d] by (simp add: try_eth_def split: option.split)

lemma wifi_connect_once_time:
  assumes C: "net_clock D clk" and i: "s_mgr_inited w"
  shows "s_mgr_inited (snd (wifi_connect_once D B c t w)) \<and>
    clk (w_dev (snd (wifi_connect_once D B c t w))) \<le> clk (w_dev w) + t"
proof -
  have take: "s_mgr_inited w2 = s_mgr_inited w1 \<and> clk (w_dev w2) \<le> clk (w_dev w1) + t"
    if "take_connected D t w1 = (b, w2)" for w1 w2 b
    using that clk_simps(17) [OF C, of t "w_dev w1"]
    by (auto simp: take_connected_def Let_def split: if_splits prod.splits)
  have ip: "clk d2 = clk d1" if "wifi_set_static_ip D c j d1 = (e, d2)" for j d1 d2 e
    using that
    by (auto simp: wifi_set_static_ip_def clk_simps [OF C] Let_def split: option.splits prod.splits bool.splits
        dest!: clk_eqs(1) [OF _ C])
  show ?thesis
    using i
    by (auto simp: wifi_connect_once_def wifi_mgr_init_def Let_def split: option.split prod.split bool.split
        dest!: take ip clk_eqs(2) [OF _ C])
qed

lemma try_wifi_loop_time:
  assumes C: "net_clock D clk" and "s_mgr_inited w"
  shows "clk (w_dev (snd (try_wifi_loop D B c n w))) \<le> clk (w_dev w) + n * 30000 + (n - 1) * 3000"
  using assms(2)
proof (induction n arbitrary: w)
  case (Suc n)
  obtain e w1 where e: "wifi_connect_once D B c 30000 w = (e, w1)"
    by (cases "wifi_connect_once D B c 30000 w")
  have o: "s_mgr_inited w1" "clk (w_dev w1) \<le> clk (w_dev w) + 30000"
    using wifi_connect_once_time [OF C Suc.prems, of B c 30000] by (simp_all add: e)
  define w2 where "w2 = (if n > 0 then w1\<lparr>w_dev := nd_msleep D 3000 (w_dev w1)\<rparr> else w1)"
  have "clk (w_dev (snd (try_wifi_loop D B c n w2))) \<le> clk (w_dev w2) + n * 30000 + (n - 1) * 3000"
    by (rule Suc.IH) (simp add: o w2_def)
  moreover have "clk (w_dev w2) + (n - 1) * 3000 \<le> clk (w_dev w) + 30000 + n * 3000"
    using o(2) by (cases n) (simp_all add: clk_simps [OF C] w2_def)
  moreover have "try_wifi_loop D B c (Suc n) w =
      (case e of None \<Rightarrow> (True, w1) | Some _ \<Rightarrow> try_wifi_loop D B c n w2)"
    by (cases e; cases n) (simp_all add: e w2_def)
  ultimately show ?case
    using o(2) by (cases e) simp_all
qed simp

lemma try_wifi_time:
  assumes C: "net_clock D clk"
  shows "clk (w_dev (snd (try_wifi D B c w))) \<le> clk (w_dev w) + nb_defer_wifi_ms B + 98000"
proof -
  let ?w1 = "if nb_defer_wifi_ms B > 0 then w\<lparr>w_dev := nd_msleep D (nb_defer_wifi_ms B) (w_dev w)\<rparr> else w"
  obtain e w2 where i: "wifi_mgr_init D ?w1 = (e, w2)" by (cases "wifi_mgr_init D ?w1")
  have "clk (w_dev ?w1) = clk (w_dev w) + nb_defer_wifi_ms B" by (simp add: clk_simps [OF C])
  then have "clk (w_dev w2) \<le> clk (w_dev w) + nb_defer_wifi_ms B + 2000"
    "e = None \<Longrightarrow> s_mgr_inited w2"
    using i by (auto simp: wifi_mgr_init_def clk_simps [OF C] split: if_splits option.splits)
  moreover have "e = None \<Longrightarrow> s_mgr_inited w2 \<Longrightarrow>
      clk (w_dev (snd (try_wifi_loop D B c 3 w2))) \<le> clk (w_dev w2) + 96000"
    using try_wifi_loop_time [OF C, of w2 B c 3] by simp
  ultimately show ?thesis
    unfolding try_wifi_def Let_def i by (cases e) auto
qed

lemma run_eth_begin_time:
  assumes C: "net_clock D clk"
  shows "clk (nm_dev (snd (run_eth_begin D B st))) \<le> clk (nm_dev st) + 45500"
proof -
  define d1 where "d1 = (case get_eth_iface D B (nm_dev st) of
                  None \<Rightarrow> nm_dev st
                | Some i \<Rightarrow>
                    if \<not> nd_admin_up D i (nm_dev st) then nd_msleep D 500 (nd_if_up D i (nm_dev st))
                    else if \<not> nd_is_up D i (nm_dev st) then nd_msleep D 300 (nd_if_up D i (nm_dev st))
                    else nm_dev st)"
  obtain ok d2 where t: "try_eth D B (nm_gw st) d1 = (ok, d2)" by (cases "try_eth D B (nm_gw st) d1")
  have "clk d1 \<le> clk (nm_dev st) + 500" by (simp add: d1_def clk_simps [OF C] split: option.split)
  then have "clk d2 \<le> clk (nm_dev st) + 45500"
    using clk_try_eth [OF C, of B "nm_gw st" d1] by (simp add: t)
  then show ?thesis
    unfolding run_eth_begin_def Let_def d1_def [symmetric] t by (cases ok) (simp_all add: set_active_def nm_do_def)
qed

lemma netmgr_switch_mode_time:
  assumes C: "net_clock D clk"
  shows "clk (nm_dev (snd (netmgr_switch_mode D N m st))) = clk (nm_dev st) + 200"
  by (simp add: netmgr_switch_mode_def netmgr_wifi_reset_assert_def clk_simps [OF C] Let_def nm_do_def)

lemma netmgr_cycle_cases:
  assumes "nb_wifi_enable B"
  obtains (eth) st0 ok st1 where "nm_dev st0 = nm_dev st" "run_eth_begin D B st0 = (ok, st1)"
    "netmgr_cycle D N B st = (if ok then (Eth_service (get_eth_iface D B (nm_dev st)), st1)
                              else netmgr_switch_mode D N GW_NET_BOOT_WIFI st1)"
  | (wifi) st1 ok w where "nm_dev st1 = eth_force_admin_down D (get_eth_iface D B (nm_dev st)) (nm_dev st)"
    "try_wifi D B (nm_gw st1) (nm_wifi st1) = (ok, w)"
    "netmgr_cycle D N B st =
       (if ok then (Wifi_service, set_active NETMGR_IFACE_WIFI (wifi_ip (nm_gw st1)) (st1\<lparr>nm_wifi := w\<rparr>))
        else netmgr_switch_mode D N GW_NET_BOOT_ETH (st1\<lparr>nm_wifi := w\<rparr>))"
proof -
  define st0 where "st0 = (if net_boot_mode (nm_gw st) > GW_NET_BOOT_ETH
      then st\<lparr>nm_cfg := (nm_cfg st)\<lparr>g_gw_config := (nm_gw st)\<lparr>net_boot_mode := GW_NET_BOOT_WIFI\<rparr>\<rparr>\<rparr>
      else st)"
  define st1 where "st1 = nm_do (\<lambda>d. eth_force_admin_down D (get_eth_iface D B d) d) st0"
  obtain ok w where t: "try_wifi D B (nm_gw st1) (nm_wifi st1) = (ok, w)"
    by (cases "try_wifi D B (nm_gw st1) (nm_wifi st1)")
  obtain ok' st2 where r: "run_eth_begin D B st0 = (ok', st2)" by (cases "run_eth_begin D B st0")
  have d: "nm_dev st0 = nm_dev st" by (simp add: st0_def)
  have e: "netmgr_cycle D N B st =
    (if net_boot_mode (nm_gw st0) = GW_NET_BOOT_ETH
     then (if ok' then (Eth_service (get_eth_iface D B (nm_dev st)), st2)
           else netmgr_switch_mode D N GW_NET_BOOT_WIFI st2)
     else (if ok then (Wifi_service, set_active NETMGR_IFACE_WIFI (wifi_ip (nm_gw st1)) (st1\<lparr>nm_wifi := w\<rparr>))
           else netmgr_switch_mode D N GW_NET_BOOT_ETH (st1\<lparr>nm_wifi := w\<rparr>)))"
    using assms r t d unfolding netmgr_cycle_def st0_def [symmetric] Let_def st1_def [symmetric]
    by (cases ok; cases ok') simp_all
  show ?thesis
    using eth [OF d r] wifi [OF _ t] e by (cases "net_boot_mode (nm_gw st0) = GW_NET_BOOT_ETH") (simp_all add: st1_def d)
qed

text \<open>C29: one round of attempts always ends.  In a build with WiFi, within 100.2 s and the
  configured delay the task has either published an interface or stored the other mode and
  begun the restart; in a build without, within 50.5 s it has published the Ethernet
  interface or is back at the start of a round.  So with a delay of less than 79.8 s the 180 s
  for which \<^verbatim>\<open>main\<close> waits are never used up.\<close>

theorem netmgr_round_bounded:
  assumes C: "net_clock D clk" and step: "netmgr_step D N B (Cycle, st) = (p, st')"
  shows "(nb_wifi_enable B \<longrightarrow>
      (p \<noteq> Restart \<longrightarrow> netmgr_is_ready st') \<and> p \<noteq> Cycle \<and>
      clk (nm_dev st') \<le> clk (nm_dev st) + nb_defer_wifi_ms B + 100200) \<and>
    (\<not> nb_wifi_enable B \<longrightarrow>
      (p \<noteq> Cycle \<longrightarrow> netmgr_is_ready st' \<and> p \<noteq> Restart) \<and>
      clk (nm_dev st') \<le> clk (nm_dev st) + 50500)"
proof (cases "nb_wifi_enable B")
  case False
  obtain ok st1 where r: "run_eth_begin D B st = (ok, st1)" by (cases "run_eth_begin D B st")
  have "clk (nm_dev st1) \<le> clk (nm_dev st) + 45500" using run_eth_begin_time [OF C, of B st] by (simp add: r)
  moreover have "ok \<Longrightarrow> s_ready st1" using r by (auto elim!: run_eth_begin_outcome simp: set_active_def)
  ultimately show ?thesis
    using step r False
    by (cases ok) (auto simp: netmgr_step_def netmgr_cycle_def netmgr_is_ready_def clk_simps [OF C])
next
  case True
  have c: "netmgr_cycle D N B st = (p, st')" using step by (simp add: netmgr_step_def)
  note sw = netmgr_switch_mode_time [OF C]
  from True show ?thesis
  proof (cases rule: netmgr_cycle_cases [where D = D and N = N and st = st])
    case (eth st0 ok st1)
    have "clk (nm_dev st1) \<le> clk (nm_dev st) + 45500"
      using run_eth_begin_time [OF C, of B st0] eth by simp
    moreover have "ok \<Longrightarrow> s_ready st1" using eth(2) by (auto elim!: run_eth_begin_outcome simp: set_active_def)
    ultimately show ?thesis
      using c True eth(3) sw [of N 0 st1]
      by (cases ok) (auto simp: netmgr_is_ready_def netmgr_switch_mode_def Let_def)
  next
    case (wifi st1 ok w)
    have "clk (w_dev w) \<le> clk (nm_dev st) + nb_defer_wifi_ms B + 100000"
      using try_wifi_time [OF C, of B "nm_gw st1" "nm_wifi st1"] wifi(1,2)
        clk_eth_force_admin_down [OF C, of "get_eth_iface D B (nm_dev st)" "nm_dev st"] by simp
    then show ?thesis
      using c True wifi(3) sw [of N 1 "st1\<lparr>nm_wifi := w\<rparr>"]
      by (cases ok) (auto simp: netmgr_is_ready_def netmgr_switch_mode_def set_active_def Let_def)
  qed
qed

section \<open>A board\<close>

text \<open>A platform for the closed examples: interface 1 is WiFi, interface 2 Ethernet; the
  Ethernet link is up from the time \<open>from\<close> on, the access point never answers; the board
  counts the milliseconds.\<close>

definition sample_net :: "nat \<Rightarrow> nat net_drv" where
  "sample_net from =
     \<lparr>nd_pton = (\<lambda>s. if s = [] then None else Some 0),
      nd_if_by_index = (\<lambda>n d. if n \<le> 2 then Some n else None), nd_first_wifi = (\<lambda>d. Some 1),
      nd_l2_ethernet = (\<lambda>i d. True), nd_admin_up = (\<lambda>i d. True), nd_is_up = (\<lambda>i d. True),
      nd_lower_up = (\<lambda>i d. from \<le> d), nd_if_up = (\<lambda>i d. d), nd_if_down = (\<lambda>i d. d),
      nd_dhcp_stop = (\<lambda>i d. d), nd_set_default = (\<lambda>i d. d), nd_addr_add = (\<lambda>i a d. (True, d)),
      nd_addr_rm = (\<lambda>i a d. d), nd_addr_lookup = (\<lambda>i a d. True),
      nd_set_netmask = (\<lambda>i a m d. d), nd_set_gw = (\<lambda>i a d. d),
      nd_router_lookup = (\<lambda>i a d. None), nd_router_rm = (\<lambda>r d. d),
      nd_router_add = (\<lambda>i a d. (True, d)), nd_add_event_callback = (\<lambda>d. d),
      nd_wifi_connect = (\<lambda>i p d. (0, d)), nd_wifi_disconnect = (\<lambda>i d. d),
      nd_msleep = (\<lambda>ms d. d + ms), nd_wait = (\<lambda>ms d. ([], d + ms)),
      nd_gpio_ready = (\<lambda>g d. True), nd_gpio_configure = (\<lambda>g f d. d),
      nd_gpio_set = (\<lambda>g b d. d)\<rparr>"

definition sample_build :: net_build where
  "sample_build = \<lparr>nb_wifi_enable = True, nb_security = Choice_wpa_auto, nb_band_2_4 = False,
                   nb_band_5 = True, nb_defer_wifi_ms = 2000\<rparr>"

lemma net_clock_sample [simp]: "net_clock (sample_net from) id"
  by (simp add: net_clock_def sample_net_def)

lemma sample_eth_iface [simp]: "get_eth_iface (sample_net from) sample_build d = Some 2"
proof -
  have "[1..<9] = (1::nat) # 2 # [3..<9]" by (simp add: upt_rec)
  then show ?thesis by (simp add: get_eth_iface_def sample_net_def sample_build_def)
qed

section \<open>A link that comes up in time\<close>

definition eth_addresses :: "'d net_drv \<Rightarrow> gw_config \<Rightarrow> bool" where
  "eth_addresses D c \<longleftrightarrow>
     nd_pton D (c_str (eth_ip c)) \<noteq> None \<and> nd_pton D (c_str (eth_netmask c)) \<noteq> None \<and>
     nd_pton D (c_str (eth_gw c)) \<noteq> None"

lemma eth_set_static_ip_ok:
  assumes "eth_addresses D c" "\<And>a d. fst (nd_addr_add D i a d)"
  shows "fst (eth_set_static_ip D c i d) = None"
proof -
  obtain addr netmask gw where p: "nd_pton D (c_str (eth_ip c)) = Some addr"
    "nd_pton D (c_str (eth_netmask c)) = Some netmask" "nd_pton D (c_str (eth_gw c)) = Some gw"
    using assms(1) unfolding eth_addresses_def by blast
  obtain d1 where "nd_addr_add D i addr (nd_addr_rm D i addr (nd_dhcp_stop D i d)) = (True, d1)"
    using assms(2) by (metis (full_types) prod.collapse)
  then show ?thesis by (simp add: eth_set_static_ip_def p)
qed

lemma try_eth_loop_link:
  assumes C: "net_clock D clk" and a: "eth_addresses D c" "\<And>a d. fst (nd_addr_add D i a d)"
    and up: "\<And>d. t \<le> clk d \<Longrightarrow> eth_link_is_up D i d"
  shows "n > 0 \<Longrightarrow> t \<le> clk d + n * 15000 \<Longrightarrow> fst (try_eth_loop D c i n d)"
proof (induction n arbitrary: d)
  case (Suc n)
  let ?d1 = "eth_wait_link D i 0 d"
  obtain d2 where ip: "eth_set_static_ip D c i ?d1 = (None, d2)"
    using eth_set_static_ip_ok [OF a, of ?d1] by (cases "eth_set_static_ip D c i ?d1") simp
  show ?case
  proof (cases "eth_link_is_up D i ?d1")
    case True
    then show ?thesis by (simp add: ip Let_def)
  next
    case False
    then have c: "clk ?d1 = clk d + 15000" using eth_wait_link_no_link [OF C, of 0 i d] by simp
    have "n > 0" using Suc.prems(2) c False up [of ?d1] by (cases n) auto
    then show ?thesis using Suc.IH [of ?d1] Suc.prems(2) c False by (simp add: Let_def)
  qed
qed simp

text \<open>C30: an Ethernet link that is up from some moment of the 45 s of the attempts on is found,
  and the board gets its configured address on it; the attempts never take longer.\<close>

theorem try_eth_finds_link:
  assumes C: "net_clock D clk" and i: "get_eth_iface D B d = Some i"
    and a: "eth_addresses D c" "\<And>a d. fst (nd_addr_add D i a d)"
    and up: "\<And>d. t \<le> clk d \<Longrightarrow> eth_link_is_up D i d" and t: "t \<le> clk d + 45000"
  shows "fst (try_eth D B c d) \<and> clk (snd (try_eth D B c d)) \<le> clk d + 45000"
proof -
  have "fst (try_eth_loop D c i 3 d)"
    by (rule try_eth_loop_link [OF C a up]) (use t in simp_all)
  then show ?thesis using clk_try_eth [OF C, of B c d] i by (simp add: try_eth_def)
qed

section \<open>The board at work\<close>

abbreviation (input) sample_c :: gw_config where "sample_c \<equiv> g_gw_config sample_cfg_state"

lemma sample_facts:
  "eth_addresses (sample_net from) sample_c" "cfg_wf sample_c" "net_boot_mode sample_c = 1"
  "nb_wifi_enable sample_build" "nb_defer_wifi_ms sample_build = 2000" "nvs_ok sample_cfg_state"
  "c_str (eth_ip sample_c) = [0x31]"
proof -
  show "cfg_wf sample_c" by (simp add: sample_cfg_state_def)
  show "net_boot_mode sample_c = 1" by code_simp
  show "c_str (eth_ip sample_c) = [0x31]" by code_simp
  moreover have "c_str (eth_netmask sample_c) = [0x32]" "c_str (eth_gw sample_c) = [0x33]" by code_simp+
  ultimately show "eth_addresses (sample_net from) sample_c"
    by (simp add: eth_addresses_def sample_net_def)
qed (simp_all add: sample_build_def sample_cfg_state_def)

lemma sample_addr_add: "fst (nd_addr_add (sample_net from) i a d)"
  by (simp add: sample_net_def)

lemma sample_link: "eth_link_is_up (sample_net from) i d \<longleftrightarrow> from \<le> d"
  by (simp add: eth_link_is_up_def sample_net_def)

lemma sample_try_eth: "fst (try_eth (sample_net from) sample_build sample_c d) \<longleftrightarrow> from \<le> d + 45000"
proof -
  note C = net_clock_sample [of "from"]
  have late: "\<not> fst (try_eth_loop (sample_net from) sample_c 2 n d)" if "d + n * 15000 < from" for n d
    using that
  proof (induction n arbitrary: d)
    case (Suc n)
    let ?d1 = "eth_wait_link (sample_net from) 2 0 d"
    have "?d1 \<le> d + 15000" using clk_eth_wait_link [OF C, of 0 2 d] by simp
    then show ?case using Suc.IH [of ?d1] Suc.prems by (simp add: Let_def sample_link)
  qed simp
  have "fst (try_eth_loop (sample_net from) sample_c 2 3 d)" if "from \<le> d + 45000"
    by (rule try_eth_loop_link [OF C sample_facts(1) sample_addr_add])
      (use that in \<open>simp_all add: sample_link\<close>)
  then show ?thesis using late [of d 3] by (cases "from \<le> d + 45000") (simp_all add: try_eth_def)
qed

text \<open>The device code plays no part on the Ethernet side.\<close>

lemma try_eth_code: "try_eth D B (c\<lparr>master_code := mc\<rparr>) d = try_eth D B c d"
proof -
  have "try_eth_loop D (c\<lparr>master_code := mc\<rparr>) i n d = try_eth_loop D c i n d" for i n d
  proof (induction n arbitrary: d)
    case (Suc n)
    have "eth_set_static_ip D (c\<lparr>master_code := mc\<rparr>) = eth_set_static_ip D c"
      "eth_clear_ip D (c\<lparr>master_code := mc\<rparr>) = eth_clear_ip D c"
      by (intro ext; simp add: eth_set_static_ip_def eth_clear_ip_def)+
    with Suc.IH show ?case by (simp add: Let_def split: prod.split option.split)
  qed simp
  then show ?thesis by (simp add: try_eth_def split: option.split)
qed

lemma sample_cycle:
  fixes N :: "'s nvs_ops"
  assumes "nm_gw st = sample_c\<lparr>master_code := mc\<rparr>" "nm_dev st = 0"
  shows "if from \<le> 45000
     then \<exists>st'. netmgr_step (sample_net from) N sample_build (Cycle, st) = (Eth_service (Some 2), st') \<and>
            netmgr_active_iface st' = NETMGR_IFACE_ETH
     else \<exists>st'. netmgr_step (sample_net from) N sample_build (Cycle, st) = (Restart, st')"
proof -
  obtain ok d where t: "try_eth (sample_net from) sample_build sample_c 0 = (ok, d)"
    by (cases "try_eth (sample_net from) sample_build sample_c 0")
  have ok: "ok \<longleftrightarrow> from \<le> 45000" using sample_try_eth [of "from" 0] by (simp add: t)
  have up: "nd_admin_up (sample_net from) i d" "nd_is_up (sample_net from) i d" for i d
    by (simp_all add: sample_net_def)
  show ?thesis
    using t ok
    by (cases ok) (simp_all add: netmgr_step_def netmgr_cycle_def assms sample_facts run_eth_begin_def up try_eth_code
        netmgr_switch_mode_def netmgr_active_iface_def set_active_def Let_def)
qed

lemma sample_boot:
  "nm_gw (netmgr_boot (0::nat) sample_cfg_state) = sample_c\<lparr>master_code := master_code sample_c\<rparr>"
  "nm_dev (netmgr_boot (0::nat) sample_cfg_state) = 0"
  by (simp_all add: netmgr_boot_def wifi_boot_def)

lemma sample_reach:
  "\<exists>st. netmgr_reach (sample_net 20000) ram_nvs sample_build 0 sample_cfg_state (Eth_service (Some 2), st) \<and>
     netmgr_active_iface st = NETMGR_IFACE_ETH"
proof -
  let ?D = "sample_net 20000"
  obtain st where st: "netmgr_step ?D ram_nvs sample_build (Cycle, netmgr_boot 0 sample_cfg_state) =
      (Eth_service (Some 2), st)" "netmgr_active_iface st = NETMGR_IFACE_ETH"
    using sample_cycle [OF sample_boot, of 20000 ram_nvs] by auto
  have "netmgr_reach ?D ram_nvs sample_build 0 sample_cfg_state (Eth_service (Some 2), st)"
    unfolding st(1) [symmetric] by (rule Step [OF Start Task])
  with st(2) show ?thesis by blast
qed

lemma netmgr_publishes_witness:
  "\<exists>st. netmgr_reach (sample_net 20000) ram_nvs sample_build 0 sample_cfg_state (Eth_service (Some 2), st) \<and>
     netmgr_is_ready st \<and> netmgr_local_ip st = [0x31] \<and> netmgr_active_iface_label st = ''ETH''"
proof -
  obtain st where st: "netmgr_reach (sample_net 20000) ram_nvs sample_build 0 sample_cfg_state
      (Eth_service (Some 2), st)" "netmgr_active_iface st = NETMGR_IFACE_ETH"
    using sample_reach by blast
  with netmgr_publishes [OF sample_facts(2) st(1)] show ?thesis
    by (auto simp: iface_ip_def sample_facts)
qed


lemma netmgr_round_bounded_witness:
  "\<exists>st'. netmgr_step (sample_net 50000) ram_nvs sample_build (Cycle, netmgr_boot 0 sample_cfg_state) =
      (Restart, st') \<and> nm_dev st' \<le> 102200"
proof -
  obtain st' where st': "netmgr_step (sample_net 50000) ram_nvs sample_build
      (Cycle, netmgr_boot 0 sample_cfg_state) = (Restart, st')"
    using sample_cycle [OF sample_boot, of 50000 ram_nvs] by auto
  from netmgr_round_bounded [OF net_clock_sample this] show ?thesis
    using st' by (simp add: sample_facts sample_boot)
qed

lemma try_eth_finds_link_witness:
  "fst (try_eth (sample_net 20000) sample_build sample_c 100) \<and>
   snd (try_eth (sample_net 20000) sample_build sample_c 100) \<le> 45100"
  using try_eth_finds_link [OF net_clock_sample sample_eth_iface sample_facts(1) sample_addr_add,
      of 20000 20000 100] by (simp add: sample_link)

section \<open>A request that outlives its connection\<close>

lemma netmgr_cycle_keeps_request:
  "s_force_wifi_reconnect (snd (netmgr_cycle D N B st)) = s_force_wifi_reconnect st"
proof -
  have e: "s_force_wifi_reconnect st1 = s_force_wifi_reconnect st0"
    if "run_eth_begin D B st0 = (ok, st1)" for ok and st0 st1 :: "('a, 'b) netmgr"
    using that by (cases ok) (auto elim!: run_eth_begin_outcome simp: set_active_def)
  show ?thesis
    by (auto simp: netmgr_cycle_def netmgr_switch_mode_def set_active_def Let_def dest!: e
        split: prod.split bool.split)
qed

text \<open>The request to reconnect is not withdrawn when the connection it was meant for ends by
  itself: the next connection is given up at its first check although the network is ready.\<close>

lemma stale_reconnect_request:
  assumes "\<not> wifi_is_ready D (nm_gw st) (nm_dev st)" "s_force_wifi_reconnect st"
    "netmgr_step D N B (Wifi_service, st) = (Cycle, st1)"
    "netmgr_step D N B (Cycle, st1) = (Wifi_service, st2)"
    "wifi_is_ready D (nm_gw st2) (nm_dev st2)"
  shows "\<exists>st3. netmgr_step D N B (Wifi_service, st2) = (Cycle, st3) \<and> \<not> netmgr_is_ready st3"
proof -
  have "s_force_wifi_reconnect st1"
    using assms(1-3) by (auto simp: netmgr_step_def wifi_service_end_def clear_active_def)
  then have "s_force_wifi_reconnect st2"
    using assms(4) netmgr_cycle_keeps_request [of D N B st1] by (simp add: netmgr_step_def)
  then show ?thesis
    using assms(5) by (auto simp: netmgr_step_def wifi_service_end_def netmgr_is_ready_def clear_active_def)
qed

end
