(* ===== verification/Tcp_Client.thy ===== *)
theory Tcp_Client
  imports Tcp_Steps Net_Manager
begin

text \<open>
  \<^verbatim>\<open>src/tcp_gateway.c\<close>, \<open>tcp_gateway_task\<close>: the loop that connects to the server of the
  active interface, serves the connection and reports to the network manager whether the server
  could be reached.  One turn of the loop is one attempt to connect, with the session it leads
  to.
\<close>

section \<open>The task\<close>

record tcp_build =
  tb_peer_ip :: bytes
  tb_peer_port :: int

text \<open>What an attempt meets: the descriptor of the socket, the answer of the connection request,
  and what the session meets.\<close>

record tcp_turn =
  ct_socket :: int
  ct_connect :: int
  ct_env :: gw_env
  ct_events :: "sock_event list"

definition tcp_peer :: "tcp_build \<Rightarrow> ('d, 's) netmgr \<Rightarrow> bytes \<times> u16" where
  "tcp_peer K nm =
     (let peer_host = netmgr_tcp_peer_ip nm; peer_port = netmgr_tcp_peer_port nm
      in if peer_host = [] \<or> peer_port = 0 then (tb_peer_ip K, word_of_int (tb_peer_port K))
         else (peer_host, peer_port))"

text \<open>The connect body is prepared before the first handshake and does not change.\<close>

definition tcp_client_turn ::
    "'d net_drv \<Rightarrow> net_build \<Rightarrow> tcp_build \<Rightarrow> bytes \<Rightarrow> tcp_turn \<Rightarrow> gw_state \<times> ('d, 's) netmgr \<Rightarrow>
     gw_state \<times> ('d, 's) netmgr" where
  "tcp_client_turn D B K connect_body t gn =
     (case gn of (gw, nm) \<Rightarrow>
        if ct_socket t < 0 then (gw, nm)
        else case nd_pton D (fst (tcp_peer K nm)) of
               None \<Rightarrow> (gw, nm)
             | Some addr \<Rightarrow>
                 if ct_connect t \<noteq> 0
                 then (tcp_comm_error gw, netmgr_notify_tcp_connect_fail D B nm)
                 else (snd (gw_handle_client (ct_env t) connect_body (ct_events t) gw),
                       netmgr_notify_tcp_connect_ok nm))"

section \<open>The task beside the network manager\<close>

text \<open>The reachable states of the two together: the manager and everything it meets on one side,
  a turn of the TCP task on the other.\<close>

inductive gateway_reach ::
    "'d net_drv \<Rightarrow> 's nvs_ops \<Rightarrow> net_build \<Rightarrow> tcp_build \<Rightarrow> 'd \<Rightarrow> 's cfg_state \<Rightarrow> gw_state \<Rightarrow>
     netmgr_point \<Rightarrow> ('d, 's) netmgr \<Rightarrow> gw_state \<Rightarrow> bool"
  for D N B K d cfg gw0 where
  Boot: "gateway_reach D N B K d cfg gw0 Cycle (netmgr_boot d cfg) gw0"
| Manager: "gateway_reach D N B K d cfg gw0 p nm gw \<Longrightarrow> netmgr_trans D N B (p, nm) (p', nm') \<Longrightarrow>
    gateway_reach D N B K d cfg gw0 p' nm' gw"
| Client: "gateway_reach D N B K d cfg gw0 p nm gw \<Longrightarrow> p \<noteq> Restart \<Longrightarrow>
    tcp_client_turn D B K body t (gw, nm) = (gw', nm') \<Longrightarrow>
    gateway_reach D N B K d cfg gw0 p nm' gw'"

lemma client_turn_trans:
  assumes "tcp_client_turn D B K body t (gw, nm) = (gw', nm')" "p \<noteq> Restart"
  shows "nm' = nm \<or> netmgr_trans D N B (p, nm) (p, nm')"
  using assms Tcp_fail [of p D N B nm] Tcp_ok [of p D N B nm]
  by (auto simp: tcp_client_turn_def split: if_splits option.splits)

lemma client_turn_wf:
  assumes "gw_wf gw" "tcp_client_turn D B K body t (gw, nm) = (gw', nm')"
    and "\<And>env evs. gw_wf (snd (gw_handle_client env body evs gw))"
  shows "gw_wf gw'"
  using assms by (auto simp: tcp_client_turn_def gw.comm_error_inv split: if_splits option.splits)

lemma gateway_reach_netmgr:
  "gateway_reach D N B K d cfg gw0 p nm gw \<Longrightarrow> netmgr_reach D N B d cfg (p, nm)"
proof (induction rule: gateway_reach.induct)
  case Boot
  show ?case by (rule Start)
next
  case (Manager p nm gw p' nm')
  then show ?case by (blast intro: Step)
next
  case (Client p nm gw body t gw' nm')
  then show ?case using client_turn_trans by (metis Step)
qed

lemma gateway_reach_wf:
  "gateway_reach D N B K d cfg gw0 p nm gw \<Longrightarrow> gw_wf gw0 \<Longrightarrow> gw_wf gw"
  by (induction rule: gateway_reach.induct) (auto intro: client_turn_wf gw.handle_client_inv)

text \<open>The configured TCP destination of an interface.\<close>

definition iface_tcp_peer :: "gw_config \<Rightarrow> netmgr_iface_t \<Rightarrow> bytes \<times> u16" where
  "iface_tcp_peer c i =
     (case i of
        NETMGR_IFACE_NONE \<Rightarrow> ([], 0)
      | NETMGR_IFACE_WIFI \<Rightarrow> (c_str (wifi_tcp_server_ip c), wifi_tcp_server_port c)
      | NETMGR_IFACE_ETH \<Rightarrow> (c_str (eth_tcp_server_ip c), eth_tcp_server_port c))"

lemma tcp_peer_of_iface:
  assumes "cfg_wf (g_gw_config cfg)" "netmgr_reach D N B d cfg (p, nm)"
  shows "(let peer = iface_tcp_peer (g_gw_config cfg) (netmgr_active_iface nm)
     in tcp_peer K nm = (if fst peer = [] \<or> snd peer = 0 then (tb_peer_ip K, word_of_int (tb_peer_port K))
                         else peer)) \<and>
    (netmgr_active_iface nm \<noteq> NETMGR_IFACE_NONE \<longrightarrow>
       netmgr_active_iface nm = mode_iface (effective_mode B (net_boot_mode (g_gw_config cfg))))"
proof -
  have i: "netmgr_inv B (g_gw_config cfg) (p, nm)" by (rule netmgr_reach_inv [OF assms])
  then obtain m where m: "nm_gw nm = (g_gw_config cfg)\<lparr>net_boot_mode := m\<rparr>"
    by (auto simp: netmgr_inv_def)
  have "s_active nm \<noteq> NETMGR_IFACE_NONE \<Longrightarrow>
      s_active nm = mode_iface (effective_mode B (net_boot_mode (g_gw_config cfg)))"
    using i by (cases p) (auto simp: netmgr_inv_def mode_iface_def)
  moreover have "(netmgr_tcp_peer_ip nm, netmgr_tcp_peer_port nm) =
      iface_tcp_peer (g_gw_config cfg) (netmgr_active_iface nm)"
    using m by (cases "s_active nm") (simp_all add: netmgr_tcp_peer_ip_def netmgr_tcp_peer_port_def
        iface_tcp_peer_def netmgr_active_iface_def)
  then have "tcp_peer K nm =
      (let peer = iface_tcp_peer (g_gw_config cfg) (netmgr_active_iface nm)
       in if fst peer = [] \<or> snd peer = 0 then (tb_peer_ip K, word_of_int (tb_peer_port K)) else peer)"
    unfolding tcp_peer_def Let_def by (metis fst_conv snd_conv)
  ultimately show ?thesis by (simp add: netmgr_active_iface_def Let_def)
qed

text \<open>Whatever the links, the access point, the server, the network and the serial line do,
  the network manager and the TCP task keep the gateway consistent: at every moment the error
  latch holds one of the defined codes, an open UDP gate stands for a synchronised clock with a
  millisecond below 1000, and the receive rings are within their bounds; and the server the
  task would connect to is the one configured for the published interface, or the one of the
  build when nothing is published or nothing usable is configured.\<close>

theorem gateway_invariant:
  assumes "cfg_wf (g_gw_config cfg)" "gw_wf gw0" "gateway_reach D N B K d cfg gw0 p nm gw"
  shows "err_wf (gw_err gw) \<and> rs232_wf (gw_port gw) \<and>
    (sg_udp_allowed (gw_gate gw) \<longrightarrow> wall_synced (sg_clock (gw_gate gw))) \<and>
    unat (sync_msec (sg_clock (gw_gate gw))) \<le> 999 \<and>
    (let peer = iface_tcp_peer (g_gw_config cfg) (netmgr_active_iface nm)
     in tcp_peer K nm = (if fst peer = [] \<or> snd peer = 0 then (tb_peer_ip K, word_of_int (tb_peer_port K))
                         else peer)) \<and>
    (netmgr_active_iface nm \<noteq> NETMGR_IFACE_NONE \<longrightarrow>
       netmgr_active_iface nm = mode_iface (effective_mode B (net_boot_mode (g_gw_config cfg))))"
  using gateway_reach_wf [OF assms(3,2)]
    tcp_peer_of_iface [OF assms(1) gateway_reach_netmgr [OF assms(3)], of K]
  by (simp add: gw_wf_def gate_wf_def)

section \<open>Failed connections\<close>

text \<open>\<open>n\<close> attempts in a row that reach the connection request and fail.\<close>

definition failed_turn :: "tcp_turn \<Rightarrow> bool" where
  "failed_turn t \<longleftrightarrow> ct_socket t \<ge> 0 \<and> ct_connect t \<noteq> 0"

lemma failed_turn_step:
  assumes "failed_turn t" "nd_pton D (fst (tcp_peer K nm)) \<noteq> None"
  shows "tcp_client_turn D B K body t (gw, nm) = (tcp_comm_error gw, netmgr_notify_tcp_connect_fail D B nm)"
  using assms by (auto simp: tcp_client_turn_def failed_turn_def)

text \<open>What the manager is after \<open>n\<close> failures since the last success.\<close>

definition after_fails :: "'d net_drv \<Rightarrow> ('d, 's) netmgr \<Rightarrow> nat \<Rightarrow> ('d, 's) netmgr" where
  "after_fails D nm n =
     nm\<lparr>s_tcp_fail_count := word_of_nat (n mod 5),
        s_force_wifi_reconnect := (n \<ge> 5 \<and> \<not> wifi_is_ready D (nm_gw nm) (nm_dev nm))\<rparr>"

lemma after_fails_same [simp]:
  "nm_cfg (after_fails D nm n) = nm_cfg nm" "nm_wifi (after_fails D nm n) = nm_wifi nm"
  "s_active (after_fails D nm n) = s_active nm" "tcp_peer K (after_fails D nm n) = tcp_peer K nm"
  by (simp_all add: after_fails_def tcp_peer_def netmgr_tcp_peer_ip_def netmgr_tcp_peer_port_def)

lemma small_count: "n < 5 \<Longrightarrow> sint (word_of_nat n :: u32) = int n"
proof -
  assume "n < 5"
  then have "n = 0 \<or> n = 1 \<or> n = 2 \<or> n = 3 \<or> n = 4" by linarith
  then show ?thesis by auto
qed

lemma notify_fail_counts:
  assumes "nb_wifi_enable B" "s_active nm = NETMGR_IFACE_WIFI"
  shows "netmgr_notify_tcp_connect_fail D B (after_fails D nm n) = after_fails D nm (Suc n)"
proof -
  have m: "Suc n mod 5 = (if n mod 5 = 4 then 0 else Suc (n mod 5))" by (simp add: mod_Suc)
  have c: "sint (s_tcp_fail_count (after_fails D nm n)) = int (n mod 5)"
    by (simp add: after_fails_def small_count)
  have f: "n mod 5 = 4 \<Longrightarrow> 4 \<le> n" "n mod 5 \<noteq> 4 \<Longrightarrow> (5 \<le> Suc n) = (5 \<le> n)"
    by (auto simp: mod_less_eq_dividend) presburger+
  show ?thesis
  proof (cases "n mod 5 = 4")
    case True
    then show ?thesis
      using assms c f(1) m
      by (auto simp: netmgr_notify_tcp_connect_fail_def after_fails_def Let_def)
  next
    case False
    have "int (n mod 5) + 1 < 5" using False by presburger
    then show ?thesis
      using assms c f(2) [OF False] m False
      by (simp add: netmgr_notify_tcp_connect_fail_def Let_def) (simp add: after_fails_def)
  qed
qed

text \<open>Failed connections lead to a reconnection of WiFi only when WiFi itself is down:
  with WiFi active, after any number of failed attempts in a row since the last success, the
  counter is that number modulo five, the reconnection is requested exactly when there were five
  or more and the interface is not ready, and the error latch holds the TCP error.\<close>

theorem tcp_fail_limit:
  assumes "nb_wifi_enable B" "s_active nm = NETMGR_IFACE_WIFI" "ts \<noteq> []" "list_all failed_turn ts"
    and "nd_pton D (fst (tcp_peer K nm)) \<noteq> None"
    and "fold (tcp_client_turn D B K body) ts (gw, netmgr_notify_tcp_connect_ok nm) = (gw', nm')"
  shows "s_tcp_fail_count nm' = word_of_nat (length ts mod 5) \<and>
    (s_force_wifi_reconnect nm' \<longleftrightarrow>
       length ts \<ge> 5 \<and> \<not> wifi_is_ready D (nm_gw nm) (nm_dev nm)) \<and>
    gw_error_get (gw_err gw') = GW_ERR_TCP_COMM"
proof -
  have fold: "fold (tcp_client_turn D B K body) ts (g, after_fails D nm n) =
      (fold (\<lambda>t. tcp_comm_error) ts g, after_fails D nm (n + length ts))" if "list_all failed_turn ts" for ts g n
    using that
  proof (induction ts arbitrary: g n)
    case (Cons t ts)
    have "tcp_client_turn D B K body t (g, after_fails D nm n) = (tcp_comm_error g, after_fails D nm (Suc n))"
      using failed_turn_step [of t D K "after_fails D nm n" B body g] Cons.prems assms(5)
        notify_fail_counts [OF assms(1,2), of D n] by simp
    then show ?case using Cons.IH [of "tcp_comm_error g" "Suc n"] Cons.prems by simp
  qed simp
  have err: "gw_error_get (gw_err (fold (\<lambda>t. tcp_comm_error) ts gw)) = GW_ERR_TCP_COMM" if "ts \<noteq> []" for ts :: "tcp_turn list"
    using that by (induction ts rule: rev_induct) (simp_all add: tcp_comm_error_def)
  have "netmgr_notify_tcp_connect_ok nm = after_fails D nm 0"
    by (simp add: netmgr_notify_tcp_connect_ok_def after_fails_def)
  then have "gw' = fold (\<lambda>t. tcp_comm_error) ts gw" "nm' = after_fails D nm (length ts)"
    using assms(6) fold [OF assms(4), of gw 0] by simp_all
  then show ?thesis using err [OF assms(3)] by (simp add: after_fails_def)
qed

section \<open>Closed examples\<close>

definition sample_tcp_build :: tcp_build where
  "sample_tcp_build = \<lparr>tb_peer_ip = [0x39], tb_peer_port = 5000\<rparr>"

definition sample_tcp_turn :: "int \<Rightarrow> tcp_turn" where
  "sample_tcp_turn r = \<lparr>ct_socket = 3, ct_connect = r, ct_env = sample_env, ct_events = [PeerGone]\<rparr>"

lemma gateway_invariant_witness:
  "\<exists>nm gw. gateway_reach (sample_net 20000) ram_nvs sample_build sample_tcp_build 0 sample_cfg_state gw_boot
     (Eth_service (Some 2)) nm gw \<and> tcp_peer sample_tcp_build nm = ([0x34], 5000) \<and> err_wf (gw_err gw)"
proof -
  let ?D = "sample_net 20000"
  obtain st where st: "netmgr_step ?D ram_nvs sample_build (Cycle, netmgr_boot 0 sample_cfg_state) =
      (Eth_service (Some 2), st)" "netmgr_active_iface st = NETMGR_IFACE_ETH"
    using sample_cycle [OF sample_boot, of 20000 ram_nvs] by auto
  have t: "netmgr_trans ?D ram_nvs sample_build (Cycle, netmgr_boot 0 sample_cfg_state) (Eth_service (Some 2), st)"
    unfolding st(1) [symmetric] by (rule Task)
  have r: "gateway_reach ?D ram_nvs sample_build sample_tcp_build 0 sample_cfg_state gw_boot
      (Eth_service (Some 2)) st gw_boot"
    by (rule gateway_reach.Manager [OF gateway_reach.Boot t])
  have "c_str (eth_tcp_server_ip sample_c) = [0x34]" "eth_tcp_server_port sample_c = 5000" by code_simp+
  with gateway_invariant [OF sample_facts(2) gw_wf_boot r] st(2) r show ?thesis
    by (auto simp: iface_tcp_peer_def)
qed

lemma tcp_fail_limit_witness:
  "let nm = (netmgr_boot (0::nat) sample_cfg_state)\<lparr>s_active := NETMGR_IFACE_WIFI\<rparr>;
       fails = (\<lambda>n. snd (fold (tcp_client_turn (sample_net 10) sample_build sample_tcp_build [])
                 (replicate n (sample_tcp_turn (-1))) (gw_boot, netmgr_notify_tcp_connect_ok nm)))
   in s_force_wifi_reconnect (fails 6) \<and> s_tcp_fail_count (fails 6) = 1 \<and>
      \<not> s_force_wifi_reconnect (fails 4)"
proof -
  let ?nm = "(netmgr_boot (0::nat) sample_cfg_state)\<lparr>s_active := NETMGR_IFACE_WIFI\<rparr>"
  let ?D = "sample_net 10"
  have f: "list_all failed_turn (replicate n (sample_tcp_turn (-1)))" for n
    by (simp add: list_all_iff failed_turn_def sample_tcp_turn_def)
  have p: "nd_pton ?D (fst (tcp_peer sample_tcp_build ?nm)) \<noteq> None"
    by (simp add: tcp_peer_def Let_def sample_net_def sample_tcp_build_def)
  have r: "\<not> wifi_is_ready ?D (nm_gw ?nm) (nm_dev ?nm)"
    by (simp add: wifi_is_ready_def sample_net_def netmgr_boot_def wifi_boot_def)
  have a: "s_active ?nm = NETMGR_IFACE_WIFI" by simp
  have "replicate n (sample_tcp_turn (-1)) \<noteq> []" if "n > 0" for n using that by simp
  from tcp_fail_limit [OF sample_facts(4) a this f p surjective_pairing, of _ "[]" gw_boot] r
  show ?thesis by (simp add: Let_def)
qed

end
