(* ===== verification/Gw_Float.thy ===== *)
theory Gw_Float
  imports Complex_Main Gw_Prelude "HOL-Library.Log_Nat"
begin

text \<open>
  The arithmetic of the C type \<^verbatim>\<open>float\<close> (IEEE 754 binary32) on the finite values the gateway
  computes with: a value is a rational number, an operation is the exact one followed by \<open>f32\<close>,
  the rounding to 24 significant bits, ties to even.  \<open>f32_bits\<close> is the memory image of a
  value and \<open>f32_value\<close> reads it back.  Values of \<open>2\<^sup>1\<^sup>2\<^sup>8\<close> and above, infinities and
  NaN do not occur in the program and have no image here.
\<close>

section \<open>Powers of two and binary exponents\<close>

abbreviation pow2 :: "int \<Rightarrow> rat" where "pow2 e \<equiv> power_int 2 e"

text \<open>The binary exponent of a positive number.\<close>

definition flog2 :: "rat \<Rightarrow> int" where
  "flog2 x =
     (let (n, d) = quotient_of x; k = bitlen n - bitlen d
      in if pow2 k \<le> x then k else k - 1)"

lemma pow2_pos [simp]: "pow2 e > 0"
  by simp

lemma pow2_add: "pow2 (a + b) = pow2 a * pow2 b"
  by (simp add: power_int_add)

lemma pow2_Suc: "pow2 (e + 1) = 2 * pow2 e"
  by (simp add: power_int_add)

lemma pow2_nonneg_int: "e \<ge> 0 \<Longrightarrow> pow2 e = of_int (2 ^ nat e)"
  by (metis int_nat_eq of_int_numeral of_int_power power_int_of_nat)

lemma pow2_less_iff [simp]: "pow2 a < pow2 b \<longleftrightarrow> a < b"
  by (meson linorder_not_less one_less_numeral_iff power_int_increasing power_int_strict_increasing
      semiring_norm(76) less_imp_le)

lemma pow2_le_iff [simp]: "pow2 a \<le> pow2 b \<longleftrightarrow> a \<le> b"
  by (simp flip: not_less)

lemma flog2_bounds:
  assumes "x > 0"
  shows "pow2 (flog2 x) \<le> x \<and> x < pow2 (flog2 x + 1)"
proof -
  obtain n d where q: "quotient_of x = (n, d)" by fastforce
  then have d: "d > 0" and x: "x = of_int n / of_int d"
    by (auto dest: quotient_of_denom_pos quotient_of_div)
  have n: "n > 0" using assms d by (simp add: x zero_less_divide_iff)
  let ?p = "nat (bitlen n - 1)" and ?q = "nat (bitlen d - 1)"
  have b: "bitlen n \<ge> 1" "bitlen d \<ge> 1" using n d by (simp_all add: bitlen_alt_def)
  have "nat (bitlen n) = ?p + 1" "nat (bitlen d) = ?q + 1" using b by linarith+
  then have pn: "2 ^ ?p \<le> n" "n < 2 ^ (?p + 1)" and qd: "2 ^ ?q \<le> d" "d < 2 ^ (?q + 1)"
    using bitlen_bounds [OF n] bitlen_bounds [OF d] by metis+
  have r: "2 ^ p \<le> (of_int i :: rat) \<and> of_int i < (2 * 2 ^ p :: rat)"
    if "2 ^ p \<le> i" "i < 2 ^ (p + 1)" for p i
  proof -
    have "(of_int (2 ^ p) :: rat) \<le> of_int i" "(of_int i :: rat) < of_int (2 ^ (p + 1))"
      by (simp_all only: of_int_le_iff of_int_less_iff that)
    then show ?thesis by simp
  qed
  note rn = conjunct1 [OF r [OF pn]] conjunct2 [OF r [OF pn]]
    and rd = conjunct1 [OF r [OF qd]] conjunct2 [OF r [OF qd]]
  let ?k = "bitlen n - bitlen d"
  have k: "pow2 ?k = 2 ^ ?p / 2 ^ ?q"
  proof -
    have g: "pow2 (int a - int c) = 2 ^ a / 2 ^ c" for a c :: nat
      by (simp add: power_int_diff)
    have e: "?k = int ?p - int ?q" using b by linarith
    show ?thesis unfolding e by (rule g)
  qed
  have up: "x < pow2 (?k + 1)"
  proof -
    have "x \<le> of_int n / 2 ^ ?q"
      unfolding x using rd(1) n by (intro divide_left_mono) (auto intro: mult_pos_pos simp: d)
    also have "\<dots> < 2 * 2 ^ ?p / 2 ^ ?q" using rn(2) by (simp add: divide_strict_right_mono)
    finally show ?thesis by (simp only: pow2_Suc k times_divide_eq_right)
  qed
  have lo: "pow2 (?k - 1) \<le> x"
  proof -
    have "pow2 (?k - 1) = 2 ^ ?p / (2 * 2 ^ ?q)"
      using pow2_Suc [of "?k - 1"] by (simp add: k)
    also have "\<dots> \<le> of_int n / (2 * 2 ^ ?q)" using rn(1) by (simp add: divide_right_mono)
    also have "\<dots> \<le> x"
      unfolding x using rd n d by (intro divide_left_mono) (auto intro: mult_pos_pos)
    finally show ?thesis .
  qed
  show ?thesis using up lo by (simp add: flog2_def q Let_def)
qed

lemma flog2_eqI: "pow2 e \<le> x \<Longrightarrow> x < pow2 (e + 1) \<Longrightarrow> flog2 x = e"
proof -
  assume e: "pow2 e \<le> x" "x < pow2 (e + 1)"
  have "x > 0" using e(1) pow2_pos [of e] by linarith
  from flog2_bounds [OF this] have "pow2 (flog2 x) < pow2 (e + 1)" "pow2 e < pow2 (flog2 x + 1)"
    using e by linarith+
  then show "flog2 x = e" by simp
qed

section \<open>Rounding to binary32\<close>

definition round_half_even :: "rat \<Rightarrow> int" where
  "round_half_even q =
     (let r = q - of_int \<lfloor>q\<rfloor>
      in if r < 1 / 2 then \<lfloor>q\<rfloor> else if r > 1 / 2 then \<lfloor>q\<rfloor> + 1
         else if even \<lfloor>q\<rfloor> then \<lfloor>q\<rfloor> else \<lfloor>q\<rfloor> + 1)"

text \<open>The exponent of the last significant bit.\<close>

definition ulp_exp :: "rat \<Rightarrow> int" where
  "ulp_exp x = max (flog2 \<bar>x\<bar> - 23) (- 149)"

definition f32 :: "rat \<Rightarrow> rat" where
  "f32 x = (if x = 0 then 0
            else of_int (round_half_even (x / pow2 (ulp_exp x))) * pow2 (ulp_exp x))"

text \<open>The values a \<^verbatim>\<open>float\<close> can have.\<close>

definition is_f32 :: "rat \<Rightarrow> bool" where
  "is_f32 x \<longleftrightarrow> (\<exists>m e. x = of_int m * pow2 e \<and> \<bar>m\<bar> < 2 ^ 24 \<and> e \<ge> - 149)"

lemma round_half_even_int [simp]: "round_half_even (of_int i) = i"
  by (simp add: round_half_even_def)

lemma round_half_even_near: "\<bar>of_int (round_half_even q) - q\<bar> \<le> 1 / 2"
proof -
  have f: "of_int \<lfloor>q\<rfloor> \<le> q" "q < of_int \<lfloor>q\<rfloor> + 1" by linarith+
  consider "round_half_even q = \<lfloor>q\<rfloor>" "q - of_int \<lfloor>q\<rfloor> \<le> 1 / 2"
    | "round_half_even q = \<lfloor>q\<rfloor> + 1" "q - of_int \<lfloor>q\<rfloor> \<ge> 1 / 2"
    unfolding round_half_even_def Let_def by (metis linear order.strict_iff_order not_less)
  then show ?thesis
  proof cases
    case 1
    show ?thesis unfolding 1(1) by (rule abs_leI) (use f 1(2) in linarith)+
  next
    case 2
    show ?thesis unfolding 2(1) of_int_add of_int_1 by (rule abs_leI) (use f 2(2) in linarith)+
  qed
qed

lemma ulp_exp_le:
  assumes "x \<noteq> 0" "\<bar>x\<bar> < pow2 (24 + e)" "e \<ge> - 149"
  shows "ulp_exp x \<le> e"
proof -
  have "pow2 (flog2 \<bar>x\<bar>) \<le> \<bar>x\<bar>" using flog2_bounds [of "\<bar>x\<bar>"] assms(1) by simp
  with assms(2) have "pow2 (flog2 \<bar>x\<bar>) < pow2 (24 + e)" by linarith
  then have "flog2 \<bar>x\<bar> < 24 + e" by (simp only: pow2_less_iff)
  then show ?thesis using assms(3) by (simp add: ulp_exp_def)
qed

text \<open>A number with at most 24 significant bits is not changed by the rounding.\<close>

lemma f32_exact:
  assumes "\<bar>m\<bar> < 2 ^ 24" "e \<ge> - 149"
  shows "f32 (of_int m * pow2 e) = of_int m * pow2 e"
proof (cases "m = 0")
  case False
  let ?x = "of_int m * pow2 e"
  have "\<bar>?x\<bar> < pow2 (24 + e)"
  proof -
    have "\<bar>?x\<bar> = of_int \<bar>m\<bar> * pow2 e" by (simp add: abs_mult)
    also have "\<dots> < of_int (2 ^ 24) * pow2 e"
      using assms(1) by (intro mult_strict_right_mono) (simp_all only: of_int_less_iff pow2_pos)
    also have "\<dots> = pow2 (24 + e)" by (simp add: pow2_add)
    finally show ?thesis .
  qed
  then have u: "ulp_exp ?x \<le> e" using False assms(2) by (intro ulp_exp_le) simp_all
  have "?x / pow2 (ulp_exp ?x) = of_int m * pow2 (e - ulp_exp ?x)"
    by (simp add: power_int_diff)
  also have "\<dots> = of_int (m * 2 ^ nat (e - ulp_exp ?x))"
    using u by (simp add: pow2_nonneg_int)
  finally have q: "?x / pow2 (ulp_exp ?x) = of_int (m * 2 ^ nat (e - ulp_exp ?x))" .
  have "f32 ?x = of_int (round_half_even (?x / pow2 (ulp_exp ?x))) * pow2 (ulp_exp ?x)"
    using False by (simp only: f32_def) simp
  also have "\<dots> = ?x / pow2 (ulp_exp ?x) * pow2 (ulp_exp ?x)"
    by (simp only: q round_half_even_int)
  also have "\<dots> = ?x" by (simp add: less_imp_neq [OF pow2_pos, symmetric])
  finally show ?thesis .
qed (simp add: f32_def)

lemma f32_id: "is_f32 x \<Longrightarrow> f32 x = x"
  unfolding is_f32_def using f32_exact by blast

lemma f32_0 [simp]: "f32 0 = 0"
  by (simp add: f32_def)

lemma f32_error:
  assumes "\<bar>x\<bar> < pow2 (24 + e)" "e \<ge> - 149"
  shows "\<bar>f32 x - x\<bar> \<le> pow2 e / 2"
proof (cases "x = 0")
  case False
  let ?u = "ulp_exp x"
  have u: "?u \<le> e" using ulp_exp_le [OF False assms] .
  have "f32 x - x = (of_int (round_half_even (x / pow2 ?u)) - x / pow2 ?u) * pow2 ?u"
    using False by (simp add: f32_def field_simps)
  then have "\<bar>f32 x - x\<bar> = \<bar>of_int (round_half_even (x / pow2 ?u)) - x / pow2 ?u\<bar> * pow2 ?u"
    by (simp add: abs_mult)
  also have "\<dots> \<le> 1 / 2 * pow2 ?u"
    by (intro mult_right_mono round_half_even_near) simp
  also have "\<dots> \<le> pow2 e / 2" using u by simp
  finally show ?thesis .
qed simp

lemma f32_error_ulp: "\<bar>x / pow2 (ulp_exp x)\<bar> < 2 ^ 24"
proof (cases "x = 0")
  case False
  let ?u = "ulp_exp x"
  have "\<bar>x\<bar> < pow2 (flog2 \<bar>x\<bar> + 1)" using flog2_bounds [of "\<bar>x\<bar>"] False by simp
  also have "\<dots> \<le> pow2 (24 + ?u)" unfolding pow2_le_iff ulp_exp_def by linarith
  also have "\<dots> = 2 ^ 24 * pow2 ?u" by (simp add: pow2_add)
  finally show ?thesis by (simp add: abs_divide pos_divide_less_eq)
qed simp

lemma is_f32_f32 [simp]: "is_f32 (f32 x)"
proof (cases "x = 0")
  case True
  have "is_f32 (of_int 0 * pow2 0)" unfolding is_f32_def by (intro exI [of _ 0] conjI) simp_all
  then show ?thesis by (simp add: True)
next
  case False
  let ?u = "ulp_exp x" and ?q = "x / pow2 (ulp_exp x)"
  let ?M = "round_half_even ?q"
  have v: "f32 x = of_int ?M * pow2 ?u" using False by (simp add: f32_def)
  have "\<bar>of_int ?M :: rat\<bar> \<le> \<bar>?q\<bar> + 1 / 2" using round_half_even_near [of ?q] by linarith
  also have "\<dots> < of_int (2 ^ 24 + 1)" using f32_error_ulp [of x] by simp
  finally have "of_int \<bar>?M\<bar> < (of_int (2 ^ 24 + 1) :: rat)" by simp
  then have M: "\<bar>?M\<bar> < 2 ^ 24 + 1" by (simp only: of_int_less_iff)
  have u: "?u \<ge> - 149" by (simp add: ulp_exp_def)
  show ?thesis
  proof (cases "\<bar>?M\<bar> = 2 ^ 24")
    case True
    then obtain s where s: "?M = s * 2 ^ 24" "\<bar>s\<bar> = 1" by (cases "?M \<ge> 0") (auto intro: that [of 1] that [of "- 1"])
    have "f32 x = of_int (s * 2 ^ 23) * pow2 (?u + 1)"
      unfolding v s(1) pow2_Suc by simp
    then show ?thesis unfolding is_f32_def using s(2) u
      by (intro exI [of _ "s * 2 ^ 23"] exI [of _ "?u + 1"]) (auto simp: abs_mult)
  next
    case False
    then show ?thesis unfolding is_f32_def using v u M by (intro exI [of _ ?M] exI [of _ ?u]) auto
  qed
qed

section \<open>The image of a value in memory\<close>

definition f32_bits :: "rat \<Rightarrow> u32" where
  "f32_bits x =
     (if x = 0 then 0
      else
        let e = flog2 \<bar>x\<bar>
        in word_of_int ((if x < 0 then 2 ^ 31 else 0) +
             (if e \<ge> - 126 then (e + 127) * 2 ^ 23 + (\<lfloor>\<bar>x\<bar> / pow2 (e - 23)\<rfloor> - 2 ^ 23)
              else \<lfloor>\<bar>x\<bar> / pow2 (- 149)\<rfloor>)))"

definition f32_value :: "u32 \<Rightarrow> rat" where
  "f32_value w =
     (let ex = uint w div 2 ^ 23 mod 256; fr = uint w mod 2 ^ 23;
          v = (if ex = 0 then of_int fr * pow2 (- 149) else of_int (fr + 2 ^ 23) * pow2 (ex - 150))
      in if uint w \<ge> 2 ^ 31 then - v else v)"

text \<open>A value is an integral number of its last significant bit.\<close>

lemma is_f32_norm:
  assumes "is_f32 x" "x \<noteq> 0"
  obtains M where "\<bar>x\<bar> = of_int M * pow2 (ulp_exp x)" "0 < M" "M < 2 ^ 24"
    "flog2 \<bar>x\<bar> \<ge> - 126 \<Longrightarrow> 2 ^ 23 \<le> M"
proof -
  let ?u = "ulp_exp x"
  have f: "f32 x = x" using assms(1) by (rule f32_id)
  have xe: "x = of_int (round_half_even (x / pow2 ?u)) * pow2 ?u"
    using f assms(2) by (simp add: f32_def)
  define M where "M = \<bar>round_half_even (x / pow2 ?u)\<bar>"
  have x: "\<bar>x\<bar> = of_int M * pow2 ?u" by (subst xe) (simp add: M_def abs_mult)
  then have q: "\<bar>x / pow2 ?u\<bar> = of_int M" by (simp add: abs_divide)
  have "(of_int M :: rat) < of_int (2 ^ 24)" using f32_error_ulp [of x] unfolding q by simp
  then have m: "M < 2 ^ 24" by (simp only: of_int_less_iff)
  have "M \<noteq> 0" using x assms(2) by auto
  then have p: "0 < M" by (simp add: M_def)
  have "2 ^ 23 \<le> M" if e: "flog2 \<bar>x\<bar> \<ge> - 126"
  proof -
    have u: "flog2 \<bar>x\<bar> = 23 + ?u" using e by (simp add: ulp_exp_def)
    have "pow2 (23 + ?u) \<le> \<bar>x\<bar>" using flog2_bounds [of "\<bar>x\<bar>"] assms(2) unfolding u by simp
    then have "2 ^ 23 * pow2 ?u \<le> of_int M * pow2 ?u" unfolding x pow2_add by simp
    then have "(of_int (2 ^ 23) :: rat) \<le> of_int M" by simp
    then show ?thesis by (simp only: of_int_le_iff)
  qed
  with that x p m show ?thesis by blast
qed

lemma f32_fields:
  fixes s ex fr :: int
  assumes "s \<in> {0, 1}" "0 \<le> ex" "ex \<le> 255" "0 \<le> fr" "fr < 2 ^ 23"
  defines "w \<equiv> word_of_int (s * 2 ^ 31 + ex * 2 ^ 23 + fr) :: u32"
  shows "uint w div 2 ^ 23 mod 256 = ex" "uint w mod 2 ^ 23 = fr" "uint w \<ge> 2 ^ 31 \<longleftrightarrow> s = 1"
proof -
  let ?n = "s * 2 ^ 31 + ex * 2 ^ 23 + fr"
  have "0 \<le> ?n" "?n < 2 ^ 32" using assms(1-5) by auto
  then have u: "uint w = ?n" unfolding w_def by (simp only: uint_word_of_int take_bit_int_eq_self len_of_numeral_defs) (simp add: take_bit_int_eq_self)
  define k where "k = s * 256 + ex"
  have n: "?n = fr + k * 2 ^ 23" by (simp add: k_def)
  show "uint w mod 2 ^ 23 = fr"
    unfolding u n mod_mult_self1 using assms(4,5) by (rule mod_pos_pos_trivial)
  have "uint w div 2 ^ 23 = k" unfolding u n using assms(4,5) by simp
  then show "uint w div 2 ^ 23 mod 256 = ex" using assms(2,3) by (simp add: k_def)
  show "uint w \<ge> 2 ^ 31 \<longleftrightarrow> s = 1" unfolding u using assms(1-5) by auto
qed

lemma f32_value_bits:
  assumes x: "is_f32 x" and r: "\<bar>x\<bar> < pow2 128"
  shows "f32_value (f32_bits x) = x"
proof (cases "x = 0")
  case False
  obtain M where M: "\<bar>x\<bar> = of_int M * pow2 (ulp_exp x)" "0 < M" "M < 2 ^ 24"
    "flog2 \<bar>x\<bar> \<ge> - 126 \<Longrightarrow> 2 ^ 23 \<le> M"
    using is_f32_norm [OF x False] by metis
  define e where "e = flog2 \<bar>x\<bar>"
  define s :: int where "s = (if x < 0 then 1 else 0)"
  have "pow2 e < pow2 128" using flog2_bounds [of "\<bar>x\<bar>"] False r unfolding e_def by linarith
  then have e: "e < 128" by (simp only: pow2_less_iff)
  have sg: "(if s = 1 then - \<bar>x\<bar> else \<bar>x\<bar>) = x" by (simp add: s_def)
  have s: "s \<in> {0, 1}" "(if x < 0 then 2 ^ 31 else 0 :: int) = s * 2 ^ 31" by (simp_all add: s_def)
  show ?thesis
  proof (cases "e \<ge> - 126")
    case True
    then have u: "ulp_exp x = e - 23" by (simp add: ulp_exp_def e_def)
    have "\<lfloor>\<bar>x\<bar> / pow2 (e - 23)\<rfloor> = M" by (simp add: M(1) u)
    then have b: "f32_bits x = word_of_int (s * 2 ^ 31 + (e + 127) * 2 ^ 23 + (M - 2 ^ 23))"
      unfolding f32_bits_def Let_def e_def [symmetric] if_not_P [OF False] s(2) if_P [OF True] by (simp only: add.assoc)
    have ex: "0 \<le> e + 127" "e + 127 \<le> 255" and fr: "0 \<le> M - 2 ^ 23" "M - 2 ^ 23 < 2 ^ 23"
      using True e M(3) M(4) [folded e_def] by simp_all
    note F = f32_fields [OF s(1) ex fr]
    have "e + 127 \<noteq> 0" using True by simp
    then have "f32_value (f32_bits x) = (if s = 1 then - (of_int M * pow2 (e - 23)) else of_int M * pow2 (e - 23))"
      unfolding f32_value_def Let_def b F by simp
    also have "\<dots> = x" using sg unfolding M(1) u .
    finally show ?thesis .
  next
    case f: False
    then have u: "ulp_exp x = - 149" by (simp add: ulp_exp_def e_def)
    have "of_int M * pow2 (- 149) < pow2 (- 126)"
    proof -
      have "\<bar>x\<bar> < pow2 (e + 1)" using flog2_bounds [of "\<bar>x\<bar>"] False by (simp add: e_def)
      also have "\<dots> \<le> pow2 (- 126)" using f unfolding pow2_le_iff by linarith
      finally show ?thesis by (simp add: M(1) u)
    qed
    also have "pow2 (- 126) = of_int (2 ^ 23) * pow2 (- 149)"
      using pow2_add [of 23 "- 149"] by simp
    finally have "(of_int M :: rat) < of_int (2 ^ 23)" by simp
    then have fr: "0 \<le> M" "M < 2 ^ 23" using M(2) by (simp_all only: of_int_less_iff less_imp_le)
    have b: "f32_bits x = word_of_int (s * 2 ^ 31 + 0 * 2 ^ 23 + M)"
    proof -
      have "\<lfloor>\<bar>x\<bar> / pow2 (- 149)\<rfloor> = M" by (simp add: M(1) u)
      then show ?thesis
        unfolding f32_bits_def Let_def e_def [symmetric] if_not_P [OF False] s(2) if_not_P [OF f] by simp
    qed
    have z: "(0 :: int) \<le> 255" by simp
    note F = f32_fields [OF s(1) order_refl z fr]
    have "f32_value (f32_bits x) = (if s = 1 then - (of_int M * pow2 (- 149)) else of_int M * pow2 (- 149))"
      unfolding f32_value_def Let_def b F by (simp only: refl if_True)
    also have "\<dots> = x" using sg unfolding M(1) u .
    finally show ?thesis .
  qed
qed (simp add: f32_bits_def f32_value_def)

end
