(* ===== verification/Adc.thy ===== *)
theory Adc
  imports Gw_Float Time_Helper Config_Nvs
begin

text \<open>
  \<^verbatim>\<open>src/adc.c\<close>: the AD7327 converter on its SPI bus, the running extremes of the sample
  windows, and the snapshot the UDP task reads.  The bus is the parameter \<open>spi\<close>: it takes a
  control word and the state of the device to the result of \<^verbatim>\<open>spi_transceive_dt\<close>, the received
  word and the next state.  Voltages are \<^verbatim>\<open>float\<close> values (theory \<open>Gw_Float\<close>).
\<close>

section \<open>The converter\<close>

abbreviation (input) AD7327_NUM_CHANNELS :: nat where "AD7327_NUM_CHANNELS \<equiv> 8"
abbreviation (input) ADC_LINE_ID_MAX_CHARS :: nat where "ADC_LINE_ID_MAX_CHARS \<equiv> 50"
abbreviation (input) ADC_LINE_MAX_LEN :: nat where "ADC_LINE_MAX_LEN \<equiv> 51"
abbreviation (input) ADC_WINDOW_SAMPLES :: u32 where "ADC_WINDOW_SAMPLES \<equiv> 1000"
abbreviation (input) ADC_UDP_SAMPLES_PER_PERIOD :: u16 where "ADC_UDP_SAMPLES_PER_PERIOD \<equiv> 10"

type_synonym 'd spi_dev = "u16 \<Rightarrow> 'd \<Rightarrow> int \<times> u16 \<times> 'd"

definition AD7327_CH_CTRL :: "nat \<Rightarrow> u16" where
  "AD7327_CH_CTRL ch = 0x8010 OR push_bit 10 (word_of_nat ch)"

text \<open>\<open>*result\<close> is written only when the transfer succeeded.\<close>

definition ad7327_transfer :: "'d spi_dev \<Rightarrow> u16 \<Rightarrow> u16 \<Rightarrow> 'd \<Rightarrow> int \<times> u16 \<times> 'd" where
  "ad7327_transfer spi ctrl_word result d =
     (let (ret, rx, d') = spi ctrl_word d in (ret, if ret = 0 then rx else result, d'))"

definition ad7327_result_to_volts :: "u16 \<Rightarrow> rat" where
  "ad7327_result_to_volts raw =
     (let data12 = drop_bit 1 raw AND 0x0FFF;
          code = (if data12 AND 0x0800 \<noteq> 0 then data12 OR 0xF000 else data12)
      in f32 (f32 (of_int (sint code)) * f32 (10 / 2048)))"

text \<open>The transfers 1 to 7: each commands channel \<open>i\<close> and receives the result of the one before.\<close>

fun ad7327_read_loop ::
    "'d spi_dev \<Rightarrow> nat list \<Rightarrow> u16 \<Rightarrow> rat list \<Rightarrow> 'd \<Rightarrow> (int + u16 \<times> rat list) \<times> 'd" where
  "ad7327_read_loop spi [] rx volts d = (Inr (rx, volts), d)"
| "ad7327_read_loop spi (i # is) rx volts d =
     (let (ret, rx', d') = ad7327_transfer spi (AD7327_CH_CTRL i) rx d
      in if ret \<noteq> 0 then (Inl ret, d')
         else ad7327_read_loop spi is rx' (volts @ [ad7327_result_to_volts rx']) d')"

definition ad7327_read_all :: "'d spi_dev \<Rightarrow> 'd \<Rightarrow> (int + rat list) \<times> 'd" where
  "ad7327_read_all spi d =
     (let (ret, rx, d1) = ad7327_transfer spi (AD7327_CH_CTRL 0) 0 d
      in if ret \<noteq> 0 then (Inl ret, d1)
         else
           case ad7327_read_loop spi [1..<AD7327_NUM_CHANNELS] rx [] d1 of
             (Inl e, d2) \<Rightarrow> (Inl e, d2)
           | (Inr (rx2, volts), d2) \<Rightarrow>
               let (ret, rx3, d3) = ad7327_transfer spi (AD7327_CH_CTRL 0) rx2 d2
               in if ret \<noteq> 0 then (Inl ret, d3)
                  else (Inr (volts @ [ad7327_result_to_volts rx3]), d3))"

section \<open>Snapshots\<close>

record adc_snapshot_t =
  snap_line :: bytes
  snap_datetime :: datetime_t
  snap_msec :: u16
  snap_sample_count :: u16
  snap_raw :: "rat list"
  snap_min :: "rat list"
  snap_max :: "rat list"
  snap_ch_count :: u8

record adc_state =
  adc_snapshot :: adc_snapshot_t
  adc_has_sample :: bool
  running_min :: "rat list"
  running_max :: "rat list"
  window_sample_count :: u32
  udp_period_sample_count :: u16
  udp_frozen_sample_count :: u16
  adc_sem_give_fail :: u32
  adc_sample_sem :: nat
  adc_udp_trigger_sem :: bool

text \<open>The statics before the task starts: all zero.\<close>

definition adc_boot :: adc_state where
  "adc_boot =
     \<lparr>adc_snapshot = \<lparr>snap_line = replicate ADC_LINE_MAX_LEN 0,
        snap_datetime = \<lparr>dt_year = 0, dt_month = 0, dt_day = 0, dt_hour = 0, dt_min = 0, dt_sec = 0\<rparr>,
        snap_msec = 0, snap_sample_count = 0, snap_raw = replicate 8 0, snap_min = replicate 8 0,
        snap_max = replicate 8 0, snap_ch_count = 0\<rparr>,
      adc_has_sample = False, running_min = replicate 8 0, running_max = replicate 8 0,
      window_sample_count = 0, udp_period_sample_count = 0, udp_frozen_sample_count = 0,
      adc_sem_give_fail = 0, adc_sample_sem = 0, adc_udp_trigger_sem = False\<rparr>"

text \<open>The start of \<open>adc_task\<close>, before its loop.\<close>

definition adc_task_init :: "bytes \<Rightarrow> adc_state \<Rightarrow> adc_state" where
  "adc_task_init code s =
     s\<lparr>running_min := replicate 8 999, running_max := replicate 8 (- 999),
       window_sample_count := 0, udp_period_sample_count := 0, adc_sem_give_fail := 0,
       adc_snapshot := (adc_snapshot s)\<lparr>snap_line :=
         (strncpy (snap_line (adc_snapshot s)) code ADC_LINE_ID_MAX_CHARS)
           [ADC_LINE_ID_MAX_CHARS := 0]\<rparr>\<rparr>"

definition adc_publish_sample :: "rat list \<Rightarrow> datetime_t \<times> u16 \<Rightarrow> adc_state \<Rightarrow> adc_state" where
  "adc_publish_sample volts now s =
     (let mins = map2 (\<lambda>v m. if v < m then v else m) volts (running_min s);
          maxs = map2 (\<lambda>v m. if v > m then v else m) volts (running_max s)
      in s\<lparr>running_min := mins, running_max := maxs,
           adc_snapshot := (adc_snapshot s)\<lparr>snap_raw := volts, snap_min := mins, snap_max := maxs,
             snap_ch_count := 8, snap_sample_count := udp_period_sample_count s,
             snap_datetime := fst now, snap_msec := snd now\<rparr>,
           adc_has_sample := True\<rparr>)"

definition adc_begin_next_window :: "rat list \<Rightarrow> adc_state \<Rightarrow> adc_state" where
  "adc_begin_next_window volts s =
     s\<lparr>running_min := volts, running_max := volts, window_sample_count := 0\<rparr>"

text \<open>What \<open>adc_process_one_sample\<close> does with a sample that was read.\<close>

definition adc_accept :: "rat list \<Rightarrow> datetime_t \<times> u16 \<Rightarrow> adc_state \<Rightarrow> adc_state" where
  "adc_accept volts now s =
     (let s1 = (if udp_period_sample_count s < 0xFFFF
                then s\<lparr>udp_period_sample_count := udp_period_sample_count s + 1\<rparr> else s);
          s2 = adc_publish_sample volts now
                 (s1\<lparr>window_sample_count := window_sample_count s1 + 1\<rparr>);
          s3 = (if window_sample_count s2 \<ge> ADC_WINDOW_SAMPLES then adc_begin_next_window volts s2
                else s2)
      in if udp_period_sample_count s3 \<ge> ADC_UDP_SAMPLES_PER_PERIOD
         then s3\<lparr>udp_frozen_sample_count := udp_period_sample_count s3,
                 udp_period_sample_count := 0, adc_udp_trigger_sem := True\<rparr>
         else s3)"

definition adc_process_one_sample ::
    "'d spi_dev \<Rightarrow> int \<Rightarrow> clock_state \<Rightarrow> 'd \<Rightarrow> adc_state \<Rightarrow> 'd \<times> adc_state" where
  "adc_process_one_sample spi uptime clock d s =
     (case ad7327_read_all spi d of
        (Inl e, d') \<Rightarrow> (d', s)
      | (Inr volts, d') \<Rightarrow> (d', adc_accept volts (get_datetime_ms uptime clock) s))"

text \<open>The timer interrupt, and one pass of the task's loop: it waits for the semaphore and then
  takes it until it is empty; every sample it takes reads the converter once.\<close>

definition adc_sample_timer_handler :: "adc_state \<Rightarrow> adc_state" where
  "adc_sample_timer_handler s =
     (if adc_sample_sem s \<ge> 127 then s\<lparr>adc_sem_give_fail := adc_sem_give_fail s + 1\<rparr>
      else s\<lparr>adc_sample_sem := adc_sample_sem s + 1\<rparr>)"

datatype adc_event = Timer | Run int clock_state

text \<open>An event is the timer interrupt, or the task finding the semaphore available at an uptime;
  a task that finds it empty waits.\<close>

fun adc_handle :: "'d spi_dev \<Rightarrow> adc_event \<Rightarrow> 'd \<times> adc_state \<Rightarrow> 'd \<times> adc_state" where
  "adc_handle spi Timer (d, s) = (d, adc_sample_timer_handler s)"
| "adc_handle spi (Run uptime clock) (d, s) =
     (if adc_sample_sem s = 0 then (d, s)
      else adc_process_one_sample spi uptime clock d (s\<lparr>adc_sample_sem := adc_sample_sem s - 1\<rparr>))"

definition adc_get_latest :: "adc_state \<Rightarrow> adc_snapshot_t option" where
  "adc_get_latest s =
     (if \<not> adc_has_sample s then None
      else Some ((adc_snapshot s)\<lparr>snap_sample_count := udp_frozen_sample_count s\<rparr>))"

section \<open>The voltages\<close>

text \<open>The 12-bit two's complement number in bits 12 to 1 of a result word.\<close>

definition result_code :: "u16 \<Rightarrow> int" where
  "result_code raw =
     (let d = uint raw div 2 mod 4096 in if d < 2048 then d else d - 4096)"

lemma result_code_range: "- 2048 \<le> result_code raw" "result_code raw \<le> 2047"
  by (auto simp: result_code_def Let_def)

lemma sint_u16: "sint (x :: u16) = uint x - 65536 * of_bool (bit x 15)"
proof -
  have "take_bit 16 (uint x) = uint x" using uint_lt2p [of x] by (simp add: take_bit_int_eq_self)
  then show ?thesis
    by (simp add: sint_uint signed_take_bit_eq_take_bit_minus bit_uint_iff)
qed

lemma sint_sign_extended:
  fixes w :: u16
  defines "d \<equiv> drop_bit 1 w AND 0x0FFF"
  shows "sint (if d AND 0x0800 \<noteq> 0 then d OR 0xF000 else d) = result_code w"
proof -
  have m: "(0x0FFF :: u16) = mask 12" by (simp add: mask_eq_exp_minus_1)
  have dt: "d = take_bit 12 (drop_bit 1 w)" by (simp add: d_def m take_bit_eq_mask)
  have "uint (drop_bit 1 w) = uint w div 2" by (simp only: unsigned_drop_bit_eq) (use uint_lt2p [of w] in \<open>simp add: drop_bit_eq_div take_bit_int_eq_self\<close>)
  then have ud: "uint d = uint w div 2 mod 4096"
    unfolding dt unsigned_take_bit_eq by (simp only: take_bit_eq_mod) simp
  have b15: "\<not> bit d 15" by (simp add: dt bit_simps)
  have eleven: "d AND 0x0800 \<noteq> 0 \<longleftrightarrow> bit d 11"
  proof -
    have e: "(0x0800 :: u16) = 2 ^ 11" by simp
    show ?thesis unfolding e by (simp only: and_exp_eq_0_iff_not_bit not_not)
  qed
  have h: "bit d 11 \<longleftrightarrow> 2048 \<le> uint d"
  proof -
    have "bit d 11 \<longleftrightarrow> odd (uint d div 2 ^ 11)" 
      by (subst bit_iff_odd [of "uint d", symmetric]) (simp only: bit_uint_iff, simp)
    moreover have "0 \<le> uint d" "uint d < 4096" by (simp_all add: ud)
    then have "uint d div 2 ^ 11 = (if 2048 \<le> uint d then 1 else 0)" by auto
    ultimately show ?thesis by simp
  qed
  have b: "bit (d OR 0xF000) 15" by (simp add: bit_simps)
  have F: "(0xF000 :: u16) = push_bit 12 0xF" by simp
  have "take_bit 12 x AND push_bit 12 k = 0" for x k :: u16
    by (rule bit_word_eqI) (auto simp: bit_simps)
  then have "d AND 0xF000 = 0" unfolding dt F .
  then have "d OR 0xF000 = d + 0xF000" by (simp add: disjunctive_add_eq_or)
  then have uo: "uint (d OR 0xF000) = uint d + 61440"
    using ud by (simp add: uint_word_ariths(1))
  show ?thesis
    by (simp add: eleven h sint_u16 b b15 uo result_code_def Let_def flip: ud)
qed

lemma volts_exact: "ad7327_result_to_volts raw = of_int (result_code raw) * 5 / 1024"
proof -
  let ?c = "result_code raw"
  have a: "\<bar>?c\<bar> < 2 ^ 24" "\<bar>?c * 5\<bar> < 2 ^ 24" using result_code_range [of raw] by simp_all
  have c: "f32 (of_int ?c) = of_int ?c" using f32_exact [OF a(1), of 0] by simp
  have k: "f32 (10 / 2048) = 5 / 1024" using f32_exact [of 5 "- 10"] by (simp add: power_int_minus)
  have p: "f32 (of_int ?c * (5 / 1024)) = of_int ?c * (5 / 1024)"
    using f32_exact [OF a(2), of "- 10"] by (simp add: power_int_minus)
  show ?thesis
    unfolding ad7327_result_to_volts_def Let_def sint_sign_extended c k p by simp
qed

text \<open>The channel a control word selects.\<close>

definition ctrl_channel :: "u16 \<Rightarrow> nat" where
  "ctrl_channel w = unat (drop_bit 10 w AND 7)"

lemma ctrl_channel_ctrl: "ch < 8 \<Longrightarrow> ctrl_channel (AD7327_CH_CTRL ch) = ch"
proof -
  have "\<forall>k \<in> set [0..<8]. ctrl_channel (AD7327_CH_CTRL k) = k" by code_simp
  then show "ch < 8 \<Longrightarrow> ctrl_channel (AD7327_CH_CTRL ch) = ch" by simp
qed

text \<open>A converter as its data sheet describes it: the word received during a transfer is the
  conversion of the channel the transfer before commanded; \<open>sel\<close> is that channel and
  \<open>conv\<close> what converting a channel gives.\<close>

definition read_ahead :: "'d spi_dev \<Rightarrow> ('d \<Rightarrow> nat) \<Rightarrow> (nat \<Rightarrow> u16) \<Rightarrow> bool" where
  "read_ahead spi sel conv \<longleftrightarrow>
     (\<forall>w d. \<exists>d'. spi w d = (0, conv (sel d), d') \<and> sel d' = ctrl_channel w)"

lemma read_loop_channels:
  assumes dev: "read_ahead spi sel conv"
  shows "sel d = i \<Longrightarrow> i + n < 8 \<Longrightarrow>
    \<exists>rx' d'. ad7327_read_loop spi [i + 1..<i + 1 + n] rx volts d =
      (Inr (rx', volts @ map (ad7327_result_to_volts \<circ> conv) [i..<i + n]), d') \<and> sel d' = i + n"
proof (induction n arbitrary: i rx volts d)
  case (Suc n)
  obtain d1 where d1: "spi (AD7327_CH_CTRL (i + 1)) d = (0, conv (sel d), d1)"
    "sel d1 = ctrl_channel (AD7327_CH_CTRL (i + 1))"
    using dev unfolding read_ahead_def by blast
  have s1: "sel d1 = i + 1" using d1(2) Suc.prems by (simp add: ctrl_channel_ctrl)
  have u: "[i + 1..<i + 1 + Suc n] = (i + 1) # [(i + 1) + 1..<(i + 1) + 1 + n]"
    by (simp add: upt_conv_Cons)
  have v: "[i..<i + Suc n] = i # [i + 1..<(i + 1) + n]" by (simp add: upt_conv_Cons)
  show ?case
    using Suc.IH [OF s1, of "conv i" "volts @ [ad7327_result_to_volts (conv i)]"] Suc.prems d1(1)
    unfolding u v by (simp add: ad7327_transfer_def)
qed simp

lemma read_all_channels:
  assumes dev: "read_ahead spi sel conv"
  shows "fst (ad7327_read_all spi d) = Inr (map (\<lambda>i. of_int (result_code (conv i)) * 5 / 1024) [0..<8])"
proof -
  obtain d1 where d1: "spi (AD7327_CH_CTRL 0) d = (0, conv (sel d), d1)"
    "sel d1 = ctrl_channel (AD7327_CH_CTRL 0)"
    using dev unfolding read_ahead_def by blast
  have s1: "sel d1 = 0" using d1(2) by (simp add: ctrl_channel_ctrl)
  obtain rx' d2 where l: "ad7327_read_loop spi [1..<8] (conv (sel d)) [] d1 =
      (Inr (rx', map (ad7327_result_to_volts \<circ> conv) [0..<7]), d2)" "sel d2 = 7"
    using read_loop_channels [OF dev s1, of 7 "conv (sel d)" "[]"] by auto
  obtain d3 where d3: "spi (AD7327_CH_CTRL 0) d2 = (0, conv (sel d2), d3)"
    using dev unfolding read_ahead_def by blast
  have "[0..<8] = [0..<7] @ [7 :: nat]" by code_simp
  then have e8: "map f [0..<8] = map f [0..<7] @ [f 7]" for f :: "nat \<Rightarrow> 'x"
    by simp
  have "fst (ad7327_read_all spi d) = Inr (map (ad7327_result_to_volts \<circ> conv) [0..<8])"
    unfolding e8 ad7327_read_all_def ad7327_transfer_def d1(1) by (simp only: Let_def prod.case l(1) d3 l(2))
      (simp only: if_False simp_thms l(1) l(2) d3 prod.case sum.case if_True fst_conv comp_apply)
  then show ?thesis by (simp add: volts_exact comp_def)
qed

text \<open>
  one cycle of nine transfers on a converter that answers one transfer late gives the
  voltage of channel \<open>i\<close> in entry \<open>i\<close>, and that voltage is exactly the 12-bit two's
  complement code times \<open>10 V / 2048\<close>, without a rounding error.
\<close>

theorem adc_read_all_channels:
  assumes dev: "read_ahead spi sel conv"
  shows "fst (ad7327_read_all spi d) = Inr (map (\<lambda>i. of_int (result_code (conv i)) * 5 / 1024) [0..<8])"
  by (rule read_all_channels [OF dev])

text \<open>A converter whose state is the channel commanded last, with a code per channel.\<close>

definition sample_spi :: "nat spi_dev" where
  "sample_spi w sel = (0, [0x0FFE, 0x1000, 0x0002, 0x1FFE, 0, 0x0010, 0x0020, 0x0800] ! sel, ctrl_channel w)"

lemma adc_read_all_channels_witness:
  "fst (ad7327_read_all sample_spi 3) =
    Inr [2047 * 5 / 1024, - 10, 5 / 1024, - 5 / 1024, 0, 8 * 5 / 1024, 16 * 5 / 1024, 1024 * 5 / 1024]"
proof -
  let ?conv = "\<lambda>i. [0x0FFE, 0x1000, 0x0002, 0x1FFE, 0, 0x0010, 0x0020, 0x0800] ! i"
  have dev: "read_ahead sample_spi id ?conv"
    by (simp add: read_ahead_def sample_spi_def)
  have u: "[0..<8] = [0, 1, 2, 3, 4, 5, 6, 7 :: nat]" by code_simp
  show ?thesis
    using adc_read_all_channels [OF dev, of 3] by (simp add: u result_code_def Let_def)
qed

section \<open>The windows\<close>

text \<open>Channel \<open>i\<close> of a list of samples, and the first sample that counts for the extremes after
  \<open>n\<close> samples: a new window takes the last sample of the one before with it.\<close>

definition column :: "nat \<Rightarrow> rat list list \<Rightarrow> rat set" where
  "column i vs = (\<lambda>v. v ! i) ` set vs"

definition window_start :: "nat \<Rightarrow> nat" where
  "window_start n = 1000 * (n div 1000) - 1"

definition adc_fold :: "(rat list \<times> datetime_t \<times> u16) list \<Rightarrow> adc_state \<Rightarrow> adc_state" where
  "adc_fold es s = fold (\<lambda>(v, now). adc_accept v now) es s"

text \<open>A sample of the converter lies between the initial extremes.\<close>

definition sample_ok :: "rat list \<Rightarrow> bool" where
  "sample_ok v \<longleftrightarrow> length v = 8 \<and> list_all (\<lambda>x. \<bar>x\<bar> < 999) v"

definition extremes :: "rat list list \<Rightarrow> rat list \<Rightarrow> rat list \<Rightarrow> bool" where
  "extremes vs mins maxs \<longleftrightarrow> length mins = 8 \<and> length maxs = 8 \<and>
     (\<forall>i<8. mins ! i = Min (insert 999 (column i vs)) \<and> maxs ! i = Max (insert (- 999) (column i vs)))"

lemma finite_column [simp]: "finite (column i vs)"
  by (simp add: column_def)

lemma column_snoc: "column i (vs @ [v]) = insert (v ! i) (column i vs)"
  by (auto simp: column_def)

lemma extremes_init: "extremes [] (replicate 8 999) (replicate 8 (- 999))"
  by (simp add: extremes_def column_def)

lemma min_if: "min x m = (if x < m then x else m)" and max_if: "max x m = (if x > m then x else m)"
  for x :: rat
  by (auto simp: min_def max_def)

lemma Min_add: "finite A \<Longrightarrow>
    Min (insert c (insert x A)) = (if x < Min (insert c A) then x else Min (insert c A))"
  for x :: rat
  unfolding insert_commute [of c x A] by (simp only: Min_insert finite_insert insert_not_empty not_False_eq_True min_if)

lemma Max_add: "finite A \<Longrightarrow>
    Max (insert c (insert x A)) = (if x > Max (insert c A) then x else Max (insert c A))"
  for x :: rat
  unfolding insert_commute [of c x A] by (simp only: Max_insert finite_insert insert_not_empty not_False_eq_True max_if)

lemma extremes_step:
  assumes "extremes vs mins maxs" "length v = 8"
  shows "extremes (vs @ [v]) (map2 (\<lambda>x m. if x < m then x else m) v mins)
    (map2 (\<lambda>x m. if x > m then x else m) v maxs)"
  using assms unfolding extremes_def column_snoc Min_add [OF finite_column] Max_add [OF finite_column]
  by simp

lemma extremes_seed: "sample_ok v \<Longrightarrow> extremes [v] v v"
  unfolding extremes_def sample_ok_def column_def list_all_length
  by (auto simp: min_def max_def abs_less_iff)

text \<open>The state after \<open>n\<close> samples.\<close>

definition adc_run_inv :: "rat list list \<Rightarrow> adc_state \<Rightarrow> bool" where
  "adc_run_inv vs s \<longleftrightarrow>
     extremes (drop (window_start (length vs)) vs) (running_min s) (running_max s) \<and>
     unat (window_sample_count s) = length vs mod 1000 \<and>
     unat (udp_period_sample_count s) = length vs mod 10 \<and>
     udp_frozen_sample_count s = (if length vs \<ge> 10 then 10 else 0) \<and>
     (vs \<noteq> [] \<longrightarrow> adc_has_sample s \<and> snap_raw (adc_snapshot s) = last vs \<and>
        extremes (drop (window_start (length vs - 1)) vs) (snap_min (adc_snapshot s)) (snap_max (adc_snapshot s)) \<and>
        snap_ch_count (adc_snapshot s) = 8)"

lemma window_start_le: "window_start n \<le> n"
  by (simp add: window_start_def)

lemma window_start_Suc:
  "window_start (Suc n) = (if Suc n mod 1000 = 0 then n else window_start n)"
proof (cases "Suc n mod 1000 = 0")
  case True
  then have "1000 * (Suc n div 1000) = Suc n" by (metis mult_div_mod_eq add.right_neutral)
  with True show ?thesis by (simp add: window_start_def)
next
  case False
  then show ?thesis by (simp add: window_start_def div_Suc)
qed

lemma adc_accept_inv:
  assumes inv: "adc_run_inv vs s" and v: "sample_ok v"
  shows "adc_run_inv (vs @ [v]) (adc_accept v now s)"
proof -
  let ?n = "length vs"
  have w: "unat (window_sample_count s + 1) = Suc (?n mod 1000)"
    and u: "unat (udp_period_sample_count s + 1) = Suc (?n mod 10)" "udp_period_sample_count s < 0xFFFF"
    using inv unfolding adc_run_inv_def by (simp_all add: unat_word_ariths word_less_nat_alt)
  have wr: "window_sample_count s + 1 \<ge> 1000 \<longleftrightarrow> Suc ?n mod 1000 = 0"
    using mod_less_divisor [of 1000 ?n] unfolding word_le_nat_alt w by (auto simp: mod_Suc)
  have ur: "udp_period_sample_count s + 1 \<ge> 10 \<longleftrightarrow> Suc ?n mod 10 = 0"
    using mod_less_divisor [of 10 ?n] unfolding word_le_nat_alt u(1) by (auto simp: mod_Suc)
  have d: "drop (window_start ?n) (vs @ [v]) = drop (window_start ?n) vs @ [v]"
    using window_start_le [of ?n] by simp
  have e: "extremes (drop (window_start ?n) (vs @ [v]))
      (map2 (\<lambda>x m. if x < m then x else m) v (running_min s))
      (map2 (\<lambda>x m. if x > m then x else m) v (running_max s))"
    unfolding d by (rule extremes_step) (use inv v in \<open>simp_all add: adc_run_inv_def sample_ok_def\<close>)
  have A: "udp_period_sample_count s = 9" if "?n mod 10 = 9"
    using inv that by (simp add: adc_run_inv_def word_unat_eq_iff)
  have B: "10 \<le> ?n \<longleftrightarrow> 9 \<le> ?n" if "?n mod 10 \<noteq> 9"
    using that by (cases "?n = 9") auto
  show ?thesis
    using e extremes_seed [OF v] w u wr ur inv A B
    unfolding adc_run_inv_def adc_accept_def adc_publish_sample_def adc_begin_next_window_def
    by (simp add: Let_def window_start_Suc mod_Suc)
qed

lemma adc_fold_inv:
  assumes "list_all sample_ok (map fst es)"
  shows "adc_run_inv (map fst es) (adc_fold es (adc_task_init code adc_boot))"
  using assms
proof (induction es rule: rev_induct)
  case Nil
  show ?case
    using extremes_init by (simp add: adc_run_inv_def adc_fold_def adc_task_init_def adc_boot_def window_start_def)
next
  case (snoc e es)
  obtain v now where e: "e = (v, now)" by (cases e)
  show ?case
    using adc_accept_inv [OF snoc.IH, of v now] snoc.prems by (simp add: e adc_fold_def)
qed

text \<open>
  C25: after any number of samples the snapshot holds the last sample and, per channel, the
  smallest and the largest value of the current window.  The windows are 1000 samples apart, and
  each window but the first counts the last sample of the window before it.  The sample count is
  that of the last full UDP period, ten.
\<close>

theorem adc_window_extremes:
  assumes ok: "list_all sample_ok (map fst es)" and ne: "es \<noteq> []"
  defines "n \<equiv> length es"
  defines "window \<equiv> drop (1000 * ((n - 1) div 1000) - 1) (map fst es)"
  shows "\<exists>snap. adc_get_latest (adc_fold es (adc_task_init code adc_boot)) = Some snap \<and>
    snap_raw snap = fst (last es) \<and> snap_ch_count snap = 8 \<and>
    (\<forall>i<8. snap_min snap ! i = Min (column i window) \<and> snap_max snap ! i = Max (column i window)) \<and>
    snap_sample_count snap = (if n \<ge> 10 then 10 else 0)"
proof -
  let ?s = "adc_fold es (adc_task_init code adc_boot)"
  note inv = adc_fold_inv [OF ok, of code, unfolded adc_run_inv_def]
  have w: "drop (window_start (length (map fst es) - 1)) (map fst es) = window"
    by (simp add: window_def window_start_def n_def)
  have ex: "extremes window (snap_min (adc_snapshot ?s)) (snap_max (adc_snapshot ?s))"
    using inv ne unfolding w by simp
  have "window_start (n - 1) < n" using window_start_le [of "n - 1"] ne by (cases es) (simp_all add: n_def)
  then have wne: "window \<noteq> []" by (simp add: window_def window_start_def n_def)
  have mm: "Min (insert 999 (column i window)) = Min (column i window) \<and>
      Max (insert (- 999) (column i window)) = Max (column i window)" if "i < 8" for i
  proof -
    have sub: "set window \<subseteq> set (map fst es)" unfolding window_def by (rule set_drop_subset)
    have b: "\<bar>x\<bar> < 999" if x: "x \<in> column i window" for x
    proof -
      obtain v where v: "v \<in> set window" "x = v ! i" using x by (auto simp: column_def)
      then have "v \<in> set (map fst es)" using sub by blast
      then have "sample_ok v" using ok by (simp only: list_all_iff)
      then show ?thesis using \<open>i < 8\<close> v(2) by (simp add: sample_ok_def list_all_length)
    qed
    have c: "column i window \<noteq> {}" using wne by (simp add: column_def)
    have "Min (column i window) < 999" "Max (column i window) > - 999"
      using b [OF Min_in [OF finite_column c]] b [OF Max_in [OF finite_column c]] by linarith+
    then show ?thesis
      unfolding Min_insert [OF finite_column c] Max_insert [OF finite_column c] min_if max_if by simp
  qed
  show ?thesis
    using inv ne ex mm by (auto simp: adc_get_latest_def extremes_def last_map n_def)
qed

lemma adc_window_extremes_witness:
  "\<exists>snap. adc_get_latest (adc_fold [(replicate 8 1, get_datetime_ms 5 clock_init),
        (replicate 8 (- 2), get_datetime_ms 7 clock_init)] (adc_task_init [0x41] adc_boot)) = Some snap \<and>
    snap_raw snap = replicate 8 (- 2) \<and> snap_min snap ! 3 = - 2 \<and> snap_max snap ! 3 = 1"
proof -
  let ?es = "[(replicate 8 1, get_datetime_ms 5 clock_init), (replicate 8 (- 2), get_datetime_ms 7 clock_init)]"
  have c: "column 3 [replicate 8 1, replicate 8 (- 2)] = {- 2, 1}" by (auto simp: column_def)
  have ok: "list_all sample_ok (map fst ?es)" by (simp add: sample_ok_def list_all_iff)
  have three: "(3 :: nat) < 8" by simp
  obtain snap where "adc_get_latest (adc_fold ?es (adc_task_init [0x41] adc_boot)) = Some snap"
    "snap_raw snap = replicate 8 (- 2)"
    "\<forall>i<8. snap_min snap ! i = Min (column i [replicate 8 1, replicate 8 (- 2)]) \<and>
      snap_max snap ! i = Max (column i [replicate 8 1, replicate 8 (- 2)])"
    using adc_window_extremes [OF ok, of "[0x41]"] by auto
  with three show ?thesis by (metis Max_insert Max_singleton Min_insert Min_singleton c finite.emptyI
      finite_insert insert_not_empty max_def min_def le_minus_one_simps(2) neg_numeral_le_one)
qed

section \<open>Any run of the task\<close>

text \<open>A voltage the converter can report.\<close>

definition adc_value :: "rat \<Rightarrow> bool" where
  "adc_value v \<longleftrightarrow> (\<exists>c. - 2048 \<le> c \<and> c \<le> 2047 \<and> v = of_int c * 5 / 1024)"

lemma adc_value_result [simp]: "adc_value (ad7327_result_to_volts w)"
  unfolding volts_exact adc_value_def using result_code_range by blast

lemma adc_value_bounds:
  assumes "adc_value v"
  shows "\<bar>v\<bar> \<le> 10"
proof -
  obtain c where c: "- 2048 \<le> c" "c \<le> 2047" "v = of_int c * 5 / 1024"
    using assms unfolding adc_value_def by blast
  have "- 2048 \<le> (of_int c :: rat)" "(of_int c :: rat) \<le> 2047"
    using c(1,2) by (metis of_int_le_iff of_int_minus of_int_numeral)+
  then show ?thesis unfolding c(3) abs_le_iff by simp
qed

lemma read_loop_values:
  "ad7327_read_loop spi is rx volts d = (Inr (rx', volts'), d') \<Longrightarrow> list_all adc_value volts \<Longrightarrow>
     length volts' = length volts + length is \<and> list_all adc_value volts'"
  by (induction spi "is" rx volts d rule: ad7327_read_loop.induct)
    (auto simp: Let_def split: prod.splits if_splits)

definition adc_sample :: "rat list \<Rightarrow> bool" where
  "adc_sample v \<longleftrightarrow> length v = 8 \<and> list_all adc_value v"

lemma read_all_values:
  assumes "ad7327_read_all spi d = (Inr volts, d')"
  shows "adc_sample volts"
proof -
  obtain ret rx d1 where 1: "ad7327_transfer spi (AD7327_CH_CTRL 0) 0 d = (ret, rx, d1)" by (rule prod_cases3)
  obtain rx2 vs d2 where 2: "ad7327_read_loop spi [1..<8] rx [] d1 = (Inr (rx2, vs), d2)"
    using assms 1 unfolding ad7327_read_all_def by (auto simp: Let_def split: if_splits prod.splits sum.splits)
  have "\<exists>w. volts = vs @ [ad7327_result_to_volts w]"
    using assms 1 2 unfolding ad7327_read_all_def by (auto simp: Let_def split: if_splits prod.splits)
  then show ?thesis using read_loop_values [OF 2] by (auto simp: adc_sample_def)
qed

lemma adc_sample_ok: "adc_sample v \<Longrightarrow> sample_ok v"
  by (force simp: adc_sample_def sample_ok_def list_all_iff dest: adc_value_bounds)

text \<open>The state is the one after some samples of the converter, the last of which carries a time
  of the clock.\<close>

definition snapshot_stamped :: "adc_snapshot_t \<Rightarrow> bool" where
  "snapshot_stamped snap \<longleftrightarrow>
     (\<exists>uptime clock. (snap_datetime snap, snap_msec snap) = get_datetime_ms uptime clock)"

definition adc_ok :: "adc_state \<Rightarrow> bool" where
  "adc_ok s \<longleftrightarrow> (\<exists>vs. list_all adc_sample vs \<and> adc_run_inv vs s \<and> (vs = [] \<longrightarrow> \<not> adc_has_sample s)) \<and>
     (adc_has_sample s \<longrightarrow> snapshot_stamped (adc_snapshot s))"

lemma adc_ok_init: "adc_ok (adc_task_init code adc_boot)"
  unfolding adc_ok_def using adc_fold_inv [of "[]" code]
  by (intro conjI exI [of _ "[]"]) (simp_all add: adc_fold_def adc_task_init_def adc_boot_def)

lemma accept_snapshot [simp]:
  "adc_has_sample (adc_accept v now s)" "snap_raw (adc_snapshot (adc_accept v now s)) = v"
  "snap_datetime (adc_snapshot (adc_accept v now s)) = fst now"
  "snap_msec (adc_snapshot (adc_accept v now s)) = snd now"
  by (simp_all add: adc_accept_def adc_publish_sample_def adc_begin_next_window_def Let_def)

lemma adc_handle_ok:
  assumes "adc_ok (snd p)"
  shows "adc_ok (snd (adc_handle spi ev p))"
proof -
  obtain d s where p: "p = (d, s)" by (cases p)
  obtain vs where vs: "list_all adc_sample vs" "adc_run_inv vs s" "vs = [] \<longrightarrow> \<not> adc_has_sample s"
    and st: "adc_has_sample s \<longrightarrow> snapshot_stamped (adc_snapshot s)"
    using assms by (auto simp: adc_ok_def p)
  have sem: "adc_run_inv vs (s\<lparr>adc_sample_sem := n\<rparr>)" "adc_run_inv vs (s\<lparr>adc_sem_give_fail := f\<rparr>)" for n f
    using vs(2) by (simp_all add: adc_run_inv_def)
  have acc: "adc_ok (adc_accept v (get_datetime_ms u cl) (s\<lparr>adc_sample_sem := n\<rparr>))" if "adc_sample v"
    for v u cl n
    using adc_accept_inv [OF sem(1) adc_sample_ok [OF that], of "get_datetime_ms u cl"] vs(1) that
    by (auto simp: adc_ok_def snapshot_stamped_def intro!: exI [of _ "vs @ [v]"])
  show ?thesis
  proof (cases ev)
    case Timer
    then show ?thesis using vs sem st
      by (auto simp: p adc_sample_timer_handler_def adc_ok_def intro!: exI [of _ vs])
  next
    case (Run u cl)
    let ?s = "s\<lparr>adc_sample_sem := adc_sample_sem s - 1\<rparr>"
    have waits: "adc_ok s" "adc_ok ?s"
      unfolding adc_ok_def using vs st sem(1) [of "adc_sample_sem s - 1"] by (auto intro!: exI [of _ vs])
    show ?thesis
    proof (cases "\<exists>v d'. ad7327_read_all spi d = (Inr v, d')")
      case True
      then obtain v d' where v: "ad7327_read_all spi d = (Inr v, d')" by blast
      then show ?thesis
        using waits(1) acc [OF read_all_values [OF v], of u cl "adc_sample_sem s - 1"]
        by (simp add: p Run adc_process_one_sample_def)
    next
      case False
      then obtain e d' where e: "ad7327_read_all spi d = (Inl e, d')"
        by (metis sum.exhaust surj_pair)
      then show ?thesis using waits by (simp add: p Run adc_process_one_sample_def)
    qed
  qed
qed

interpretation adc: event_task "\<lambda>ev. True" "\<lambda>p. adc_ok (snd p)" "adc_handle spi" for spi
  by unfold_locales (rule adc_handle_ok)

text \<open>The line identification is written once, from the device code.\<close>

definition code_line :: "bytes \<Rightarrow> bytes" where
  "code_line code = snap_line (adc_snapshot (adc_task_init code adc_boot))"

lemma adc_handle_line: "snap_line (adc_snapshot (snd (adc_handle spi ev p))) = snap_line (adc_snapshot (snd p))"
  by (cases p; cases ev) (auto simp: adc_sample_timer_handler_def adc_process_one_sample_def adc_accept_def
      adc_publish_sample_def adc_begin_next_window_def Let_def split: prod.split sum.split)

lemma latest_line: "adc_get_latest s = Some snap \<Longrightarrow> snap_line snap = snap_line (adc_snapshot s)"
  by (auto simp: adc_get_latest_def split: if_splits)

text \<open>The whole task: without its bus it ends at once.\<close>

definition adc_task ::
    "'d spi_dev \<Rightarrow> bool \<Rightarrow> bytes \<Rightarrow> adc_event list \<Rightarrow> 'd \<times> adc_state \<Rightarrow> 'd \<times> adc_state" where
  "adc_task spi spi_ready code evs p =
     (if \<not> spi_ready then p else fold (adc_handle spi) evs (fst p, adc_task_init code (snd p)))"

lemma adc_task_ok: "adc_ok (snd (adc_task spi True code evs (d, adc_boot)))"
  using adc.run_inv [of evs "(d, adc_task_init code adc_boot)" spi] adc_ok_init [of code]
  by (simp add: adc_task_def list_all_iff)

text \<open>What the UDP task can find: the last sample, between the extremes of its window.\<close>

definition snapshot_ok :: "adc_snapshot_t \<Rightarrow> bool" where
  "snapshot_ok snap \<longleftrightarrow> snapshot_stamped snap \<and> snap_ch_count snap = 8 \<and> adc_sample (snap_raw snap) \<and>
     adc_sample (snap_min snap) \<and> adc_sample (snap_max snap) \<and>
     (\<forall>i<8. snap_min snap ! i \<le> snap_raw snap ! i \<and> snap_raw snap ! i \<le> snap_max snap ! i)"

lemma extremes_values:
  assumes e: "extremes w mins maxs" and w: "w \<noteq> []" "list_all adc_sample w"
  shows "adc_sample mins \<and> adc_sample maxs \<and> (\<forall>v \<in> set w. \<forall>i<8. mins ! i \<le> v ! i \<and> v ! i \<le> maxs ! i)"
proof -
  have col: "adc_value x" if "x \<in> column i w" "i < 8" for x i
    using that w(2) by (auto simp: column_def adc_sample_def list_all_iff)
  have m: "mins ! i \<in> column i w \<and> maxs ! i \<in> column i w \<and> (\<forall>x \<in> column i w. mins ! i \<le> x \<and> x \<le> maxs ! i)"
    if i: "i < 8" for i
  proof -
    have ne: "column i w \<noteq> {}" using w(1) by (simp add: column_def)
    have b: "\<bar>x\<bar> \<le> 10" if "x \<in> column i w" for x using adc_value_bounds [OF col [OF that i]] .
    have "Min (column i w) \<le> 10" "- 10 \<le> Max (column i w)"
      using b [OF Min_in [OF finite_column ne]] b [OF Max_in [OF finite_column ne]] by linarith+
    then have "mins ! i = Min (column i w)" "maxs ! i = Max (column i w)"
      using e i by (simp_all add: extremes_def Min_insert [OF finite_column ne] Max_insert [OF finite_column ne]
          min_if max_if)
    then show ?thesis using ne by simp
  qed
  have "length mins = 8" "length maxs = 8" using e by (simp_all add: extremes_def)
  moreover have "v ! i \<in> column i w" if "v \<in> set w" for v i using that by (simp add: column_def)
  ultimately show ?thesis using m col unfolding adc_sample_def list_all_length by metis
qed

lemma snapshot_ok_latest:
  assumes "adc_ok s" "adc_get_latest s = Some snap"
  shows "snapshot_ok snap"
proof -
  obtain vs where vs: "list_all adc_sample vs" "adc_run_inv vs s" "vs = [] \<longrightarrow> \<not> adc_has_sample s"
    and st: "adc_has_sample s \<longrightarrow> snapshot_stamped (adc_snapshot s)"
    using assms(1) by (auto simp: adc_ok_def)
  have has: "adc_has_sample s" and snap: "snap = (adc_snapshot s)\<lparr>snap_sample_count := udp_frozen_sample_count s\<rparr>"
    using assms(2) by (auto simp: adc_get_latest_def split: if_splits)
  with vs(3) have ne: "vs \<noteq> []" by blast
  let ?w = "drop (window_start (length vs - 1)) vs"
  have lt: "window_start (length vs - 1) < length vs"
    using window_start_le [of "length vs - 1"] ne by (cases vs) simp_all
  then have w: "?w \<noteq> []" by simp
  have lst: "last vs \<in> set ?w" using last_in_set [OF w] lt by simp
  have "list_all adc_sample ?w" using vs(1) by (auto simp: list_all_iff dest: in_set_dropD)
  note ev = extremes_values [OF _ w this]
  have "adc_sample (last vs)" using vs(1) ne by (simp add: list_all_iff)
  then show ?thesis
    using vs(2) ne ev [of "snap_min (adc_snapshot s)" "snap_max (adc_snapshot s)"] lst
    using st has unfolding snapshot_ok_def snapshot_stamped_def snap adc_run_inv_def by simp
qed

text \<open>The volts are what the encoders read.\<close>

lemma snapshot_volts:
  assumes "snapshot_ok snap" "i < 8" "arr \<in> {snap_raw snap, snap_min snap, snap_max snap}"
  shows "\<bar>arr ! i\<bar> \<le> 10"
  using assms by (auto simp: snapshot_ok_def adc_sample_def list_all_length intro!: adc_value_bounds)

end
