(* ===== verification/Msgpack_Adc.thy ===== *)
theory Msgpack_Adc
  imports Adc Gw_Error
begin

text \<open>
  \<^verbatim>\<open>src/msgpack_adc.c\<close>: the MessagePack payload of the UDP service.  An output position is
  the pair of the bytes written so far and the room left, as in the C code's \<open>p\<close> and
  \<open>remain\<close>; \<open>None\<close> is \<open>-1\<close>.  The reader \<open>mp_decode\<close> follows the MessagePack format and
  is what the payload is checked against.
\<close>

abbreviation (input) MSGPACK_FLOAT32 :: u8 where "MSGPACK_FLOAT32 \<equiv> 0xCA"
abbreviation (input) MSGPACK_UINT8 :: u8 where "MSGPACK_UINT8 \<equiv> 0xCC"
abbreviation (input) MSGPACK_STR8 :: u8 where "MSGPACK_STR8 \<equiv> 0xD9"
abbreviation (input) UDP_MSGPACK_HDR0 :: u8 where "UDP_MSGPACK_HDR0 \<equiv> 0xDC"
abbreviation (input) UDP_MSGPACK_CH_FIELDS :: nat where "UDP_MSGPACK_CH_FIELDS \<equiv> 8"
abbreviation (input) UDP_TS_WIRE_LEN :: nat where "UDP_TS_WIRE_LEN \<equiv> 17"

section \<open>Writing values\<close>

definition MSGPACK_FIXARRAY :: "u8 \<Rightarrow> u8" where
  "MSGPACK_FIXARRAY n = 0x90 OR (n AND 0x0F)"

definition MSGPACK_FIXSTR :: "u8 \<Rightarrow> u8" where
  "MSGPACK_FIXSTR n = 0xA0 OR (n AND 0x1F)"

definition write_float32_be :: "rat \<Rightarrow> bytes" where
  "write_float32_be f =
     (let u = f32_bits f
      in [ucast (drop_bit 24 u), ucast (drop_bit 16 u), ucast (drop_bit 8 u), ucast u])"

text \<open>The conversion to \<^verbatim>\<open>long\<close>, towards zero.\<close>

definition trunc_rat :: "rat \<Rightarrow> int" where
  "trunc_rat q = (if q \<ge> 0 then \<lfloor>q\<rfloor> else \<lceil>q\<rceil>)"

definition float32_round_2decimals :: "rat \<Rightarrow> rat" where
  "float32_round_2decimals x =
     (let d = f32 (x * 100);
          n = (if d \<ge> 0 then trunc_rat (f32 (d + 1 / 2)) else trunc_rat (f32 (d - 1 / 2)))
      in f32 (f32 (of_int n) / 100))"

definition device_id_wire_len :: "bytes \<Rightarrow> nat" where
  "device_id_wire_len val =
     (let n = length (takeWhile (\<lambda>c. c \<noteq> 0) (take ADC_LINE_MAX_LEN val));
          n1 = (if n > ADC_LINE_ID_MAX_CHARS then ADC_LINE_ID_MAX_CHARS else n)
      in if n1 > 255 then 255 else n1)"

text \<open>\<^verbatim>\<open>%0wu\<close> of \<open>snprintf\<close>.\<close>

fun dec_digits :: "nat \<Rightarrow> bytes" where
  "dec_digits n =
     (if n < 10 then [0x30 + word_of_nat n] else dec_digits (n div 10) @ [0x30 + word_of_nat (n mod 10)])"

declare dec_digits.simps [simp del]

definition pad_dec :: "nat \<Rightarrow> nat \<Rightarrow> bytes" where
  "pad_dec w n = replicate (w - length (dec_digits n)) 0x30 @ dec_digits n"

definition fmt_timestamp_udp17 :: "adc_snapshot_t \<Rightarrow> bytes option" where
  "fmt_timestamp_udp17 snap =
     (let dt = snap_datetime snap;
          out = pad_dec 4 (unat (dt_year dt)) @ pad_dec 2 (unat (dt_month dt)) @
                pad_dec 2 (unat (dt_day dt)) @ pad_dec 2 (unat (dt_hour dt)) @
                pad_dec 2 (unat (dt_min dt)) @ pad_dec 2 (unat (dt_sec dt)) @
                pad_dec 3 (unat (snap_msec snap))
      in if length out \<noteq> UDP_TS_WIRE_LEN then None else Some out)"

type_synonym mp_out = "bytes \<times> nat"

definition append_fixstr :: "bytes \<Rightarrow> nat \<Rightarrow> mp_out \<Rightarrow> mp_out option" where
  "append_fixstr s slen o1 =
     (if slen > 255 then None
      else
        let (p, r) = o1; need = (if slen \<le> 31 then 1 + slen else 2 + slen)
        in if r < need then None
           else Some (p @ (if slen \<le> 31 then [MSGPACK_FIXSTR (word_of_nat slen)]
                           else [MSGPACK_STR8, word_of_nat slen]) @ take slen s, r - need))"

definition append_float32 :: "rat \<Rightarrow> mp_out \<Rightarrow> mp_out option" where
  "append_float32 v o1 =
     (let (p, r) = o1
      in if r < 5 then None
         else Some (p @ [MSGPACK_FLOAT32] @ write_float32_be (float32_round_2decimals v), r - 5))"

definition append_uint8 :: "u8 \<Rightarrow> mp_out \<Rightarrow> mp_out option" where
  "append_uint8 v o1 =
     (let (p, r) = o1 in if r < 2 then None else Some (p @ [MSGPACK_UINT8, v], r - 2))"

definition channel_volts :: "adc_snapshot_t \<Rightarrow> rat list \<Rightarrow> nat \<Rightarrow> rat" where
  "channel_volts snap arr ch = (if ch < unat (snap_ch_count snap) then arr ! ch else 0)"

text \<open>A loop over the channel fields.\<close>

primrec append_floats :: "rat list \<Rightarrow> mp_out \<Rightarrow> mp_out option" where
  "append_floats [] o1 = Some o1"
| "append_floats (v # vs) o1 = append_float32 v o1 \<bind> append_floats vs"

section \<open>The payloads\<close>

text \<open>\<open>err\<close> is the error latch.  The buffer is not null.\<close>

definition msgpack_encode_adc_snapshot :: "adc_snapshot_t option \<Rightarrow> nat \<Rightarrow> u8 \<Rightarrow> bytes option" where
  "msgpack_encode_adc_snapshot snapp buf_len err =
     (case snapp of
        None \<Rightarrow> None
      | Some snap \<Rightarrow>
          if snap_ch_count snap = 0 \<or> snap_ch_count snap > 8 then None
          else
            let id_len = device_id_wire_len (snap_line snap)
            in case fmt_timestamp_udp17 snap of
                 None \<Rightarrow> None
               | Some ts \<Rightarrow>
                   let sampling_u8 = (if snap_sample_count snap > 255 then 255
                                      else ucast (snap_sample_count snap));
                       err_code = gw_error_get err;
                       need = 3 + (if id_len \<le> 31 then 1 + id_len else 2 + id_len) +
                              (1 + UDP_TS_WIRE_LEN) + 24 * 5 + 2 * 2;
                       chans = (\<lambda>arr. map (channel_volts snap arr) [0..<UDP_MSGPACK_CH_FIELDS])
                   in if buf_len < need then None
                      else map_option fst
                        (append_fixstr (snap_line snap) id_len
                           ([UDP_MSGPACK_HDR0, 0x00, 0x1C], buf_len - 3) \<bind>
                         append_fixstr ts UDP_TS_WIRE_LEN \<bind>
                         append_floats (chans (snap_raw snap)) \<bind>
                         append_floats (chans (snap_min snap)) \<bind>
                         append_floats (chans (snap_max snap)) \<bind>
                         append_uint8 sampling_u8 \<bind>
                         append_uint8 err_code))"

definition msgpack_encode_adc_test_2ch :: "adc_snapshot_t option \<Rightarrow> nat \<Rightarrow> bytes option" where
  "msgpack_encode_adc_test_2ch snapp buf_len =
     (case snapp of
        None \<Rightarrow> None
      | Some snap \<Rightarrow>
          if snap_ch_count snap < 2 then None
          else
            let id_len = device_id_wire_len (snap_line snap)
            in case fmt_timestamp_udp17 snap of
                 None \<Rightarrow> None
               | Some ts \<Rightarrow>
                   let need = 1 + (if id_len \<le> 31 then 1 + id_len else 2 + id_len) + (1 + 17) + 5 + 5
                   in if buf_len < need then None
                      else
                        case append_fixstr (snap_line snap) id_len ([MSGPACK_FIXARRAY 4], buf_len - 1) \<bind>
                             append_fixstr ts 17 of
                          None \<Rightarrow> None
                        | Some (p, remain) \<Rightarrow>
                            if remain < 10 then None
                            else Some (p @ [MSGPACK_FLOAT32] @
                                       write_float32_be (float32_round_2decimals (snap_raw snap ! 0)) @
                                       [MSGPACK_FLOAT32] @
                                       write_float32_be (float32_round_2decimals (snap_raw snap ! 1))))"

section \<open>Reading MessagePack\<close>

datatype mp = MpStr bytes | MpFloat rat | MpUint u8

definition be32 :: "u8 \<Rightarrow> u8 \<Rightarrow> u8 \<Rightarrow> u8 \<Rightarrow> u32" where
  "be32 a b c d = push_bit 24 (ucast a) OR push_bit 16 (ucast b) OR push_bit 8 (ucast c) OR ucast d"

definition mp_str :: "nat \<Rightarrow> bytes \<Rightarrow> (mp \<times> bytes) option" where
  "mp_str n r = (if length r < n then None else Some (MpStr (take n r), drop n r))"

definition mp_value :: "bytes \<Rightarrow> (mp \<times> bytes) option" where
  "mp_value bs =
     (case bs of
        [] \<Rightarrow> None
      | t # r \<Rightarrow>
          if 0xA0 \<le> t \<and> t \<le> 0xBF then mp_str (unat (t AND 0x1F)) r
          else if t = 0xD9 then (case r of [] \<Rightarrow> None | n # r' \<Rightarrow> mp_str (unat n) r')
          else if t = 0xCA then
            (case r of a # b # c # d # r' \<Rightarrow> Some (MpFloat (f32_value (be32 a b c d)), r') | _ \<Rightarrow> None)
          else if t = 0xCC then (case r of [] \<Rightarrow> None | n # r' \<Rightarrow> Some (MpUint n, r'))
          else None)"

primrec mp_values :: "nat \<Rightarrow> bytes \<Rightarrow> (mp list \<times> bytes) option" where
  "mp_values 0 bs = Some ([], bs)"
| "mp_values (Suc n) bs =
     (case mp_value bs of
        None \<Rightarrow> None
      | Some (v, r) \<Rightarrow> map_option (\<lambda>(vs, r'). (v # vs, r')) (mp_values n r))"

text \<open>An array with its elements, and what follows it.\<close>

definition mp_decode :: "bytes \<Rightarrow> (mp list \<times> bytes) option" where
  "mp_decode bs =
     (case bs of
        [] \<Rightarrow> None
      | t # r \<Rightarrow>
          if t = 0xDC then (case r of h # l # r' \<Rightarrow> mp_values (unat (sys_get_be16 h l)) r' | _ \<Rightarrow> None)
          else if 0x90 \<le> t \<and> t \<le> 0x9F then mp_values (unat (t AND 0x0F)) r
          else None)"

section \<open>What the payload says\<close>

definition mp_image :: "mp \<Rightarrow> bytes" where
  "mp_image v =
     (case v of
        MpStr s \<Rightarrow> (if length s \<le> 31 then [MSGPACK_FIXSTR (word_of_nat (length s))]
                    else [MSGPACK_STR8, word_of_nat (length s)]) @ s
      | MpFloat f \<Rightarrow> MSGPACK_FLOAT32 # write_float32_be f
      | MpUint u \<Rightarrow> [MSGPACK_UINT8, u])"

definition mp_ok :: "mp \<Rightarrow> bool" where
  "mp_ok v =
     (case v of MpStr s \<Rightarrow> length s \<le> 255 | MpFloat f \<Rightarrow> is_f32 f \<and> \<bar>f\<bar> < pow2 128 | MpUint u \<Rightarrow> True)"

definition mp_images :: "mp list \<Rightarrow> bytes" where
  "mp_images vs = concat (map mp_image vs)"

lemma mp_images_simps [simp]:
  "mp_images [] = []" "mp_images (v # vs) = mp_image v @ mp_images vs"
  "mp_images (us @ vs) = mp_images us @ mp_images vs"
  by (simp_all add: mp_images_def)

lemma fixstr_tags: "\<forall>n \<in> set [0..<32].
    0xA0 \<le> MSGPACK_FIXSTR (word_of_nat n) \<and> MSGPACK_FIXSTR (word_of_nat n) \<le> 0xBF \<and>
    unat (MSGPACK_FIXSTR (word_of_nat n) AND 0x1F) = n"
  by code_simp

lemma length_write_float32_be [simp]: "length (write_float32_be f) = 4"
  by (simp add: write_float32_be_def Let_def)

lemma be32_bytes:
  "be32 (ucast (drop_bit 24 u)) (ucast (drop_bit 16 u)) (ucast (drop_bit 8 u)) (ucast u) = u"
proof (rule bit_word_eqI)
  fix n assume "n < LENGTH(32)"
  then have "n < 32" by simp
  then consider "n < 8" | "8 \<le> n" "n < 16" | "16 \<le> n" "n < 24" | "24 \<le> n" "n < 32" by linarith
  then show "bit (be32 (ucast (drop_bit 24 u)) (ucast (drop_bit 16 u)) (ucast (drop_bit 8 u)) (ucast u)) n =
      bit u n"
    by cases (auto simp: be32_def bit_simps dest: bit_imp_le_length)
qed

lemma mp_value_image: "mp_ok v \<Longrightarrow> mp_value (mp_image v @ r) = Some (v, r)"
proof (cases v)
  case (MpStr s)
  assume ok: "mp_ok v"
  show ?thesis
  proof (cases "length s \<le> 31")
    case True
    then have "length s \<in> set [0..<32]" by simp
    from fixstr_tags [rule_format, OF this] show ?thesis
      using True by (simp add: MpStr mp_image_def mp_value_def mp_str_def)
  next
    case False
    have "unat (word_of_nat (length s) :: u8) = length s"
      using ok by (simp add: MpStr mp_ok_def unat_of_nat_u8)
    then show ?thesis using False by (simp add: MpStr mp_image_def mp_value_def mp_str_def word_le_nat_alt)
  qed
next
  case (MpFloat f)
  assume "mp_ok v"
  then have "f32_value (f32_bits f) = f" by (simp add: MpFloat mp_ok_def f32_value_bits)
  then show ?thesis
    by (simp add: MpFloat mp_image_def mp_value_def write_float32_be_def Let_def be32_bytes word_le_nat_alt)
qed (simp add: mp_image_def mp_value_def word_le_nat_alt)

lemma mp_values_images: "list_all mp_ok vs \<Longrightarrow> mp_values (length vs) (mp_images vs @ r) = Some (vs, r)"
  by (induction vs) (simp_all add: mp_value_image)

lemma append_fixstr_eq:
  assumes "slen \<le> length s"
  shows "append_fixstr s slen (p, r) =
    (let v = MpStr (take slen s)
     in if slen > 255 \<or> r < length (mp_image v) then None
        else Some (p @ mp_image v, r - length (mp_image v)))"
  using assms by (auto simp: append_fixstr_def mp_image_def Let_def min_def)

definition mp_volt :: "rat \<Rightarrow> mp" where
  "mp_volt v = MpFloat (float32_round_2decimals v)"

lemma length_mp_volt [simp]: "length (mp_image (mp_volt v)) = 5"
  by (simp add: mp_volt_def mp_image_def)

lemma append_floats_eq:
  "append_floats vs (p, r) =
    (if r < 5 * length vs then None
     else Some (p @ mp_images (map mp_volt vs), r - 5 * length vs))"
proof (induction vs arbitrary: p r)
  case (Cons v vs)
  have "append_float32 v (p, r) = (if r < 5 then None else Some (p @ mp_image (mp_volt v), r - 5))"
    by (simp add: append_float32_def mp_volt_def mp_image_def)
  then show ?case using Cons.IH by auto
qed simp

lemma append_uint8_eq:
  "append_uint8 v (p, r) = (if r < 2 then None else Some (p @ mp_image (MpUint v), r - 2))"
  by (simp add: append_uint8_def mp_image_def)

lemma device_id_wire_len_le: "device_id_wire_len val \<le> length val" "device_id_wire_len val \<le> 50"
proof -
  have "length (takeWhile (\<lambda>c. c \<noteq> 0) (take 51 val)) \<le> length (take 51 val)"
    by (rule length_takeWhile_le)
  then show "device_id_wire_len val \<le> length val" "device_id_wire_len val \<le> 50"
    by (auto simp: device_id_wire_len_def Let_def)
qed

lemma fmt_timestamp_length: "fmt_timestamp_udp17 snap = Some ts \<Longrightarrow> length ts = 17"
  unfolding fmt_timestamp_udp17_def Let_def by (metis option.distinct(1) option.inject)

text \<open>The 28 fields of a snapshot.\<close>

definition udp_fields :: "adc_snapshot_t \<Rightarrow> bytes \<Rightarrow> u8 \<Rightarrow> mp list" where
  "udp_fields snap ts err =
     (let volts = (\<lambda>arr. map (\<lambda>i. mp_volt (channel_volts snap arr i)) [0..<8])
      in [MpStr (take (device_id_wire_len (snap_line snap)) (snap_line snap)), MpStr ts] @
         volts (snap_raw snap) @ volts (snap_min snap) @ volts (snap_max snap) @
         [MpUint (if snap_sample_count snap > 255 then 255 else ucast (snap_sample_count snap)),
          MpUint err])"

text \<open>The first field is the device code.\<close>

lemma code_line_code:
  assumes "length (c_str code) \<le> 50"
  shows "code_line code = c_str code @ replicate (51 - length (c_str code)) 0"
proof -
  have "code_line code =
      (take 50 (c_str code @ replicate 50 0) @ drop 50 (replicate 51 0))[50 := 0]"
    by (simp only: code_line_def adc_task_init_def adc_boot_def strncpy_def adc_state.simps adc_snapshot_t.simps)
  also have "\<dots> = c_str code @ replicate (51 - length (c_str code)) 0"
    using assms by (intro nth_equalityI) (simp_all add: nth_list_update nth_append)
  finally show ?thesis .
qed

lemma device_field:
  assumes "length (c_str code) \<le> 50" "snap_line snap = code_line code"
  shows "hd (udp_fields snap ts err) = MpStr (c_str code)"
proof -
  let ?n = "length (c_str code)"
  have z: "takeWhile (\<lambda>c. c \<noteq> 0) (c_str code @ replicate m 0) = c_str code" for m
    using null_notin_c_str [of code] by (induction "c_str code" rule: rev_induct) (auto simp: takeWhile_append)
  have "take 51 (snap_line snap) = snap_line snap"
    using assms by (simp add: code_line_code)
  then have "device_id_wire_len (snap_line snap) = ?n"
    using assms by (simp add: device_id_wire_len_def code_line_code z Let_def)
  then show ?thesis
    using assms by (simp add: udp_fields_def code_line_code Let_def)
qed

lemma length_map_volt_images: "length (mp_images (map (\<lambda>i. mp_volt (f i)) is)) = 5 * length is"
  by (induction "is") simp_all

lemma encode_eq:
  "msgpack_encode_adc_snapshot (Some snap) buf_len err =
    (case fmt_timestamp_udp17 snap of
       None \<Rightarrow> None
     | Some ts \<Rightarrow>
         if snap_ch_count snap = 0 \<or> snap_ch_count snap > 8 \<or>
            buf_len < 3 + length (mp_images (udp_fields snap ts err)) then None
         else Some ([0xDC, 0x00, 0x1C] @ mp_images (udp_fields snap ts err)))"
proof (cases "fmt_timestamp_udp17 snap")
  case (Some ts)
  let ?id = "take (device_id_wire_len (snap_line snap)) (snap_line snap)"
  note ts = fmt_timestamp_length [OF Some]
  note l = device_id_wire_len_le [of "snap_line snap"]
  have lid: "length ?id = device_id_wire_len (snap_line snap)" using l(1) by simp
  have i: "length (mp_image (MpStr ?id)) =
      (if device_id_wire_len (snap_line snap) \<le> 31 then 1 + device_id_wire_len (snap_line snap)
       else 2 + device_id_wire_len (snap_line snap))"
    using lid by (auto simp: mp_image_def)
  have t: "length (mp_image (MpStr ts)) = 18" using ts by (simp add: mp_image_def)
  have tt: "take 17 ts = ts" using ts by simp
  have len: "length (mp_images (udp_fields snap ts err)) = length (mp_image (MpStr ?id)) + 142"
    unfolding udp_fields_def Let_def by (simp add: t length_map_volt_images) (simp add: mp_image_def)
  define n where "n = length (mp_image (MpStr ?id))"
  have nd: "3 + (if device_id_wire_len (snap_line snap) \<le> 31 then 1 + device_id_wire_len (snap_line snap)
       else 2 + device_id_wire_len (snap_line snap)) + (1 + 17) + 24 * 5 + 2 * 2 = 145 + n"
    by (simp add: n_def i)
  note e = msgpack_encode_adc_snapshot_def Some Let_def option.case gw_error_get_def
  show ?thesis
  proof (cases "snap_ch_count snap = 0 \<or> snap_ch_count snap > 8 \<or> buf_len < 145 + n")
    case True
    then show ?thesis unfolding e nd len n_def [symmetric] by auto
  next
    case False
    then obtain k where k: "buf_len = 145 + n + k" by (metis le_iff_add not_less)
    have ok: "\<not> (snap_ch_count snap = 0 \<or> snap_ch_count snap > 8)" using False by blast
    have id: "append_fixstr (snap_line snap) (device_id_wire_len (snap_line snap)) (p, 142 + (n + k)) =
        Some (p @ mp_image (MpStr ?id), 142 + k)" for p
      using l by (simp add: append_fixstr_eq [OF l(1)] Let_def n_def [symmetric])
    have tsa: "append_fixstr ts 17 (p, 142 + k) = Some (p @ mp_image (MpStr ts), 124 + k)" for p
      using ts by (simp add: append_fixstr_eq Let_def t)
    show ?thesis
      unfolding e nd if_not_P [OF ok] k len n_def [symmetric]
      using ok by (simp add: id tsa append_floats_eq append_uint8_eq udp_fields_def comp_def)
  qed
qed (simp add: msgpack_encode_adc_snapshot_def)

section \<open>Rounding to two decimals\<close>

lemma f32_small:
  assumes "\<bar>x\<bar> < 2 ^ 24"
  shows "\<bar>f32 x\<bar> \<le> \<bar>x\<bar> + 1 / 2"
  using f32_error [of x 0] assms by (simp add: abs_if split: if_splits)

lemma trunc_rat_abs: "\<bar>of_int (trunc_rat q)\<bar> \<le> \<bar>q\<bar>"
proof (cases "q \<ge> 0")
  case True
  then have "0 \<le> (of_int \<lfloor>q\<rfloor> :: rat)" "of_int \<lfloor>q\<rfloor> \<le> q" by simp_all
  then show ?thesis using True by (simp add: trunc_rat_def)
next
  case False
  then have "(of_int \<lceil>q\<rceil> :: rat) \<le> 0" "q \<le> of_int \<lceil>q\<rceil>" by simp_all
  then show ?thesis using False by (simp add: trunc_rat_def)
qed

lemma round_2decimals_bound:
  assumes "\<bar>x\<bar> < 1000"
  shows "\<bar>float32_round_2decimals x\<bar> < 2000"
proof -
  define d where "d = f32 (x * 100)"
  define q where "q = f32 (if d \<ge> 0 then d + 1 / 2 else d - 1 / 2)"
  have "\<bar>x * 100\<bar> < 100000" using assms by (simp add: abs_mult)
  then have d: "\<bar>d\<bar> < 100001" using f32_small [of "x * 100"] by (simp add: d_def)
  then have "\<bar>if d \<ge> 0 then d + 1 / 2 else d - 1 / 2\<bar> < 100002" by (simp add: abs_if split: if_splits)
  then have "\<bar>q\<bar> < 100003" using f32_small [of "if d \<ge> 0 then d + 1 / 2 else d - 1 / 2"] by (simp add: q_def)
  then have n: "\<bar>of_int (trunc_rat q) :: rat\<bar> < 100003" using trunc_rat_abs [of q] by linarith
  then have f: "\<bar>f32 (of_int (trunc_rat q))\<bar> < 100004" using f32_small [of "of_int (trunc_rat q)"] by simp
  then have "\<bar>f32 (of_int (trunc_rat q)) / 100\<bar> < 1001" by (simp add: abs_divide)
  then have "\<bar>f32 (f32 (of_int (trunc_rat q)) / 100)\<bar> < 2000"
    using f32_small [of "f32 (of_int (trunc_rat q)) / 100"] by simp
  moreover have "float32_round_2decimals x = f32 (f32 (of_int (trunc_rat q)) / 100)"
    by (simp add: float32_round_2decimals_def Let_def d_def q_def)
  ultimately show ?thesis by simp
qed

text \<open>
  C26: for every word the converter can send, the voltage written into the payload is the exact
  voltage rounded to hundredths of a volt, half away from zero, up to the one rounding of the
  final division: within \<open>0.005 V + 2\<^sup>-\<^sup>2\<^sup>1 V\<close>.
\<close>

theorem round_2decimals_accurate:
  "\<bar>float32_round_2decimals (ad7327_result_to_volts raw) - of_int (result_code raw) * 10 / 2048\<bar>
    \<le> 1 / 200 + 1 / 2 ^ 21"
proof -
  define c where "c = result_code raw"
  have c: "- 2048 \<le> c" "c \<le> 2047" using result_code_range [of raw] by (simp_all add: c_def)
  let ?v = "of_int c * 5 / 1024 :: rat"
  define h where "h = (if c \<ge> 0 then 1 / 2 else - 1 / 2 :: rat)"
  have d: "f32 (?v * 100) = ?v * 100"
    using f32_exact [of "c * 125" "- 8"] c by (simp add: power_int_minus field_simps)
  have hv: "of_int (c * 125 + (if c \<ge> 0 then 128 else - 128)) * pow2 (- 8) = ?v * 100 + h"
    by (simp add: power_int_minus h_def field_simps)
  have "\<bar>c * 125 + (if c \<ge> 0 then 128 else - 128)\<bar> < 2 ^ 24" using c by simp
  from f32_exact [OF this, of "- 8"] have e: "f32 (?v * 100 + h) = ?v * 100 + h"
    unfolding hv by simp
  define n where "n = trunc_rat (?v * 100 + h)"
  have sg: "?v * 100 \<ge> 0 \<longleftrightarrow> c \<ge> 0" by (simp add: zero_le_divide_iff zero_le_mult_iff)
  have r: "float32_round_2decimals ?v = f32 (f32 (of_int n) / 100)"
    using e unfolding float32_round_2decimals_def Let_def d sg n_def h_def by (simp split: if_splits)
  have near: "\<bar>of_int n - ?v * 100\<bar> \<le> 1 / 2"
  proof (cases "c \<ge> 0")
    case True
    then have n: "n = \<lfloor>?v * 100 + 1 / 2\<rfloor>" by (simp add: n_def h_def trunc_rat_def)
    show ?thesis unfolding n by (rule abs_leI) linarith+
  next
    case False
    then have "?v * 100 < 0" using sg by linarith
    then have n: "n = \<lceil>?v * 100 - 1 / 2\<rceil>" using False by (simp add: n_def h_def trunc_rat_def)
    show ?thesis unfolding n by (rule abs_leI) linarith+
  qed
  have "\<bar>?v * 100\<bar> \<le> 1000" using c by (simp add: abs_if)
  with near have nb: "\<bar>of_int n :: rat\<bar> < 1001" by linarith
  then have "(of_int \<bar>n\<bar> :: rat) < of_int 1001" by simp
  then have "\<bar>n\<bar> < 1001" by (simp only: of_int_less_iff)
  then have "\<bar>n\<bar> < 2 ^ 24" by simp
  then have fn: "f32 (of_int n) = of_int n" using f32_exact [of n 0] by simp
  have "\<bar>of_int n / 100 :: rat\<bar> < pow2 (24 + - 20)" using nb by (simp add: abs_divide)
  then have fe: "\<bar>f32 (of_int n / 100) - of_int n / 100\<bar> \<le> 1 / 2 ^ 21"
    using f32_error [of "of_int n / 100" "- 20"] by (simp add: power_int_minus)
  have "of_int n / 100 - ?v = (of_int n - ?v * 100) / 100" by simp
  then have "\<bar>of_int n / 100 - ?v\<bar> = \<bar>of_int n - ?v * 100\<bar> / 100" by (simp only: abs_divide abs_numeral)
  then have "\<bar>of_int n / 100 - ?v\<bar> \<le> 1 / 200" using near by linarith
  then have "\<bar>f32 (of_int n / 100) - ?v\<bar> \<le> 1 / 200 + 1 / 2 ^ 21" using fe by linarith
  then show ?thesis by (simp add: volts_exact r fn flip: c_def) (simp add: field_simps)
qed

section \<open>The payload reads back\<close>

lemma udp_fields_ok:
  assumes "length ts = 17"
    and "\<And>i arr. i < 8 \<Longrightarrow> arr \<in> {snap_raw snap, snap_min snap, snap_max snap} \<Longrightarrow>
      \<bar>channel_volts snap arr i\<bar> < 1000"
  shows "list_all mp_ok (udp_fields snap ts err)"
proof -
  have "mp_ok (mp_volt v)" if "\<bar>v\<bar> < 1000" for v
    using round_2decimals_bound [OF that]
    by (simp add: mp_ok_def mp_volt_def float32_round_2decimals_def Let_def)
  then show ?thesis
    using assms device_id_wire_len_le(2) [of "snap_line snap"]
    by (auto simp: udp_fields_def Let_def list_all_iff mp_ok_def [of "MpStr _"] mp_ok_def [of "MpUint _"])
qed

lemma length_udp_fields: "length (udp_fields snap ts err) = 28"
  by (simp add: udp_fields_def Let_def)

text \<open>What the encoder gives is read back, or there is a reason that it gives nothing.\<close>

lemma encode_then_decode:
  assumes volts: "\<And>i arr. i < 8 \<Longrightarrow> arr \<in> {snap_raw snap, snap_min snap, snap_max snap} \<Longrightarrow>
      \<bar>channel_volts snap arr i\<bar> < 1000"
  shows "case msgpack_encode_adc_snapshot (Some snap) buf_len err of
      Some p \<Rightarrow>
        \<exists>ts. fmt_timestamp_udp17 snap = Some ts \<and> length p \<le> buf_len \<and>
          mp_decode p = Some (udp_fields snap ts err, []) \<and> length (udp_fields snap ts err) = 28
    | None \<Rightarrow>
        snap_ch_count snap = 0 \<or> snap_ch_count snap > 8 \<or> fmt_timestamp_udp17 snap = None \<or>
        buf_len < 197"
proof (cases "fmt_timestamp_udp17 snap")
  case (Some ts)
  let ?p = "[0xDC, 0x00, 0x1C] @ mp_images (udp_fields snap ts err)"
  note ok = udp_fields_ok [OF fmt_timestamp_length [OF Some] volts]
  have "mp_values 28 (mp_images (udp_fields snap ts err)) = Some (udp_fields snap ts err, [])"
    using mp_values_images [OF ok, of err "[]"] by (simp add: length_udp_fields)
  then have d: "mp_decode ?p = Some (udp_fields snap ts err, [])"
    by (simp add: mp_decode_def unat_sys_get_be16)
  have "length (mp_images (udp_fields snap ts err)) \<le> 194"
    using fmt_timestamp_length [OF Some] device_id_wire_len_le [of "snap_line snap"]
    unfolding udp_fields_def Let_def
    by (simp add: length_map_volt_images mp_image_def [of "MpStr _"] mp_image_def [of "MpUint _"])
  then show ?thesis using Some d by (auto simp: encode_eq length_udp_fields)
qed (simp add: encode_eq)

lemma dec_digits_length: "n < 10 ^ w \<Longrightarrow> 0 < w \<Longrightarrow> length (dec_digits n) \<le> w"
proof (induction w arbitrary: n)
  case (Suc w)
  show ?case
  proof (cases "n < 10")
    case False
    then have "n div 10 < 10 ^ w" "0 < w" using Suc.prems by (cases w; auto)+
    then have "length (dec_digits (n div 10)) \<le> w" by (rule Suc.IH)
    then show ?thesis using False by (subst dec_digits.simps) simp
  qed (subst dec_digits.simps, simp)
qed simp

lemma pad_dec_length: "n < 10 ^ w \<Longrightarrow> 0 < w \<Longrightarrow> length (pad_dec w n) = w"
  using dec_digits_length [of n w] by (simp add: pad_dec_def)

text \<open>The time of every snapshot the converter's task has stamped can be written.\<close>

lemma fmt_timestamp_stamped:
  assumes "snapshot_stamped snap"
  shows "fmt_timestamp_udp17 snap \<noteq> None"
proof -
  obtain u cl where st: "(snap_datetime snap, snap_msec snap) = get_datetime_ms u cl"
    using assms unfolding snapshot_stamped_def by blast
  obtain sec ms where now: "get_now_unix_ms u cl = (sec, ms)" by fastforce
  define s where "s = (ucast (clamp_unix sec) :: u32)"
  have t: "snap_datetime snap = seconds_to_datetime s" "snap_msec snap = ms" "unat ms \<le> 999"
    using st get_now_unix_ms_msec [of u cl] by (simp_all add: get_datetime_ms_def now s_def)
  let ?d = "seconds_to_datetime s"
  have v: "datetime_valid ?d" using seconds_to_datetime_date by blast
  have y: "unat (dt_year ?d) < 10 ^ 4" using seconds_to_datetime_year [of s] by simp
  have mon: "unat (dt_month ?d) - 1 < 12"
    using v unfolding datetime_valid_def by linarith
  have day: "unat (dt_day ?d) - 1 < month_lens (unat (dt_year ?d)) ! (unat (dt_month ?d) - 1)"
    using v unfolding datetime_valid_def by linarith
  have "unat (dt_month ?d) < 10 ^ 2" "unat (dt_day ?d) < 10 ^ 2"
    using mon day month_lens_le [OF mon, of "unat (dt_year ?d)"] by simp_all
  moreover have "unat (dt_hour ?d) < 10 ^ 2" "unat (dt_min ?d) < 10 ^ 2" "unat (dt_sec ?d) < 10 ^ 2"
    using v unfolding datetime_valid_def by simp_all
  moreover have "unat ms < 10 ^ 3" using t(3) by simp
  ultimately show ?thesis
    using y by (simp add: fmt_timestamp_udp17_def t(1,2) Let_def pad_dec_length del: power.simps)
qed

lemma encode_stamped:
  assumes "snapshot_ok snap"
  shows "\<exists>p ts. msgpack_encode_adc_snapshot (Some snap) 384 err = Some p \<and>
    fmt_timestamp_udp17 snap = Some ts \<and> mp_decode p = Some (udp_fields snap ts err, [])"
proof -
  have v: "\<bar>channel_volts snap arr i\<bar> < 1000"
    if "i < 8" "arr \<in> {snap_raw snap, snap_min snap, snap_max snap}" for i arr
    using snapshot_volts [OF assms that] assms that(1) by (simp add: channel_volts_def snapshot_ok_def)
  have "fmt_timestamp_udp17 snap \<noteq> None" "snap_ch_count snap = 8"
    using assms fmt_timestamp_stamped [of snap] by (simp_all add: snapshot_ok_def)
  with encode_then_decode [OF v, of 384 err] show ?thesis by (auto split: option.splits)
qed

text \<open>
  C24: a snapshot whose voltages are below 1000 V is encoded exactly when it has one to eight
  channels, its timestamp takes 17 characters and the buffer has room; the payload is a
  MessagePack array that reads back as the 28 fields of the snapshot and the error code, with
  nothing after it, and it fits the buffer.
\<close>

theorem msgpack_encode_decode:
  assumes volts: "\<And>i arr. i < 8 \<Longrightarrow> arr \<in> {snap_raw snap, snap_min snap, snap_max snap} \<Longrightarrow>
      \<bar>channel_volts snap arr i\<bar> < 1000"
  shows "case msgpack_encode_adc_snapshot (Some snap) buf_len err of
      Some p \<Rightarrow>
        \<exists>ts. fmt_timestamp_udp17 snap = Some ts \<and> length p \<le> buf_len \<and>
          mp_decode p = Some (udp_fields snap ts err, []) \<and> length (udp_fields snap ts err) = 28
    | None \<Rightarrow>
        snap_ch_count snap = 0 \<or> snap_ch_count snap > 8 \<or> fmt_timestamp_udp17 snap = None \<or>
        buf_len < 197"
  using volts by (rule encode_then_decode)

definition sample_snapshot :: adc_snapshot_t where
  "sample_snapshot =
     \<lparr>snap_line = [0x4B, 0x52] @ replicate 49 0,
      snap_datetime = \<lparr>dt_year = 2026, dt_month = 3, dt_day = 18, dt_hour = 9, dt_min = 5, dt_sec = 59\<rparr>,
      snap_msec = 7, snap_sample_count = 10, snap_raw = replicate 8 (- 10), snap_min = replicate 8 (- 10),
      snap_max = replicate 8 (2047 * 5 / 1024), snap_ch_count = 8\<rparr>"

lemma sample_snapshot_facts:
  "fmt_timestamp_udp17 sample_snapshot \<noteq> None" "snap_ch_count sample_snapshot = 8"
  "i < 8 \<Longrightarrow> arr \<in> {snap_raw sample_snapshot, snap_min sample_snapshot, snap_max sample_snapshot} \<Longrightarrow>
     \<bar>channel_volts sample_snapshot arr i\<bar> < 1000"
proof -
  show "fmt_timestamp_udp17 sample_snapshot \<noteq> None"
    by (simp add: fmt_timestamp_udp17_def sample_snapshot_def Let_def pad_dec_def dec_digits.simps)
  have nth: "i < 8 \<Longrightarrow> replicate 8 v ! i = v" for i and v :: rat by simp
  show "\<bar>channel_volts sample_snapshot arr i\<bar> < 1000"
    if "i < 8" "arr \<in> {snap_raw sample_snapshot, snap_min sample_snapshot, snap_max sample_snapshot}" for i arr
    using that(2) nth [OF that(1)] by (auto simp: channel_volts_def sample_snapshot_def)
qed (simp add: sample_snapshot_def)

lemma msgpack_encode_decode_witness:
  "\<exists>p ts. msgpack_encode_adc_snapshot (Some sample_snapshot) 384 3 = Some p \<and>
    mp_decode p = Some (udp_fields sample_snapshot ts 3, []) \<and> length p \<le> 384"
  using msgpack_encode_decode [OF sample_snapshot_facts(3), of 384 3] sample_snapshot_facts(1,2)
  by (cases "msgpack_encode_adc_snapshot (Some sample_snapshot) 384 3") auto

end
