(* ===== verification/Udp.thy ===== *)
theory Udp
  imports Msgpack_Adc Net_Manager Sync_Gate
begin

text \<open>
  \<^verbatim>\<open>src/udp.c\<close>: the task that sends the latest analogue snapshot to the UDP peer, and prints
  what it receives, once the server's first time synchronisation has opened the gate.  The
  task's loop is folded over a script: a \<open>udp_turn\<close> is what one pass of the loop finds in the
  state the other tasks own, and what the socket answers.  Its effects on the socket are a
  trace.
\<close>

section \<open>State\<close>

record udp_build =
  ub_tcp_gateway :: bool
  ub_test_mode :: bool
  ub_bind_wifi :: int
  ub_bind_eth :: int

text \<open>What a poll and a receive find: nothing, an error, or a datagram.\<close>

datatype udp_rx = Rx_none | Rx_error | Rx_datagram bytes

text \<open>\<open>ut_err\<close> is what the other tasks did to the error latch before the turn, \<open>ut_sent\<close> the
  answer of \<open>zsock_sendto\<close>.\<close>

record udp_turn =
  ut_gate :: sync_gate
  ut_active :: netmgr_iface_t
  ut_adc :: adc_state
  ut_rx :: udp_rx
  ut_sent :: int
  ut_err :: "u8 \<Rightarrow> u8"

type_synonym sockaddr = "in_addr \<times> u16"

text \<open>The printed bytes of a received datagram, with the mark of a longer one.\<close>

datatype udp_io = Io_poll | Io_dump bytes bool | Io_sendto sockaddr bytes

record udp_state =
  udp_trace :: "udp_io list"
  skip_count :: u32
  udp_gate_msg :: bool
  s_udp_send_err :: bool
  udp_err :: u8

abbreviation (input) UDP_TX_BUF_SIZE :: nat where "UDP_TX_BUF_SIZE \<equiv> 384"
abbreviation (input) UDP_RX_BUF_SIZE :: nat where "UDP_RX_BUF_SIZE \<equiv> 512"

section \<open>Operations\<close>

definition udp_bind_port_active :: "udp_build \<Rightarrow> net_build \<Rightarrow> netmgr_iface_t \<Rightarrow> u16" where
  "udp_bind_port_active U B iface =
     (if nb_wifi_enable B \<and> iface = NETMGR_IFACE_WIFI then word_of_int (ub_bind_wifi U)
      else word_of_int (ub_bind_eth U))"

definition udp_rx_enabled :: "udp_build \<Rightarrow> net_build \<Rightarrow> bool" where
  "udp_rx_enabled U B \<longleftrightarrow> (nb_wifi_enable B \<and> ub_bind_wifi U > 0) \<or> ub_bind_eth U > 0"

definition udp_peer_apply :: "'d net_drv \<Rightarrow> ('d, 's) netmgr \<Rightarrow> errno + sockaddr" where
  "udp_peer_apply D nm =
     (let ip = netmgr_udp_peer_ip nm; port = netmgr_udp_peer_port nm
      in if ip = [] \<or> port = 0 then Inl EINVAL
         else case nd_pton D ip of None \<Rightarrow> Inl EINVAL | Some a \<Rightarrow> Inr (a, port))"

definition udp_emit :: "udp_io \<Rightarrow> udp_state \<Rightarrow> udp_state" where
  "udp_emit e s = s\<lparr>udp_trace := udp_trace s @ [e]\<rparr>"

definition udp_try_rx :: "udp_build \<Rightarrow> udp_turn \<Rightarrow> udp_state \<Rightarrow> udp_state" where
  "udp_try_rx U t s =
     (if ub_tcp_gateway U \<and> \<not> sg_udp_allowed (ut_gate t) then s
      else
        let s1 = udp_emit Io_poll s
        in case ut_rx t of
             Rx_none \<Rightarrow> s1
           | Rx_error \<Rightarrow> s1
           | Rx_datagram p \<Rightarrow>
               let rx = take UDP_RX_BUF_SIZE p
               in if rx = [] then s1 else udp_emit (Io_dump (take 64 rx) (length rx > 64)) s1)"

text \<open>The start of \<open>udp_task\<close>: the descriptor and the answer of the bind are the platform's.  A
  failure sets the latch and ends the task.\<close>

definition udp_task_init ::
    "'d net_drv \<Rightarrow> udp_build \<Rightarrow> net_build \<Rightarrow> int \<Rightarrow> int \<Rightarrow> ('d, 's) netmgr \<Rightarrow> u8 \<Rightarrow> sockaddr option \<times> u8" where
  "udp_task_init D U B fd bind_result nm err =
     (if fd < 0 then (None, gw_error_set GW_ERR_UDP_COMM err)
      else if udp_bind_port_active U B (netmgr_active_iface nm) > 0 \<and> bind_result \<noteq> 0
      then (None, gw_error_set GW_ERR_UDP_COMM err)
      else case udp_peer_apply D nm of
             Inl _ \<Rightarrow> (None, gw_error_set GW_ERR_UDP_COMM err)
           | Inr peer \<Rightarrow> (Some peer, err))"

text \<open>The encoding a turn sends: the test layout or the snapshot with the error code.\<close>

definition udp_encode :: "udp_build \<Rightarrow> adc_snapshot_t \<Rightarrow> u8 \<Rightarrow> bytes option" where
  "udp_encode U snap err =
     (if ub_test_mode U then msgpack_encode_adc_test_2ch (Some snap) UDP_TX_BUF_SIZE
      else msgpack_encode_adc_snapshot (Some snap) UDP_TX_BUF_SIZE err)"

definition udp_send :: "sockaddr \<Rightarrow> bytes \<Rightarrow> int \<Rightarrow> udp_state \<Rightarrow> udp_state" where
  "udp_send peer p sent s =
     (let s1 = udp_emit (Io_sendto peer p) s
      in if sent \<noteq> int (length p)
         then s1\<lparr>s_udp_send_err := True, udp_err := gw_error_set GW_ERR_UDP_COMM (udp_err s1)\<rparr>
         else s1\<lparr>s_udp_send_err := False,
                udp_err := (if gw_error_get (udp_err s1) = GW_ERR_UDP_COMM
                            then gw_error_clear (udp_err s1) else udp_err s1)\<rparr>)"

definition udp_loop_turn :: "udp_build \<Rightarrow> net_build \<Rightarrow> sockaddr \<Rightarrow> udp_turn \<Rightarrow> udp_state \<Rightarrow> udp_state" where
  "udp_loop_turn U B peer t s0 =
     (let s = s0\<lparr>udp_err := ut_err t (udp_err s0)\<rparr>
      in if ub_tcp_gateway U \<and> \<not> sg_udp_allowed (ut_gate t) then s\<lparr>udp_gate_msg := True\<rparr>
         else
           let s1 = (if udp_rx_enabled U B \<and> udp_bind_port_active U B (ut_active t) > 0
                     then udp_try_rx U t s else s)
           in case adc_get_latest (ut_adc t) of
                None \<Rightarrow> s1\<lparr>skip_count := skip_count s1 + 1\<rparr>
              | Some snap \<Rightarrow>
                  let s2 = s1\<lparr>skip_count := 0\<rparr>
                  in case udp_encode U snap (udp_err s2) of
                       None \<Rightarrow> s2
                     | Some p \<Rightarrow> if p = [] then s2 else udp_send peer p (ut_sent t) s2)"

definition udp_loop :: "udp_build \<Rightarrow> net_build \<Rightarrow> sockaddr \<Rightarrow> udp_turn list \<Rightarrow> udp_state \<Rightarrow> udp_state" where
  "udp_loop U B peer ts s = fold (udp_loop_turn U B peer) ts s"

section \<open>What a turn does\<close>

definition udp_open :: "udp_build \<Rightarrow> udp_turn \<Rightarrow> bool" where
  "udp_open U t \<longleftrightarrow> \<not> ub_tcp_gateway U \<or> sg_udp_allowed (ut_gate t)"

text \<open>The datagrams of a trace, with their destinations.\<close>

fun udp_sends :: "udp_io list \<Rightarrow> (sockaddr \<times> bytes) list" where
  "udp_sends [] = []"
| "udp_sends (Io_sendto a d # es) = (a, d) # udp_sends es"
| "udp_sends (Io_poll # es) = udp_sends es"
| "udp_sends (Io_dump b m # es) = udp_sends es"

lemma udp_sends_append [simp]: "udp_sends (es @ fs) = udp_sends es @ udp_sends fs"
  by (induction es rule: udp_sends.induct) simp_all

text \<open>The snapshot a turn sends, if it sends one: whether it can be encoded does not depend on
  the error code.\<close>

definition udp_due :: "udp_build \<Rightarrow> udp_turn \<Rightarrow> bool" where
  "udp_due U t \<longleftrightarrow> udp_open U t \<and>
     (case adc_get_latest (ut_adc t) of None \<Rightarrow> False | Some snap \<Rightarrow> udp_encode U snap 0 \<noteq> None)"

lemma length_udp_fields_images:
  "length (mp_images (udp_fields snap ts e)) = length (mp_images (udp_fields snap ts e'))"
  by (simp add: udp_fields_def Let_def mp_image_def)

lemma udp_encode_err: "udp_encode U snap e = None \<longleftrightarrow> udp_encode U snap e' = None"
  using length_udp_fields_images [of snap _ e e']
  by (auto simp: udp_encode_def encode_eq split: option.splits)

lemma udp_encode_nonempty: "udp_encode U snap e = Some p \<Longrightarrow> p \<noteq> []"
  by (auto simp: udp_encode_def encode_eq msgpack_encode_adc_test_2ch_def Let_def
      split: option.splits if_splits prod.splits)

lemma udp_try_rx_effect:
  "\<exists>io. udp_try_rx U t s = s\<lparr>udp_trace := udp_trace s @ io\<rparr> \<and> udp_sends io = [] \<and>
     (\<not> udp_open U t \<longrightarrow> io = [])"
  by (auto simp: udp_try_rx_def udp_emit_def udp_open_def Let_def split: udp_rx.split)

lemma udp_loop_turn_effect:
  "\<exists>io. udp_trace (udp_loop_turn U B peer t s) = udp_trace s @ io \<and>
    (\<not> udp_open U t \<longrightarrow> io = [] \<and> udp_err (udp_loop_turn U B peer t s) = ut_err t (udp_err s)) \<and>
    (if udp_due U t
     then \<exists>snap p. adc_get_latest (ut_adc t) = Some snap \<and>
            udp_encode U snap (ut_err t (udp_err s)) = Some p \<and> udp_sends io = [(peer, p)] \<and>
            (udp_err (udp_loop_turn U B peer t s) = GW_ERR_UDP_COMM \<longleftrightarrow> ut_sent t \<noteq> int (length p))
     else udp_sends io = [])"
proof (cases "udp_open U t")
  case False
  then show ?thesis by (auto simp: udp_loop_turn_def udp_open_def udp_due_def Let_def)
next
  case True
  let ?s = "s\<lparr>udp_err := ut_err t (udp_err s)\<rparr>"
  define s1 where "s1 = (if udp_rx_enabled U B \<and> udp_bind_port_active U B (ut_active t) > 0
                     then udp_try_rx U t ?s else ?s)"
  obtain io where io: "s1 = ?s\<lparr>udp_trace := udp_trace s @ io\<rparr>" "udp_sends io = []"
  proof (cases "udp_rx_enabled U B \<and> udp_bind_port_active U B (ut_active t) > 0")
    case True
    then show ?thesis using udp_try_rx_effect [of U t ?s] that by (auto simp: s1_def)
  next
    case False
    then have "s1 = ?s\<lparr>udp_trace := udp_trace s @ []\<rparr>" unfolding s1_def by auto
    then show ?thesis using that [of "[]"] by simp
  qed
  have e: "udp_loop_turn U B peer t s =
    (case adc_get_latest (ut_adc t) of
       None \<Rightarrow> s1\<lparr>skip_count := skip_count s1 + 1\<rparr>
     | Some snap \<Rightarrow>
         let s2 = s1\<lparr>skip_count := 0\<rparr>
         in case udp_encode U snap (udp_err s2) of
              None \<Rightarrow> s2
            | Some p \<Rightarrow> if p = [] then s2 else udp_send peer p (ut_sent t) s2)"
    using True unfolding udp_loop_turn_def Let_def s1_def [symmetric] by (auto simp: udp_open_def)
  show ?thesis
  proof (cases "adc_get_latest (ut_adc t)")
    case None
    then show ?thesis unfolding e by (auto simp: io udp_due_def True)
  next
    case (Some snap)
    have due: "udp_due U t \<longleftrightarrow> udp_encode U snap (ut_err t (udp_err s)) \<noteq> None"
      using True Some udp_encode_err [of U snap 0 "ut_err t (udp_err s)"] by (simp add: udp_due_def)
    show ?thesis
    proof (cases "udp_encode U snap (ut_err t (udp_err s))")
      case None
      then show ?thesis unfolding e by (auto simp: io Some due True)
    next
      case (Some p)
      note p = this
      have "udp_sends (io @ [Io_sendto peer p]) = [(peer, p)]" by (simp add: io)
      then show ?thesis
        unfolding e using p udp_encode_nonempty [OF p] \<open>adc_get_latest (ut_adc t) = Some snap\<close> True
        by (intro exI [of _ "io @ [Io_sendto peer p]"])
          (auto simp: io due udp_send_def udp_emit_def Let_def gw_error_get_def gw_error_set_def gw_error_clear_def)
    qed
  qed
qed

text \<open>Without the error latch.\<close>

lemma udp_loop_turn_sends:
  "\<exists>io. udp_trace (udp_loop_turn U B peer t s) = udp_trace s @ io \<and> (\<not> udp_open U t \<longrightarrow> io = []) \<and>
    (if udp_due U t
     then \<exists>snap p. adc_get_latest (ut_adc t) = Some snap \<and>
            udp_encode U snap (ut_err t (udp_err s)) = Some p \<and> udp_sends io = [(peer, p)]
     else udp_sends io = [])"
  using udp_loop_turn_effect [of U B peer t s] by (cases "udp_due U t") (simp_all, blast+)

section \<open>What the task sends\<close>

text \<open>The payload \<open>d\<close> is a MessagePack array of 28 fields, those of the snapshot the turn \<open>t\<close>
  finds, with an error code.\<close>

definition udp_payload :: "udp_turn \<Rightarrow> bytes \<Rightarrow> bool" where
  "udp_payload t d \<longleftrightarrow>
     (\<exists>snap ts e. adc_get_latest (ut_adc t) = Some snap \<and> fmt_timestamp_udp17 snap = Some ts \<and>
        mp_decode d = Some (udp_fields snap ts e, []))"

text \<open>The voltages of the snapshot are below 1000 V.\<close>

definition udp_volts_ok :: "udp_turn \<Rightarrow> bool" where
  "udp_volts_ok t \<longleftrightarrow>
     (case adc_get_latest (ut_adc t) of
        None \<Rightarrow> True
      | Some snap \<Rightarrow> \<forall>i < 8. \<bar>channel_volts snap (snap_raw snap) i\<bar> < 1000 \<and>
                       \<bar>channel_volts snap (snap_min snap) i\<bar> < 1000 \<and>
                       \<bar>channel_volts snap (snap_max snap) i\<bar> < 1000)"

lemma udp_payload_encode:
  assumes "\<not> ub_test_mode U" "udp_volts_ok t" "adc_get_latest (ut_adc t) = Some snap"
    "udp_encode U snap e = Some p"
  shows "udp_payload t p"
proof -
  have "\<bar>channel_volts snap arr i\<bar> < 1000"
    if "i < 8" "arr \<in> {snap_raw snap, snap_min snap, snap_max snap}" for i arr
    using assms(2,3) that unfolding udp_volts_ok_def by auto
  from encode_then_decode [OF this, of 384 e] assms show ?thesis
    unfolding udp_payload_def udp_encode_def by auto
qed

text \<open>The configured destination of an interface.\<close>

definition iface_udp_peer :: "gw_config \<Rightarrow> netmgr_iface_t \<Rightarrow> bytes \<times> u16" where
  "iface_udp_peer c i =
     (case i of
        NETMGR_IFACE_NONE \<Rightarrow> ([], 0)
      | NETMGR_IFACE_WIFI \<Rightarrow> (c_str (wifi_udp_server_ip c), wifi_udp_server_port c)
      | NETMGR_IFACE_ETH \<Rightarrow> (c_str (eth_udp_server_ip c), eth_udp_server_port c))"

lemma udp_peer_of_iface:
  assumes "cfg_wf (g_gw_config cfg)" "netmgr_reach D N B d cfg (q, nm)" "udp_peer_apply D nm = Inr peer"
  shows "\<exists>ip. iface_udp_peer (g_gw_config cfg)
           (mode_iface (effective_mode B (net_boot_mode (g_gw_config cfg)))) = (ip, snd peer) \<and>
         nd_pton D ip = Some (fst peer)"
proof -
  have i: "netmgr_inv B (g_gw_config cfg) (q, nm)" by (rule netmgr_reach_inv [OF assms(1,2)])
  then obtain m where m: "nm_gw nm = (g_gw_config cfg)\<lparr>net_boot_mode := m\<rparr>"
    by (auto simp: netmgr_inv_def)
  have "netmgr_udp_peer_ip nm \<noteq> []"
    using assms(3) by (auto simp: udp_peer_apply_def Let_def split: if_splits)
  then have "s_active nm \<noteq> NETMGR_IFACE_NONE" by (auto simp: netmgr_udp_peer_ip_def)
  then have a: "s_active nm = mode_iface (effective_mode B (net_boot_mode (g_gw_config cfg)))"
    using i by (cases q) (auto simp: netmgr_inv_def mode_iface_def)
  show ?thesis
    using assms(3) m unfolding a [symmetric]
    by (cases "s_active nm") (auto simp: udp_peer_apply_def iface_udp_peer_def netmgr_udp_peer_ip_def
        netmgr_udp_peer_port_def Let_def split: if_splits option.splits)
qed

text \<open>What one pass gives: nothing before the gate is open, and one datagram exactly when a
  snapshot is due.  A run of the task is the passes one after the other.\<close>

definition udp_gives :: "udp_build \<Rightarrow> sockaddr \<Rightarrow> udp_turn \<Rightarrow> udp_io list \<Rightarrow> bool" where
  "udp_gives U peer t io \<longleftrightarrow> (\<not> udp_open U t \<longrightarrow> io = []) \<and>
     (if udp_due U t then \<exists>d. udp_sends io = [(peer, d)] \<and> udp_payload t d else udp_sends io = [])"

interpretation udp_passes: tracing_task "\<lambda>t. \<not> ub_test_mode U \<and> udp_volts_ok t" "\<lambda>s. True"
    "udp_loop_turn U B peer" udp_trace "udp_gives U peer"
  for U B peer
proof unfold_locales
  fix t s
  assume t: "\<not> ub_test_mode U \<and> udp_volts_ok t"
  show "\<exists>out. udp_trace (udp_loop_turn U B peer t s) = udp_trace s @ out \<and> udp_gives U peer t out"
    using udp_loop_turn_sends [of U B peer t s] udp_payload_encode [of U t] t
    by (auto simp: udp_gives_def split: if_splits)
qed simp

lemma udp_gives_concat:
  "list_all2 (udp_gives U peer) ts outs \<Longrightarrow>
     (list_all (\<lambda>t. \<not> udp_open U t) ts \<longrightarrow> concat outs = []) \<and>
     list_all2 (\<lambda>t (a, d). a = peer \<and> udp_payload t d) (filter (udp_due U) ts) (udp_sends (concat outs))"
  by (induction rule: list_all2_induct) (auto simp: udp_gives_def split: if_splits)

lemma udp_loop_effect:
  assumes "\<not> ub_test_mode U" "list_all udp_volts_ok ts"
  shows "\<exists>io. udp_trace (udp_loop U B peer ts s) = udp_trace s @ io \<and>
    (list_all (\<lambda>t. \<not> udp_open U t) ts \<longrightarrow> io = []) \<and>
    list_all2 (\<lambda>t (a, d). a = peer \<and> udp_payload t d) (filter (udp_due U) ts) (udp_sends io)"
proof -
  have "list_all (\<lambda>t. \<not> ub_test_mode U \<and> udp_volts_ok t) ts"
    using assms by (simp add: list_all_iff)
  from udp_passes.run_trace [OF this TrueI] udp_gives_concat show ?thesis
    unfolding udp_loop_def by blast
qed

text \<open>Before the server's time synchronisation has opened the gate, the socket is neither
  polled nor written to.  After it, every pass of the loop that finds an encodable snapshot, and
  no other, sends exactly one datagram, in the order of the passes; it goes to the peer
  configured for the interface of the stored mode, and its payload reads back as the 28 fields
  of the snapshot that pass found.\<close>

theorem udp_datagrams:
  assumes "cfg_wf (g_gw_config cfg)" "netmgr_reach D N B d0 cfg (q, nm)"
    and "udp_task_init D U B fd bind_result nm err = (Some peer, err')"
    and "\<not> ub_test_mode U" "list_all udp_volts_ok ts"
  shows "\<exists>io ip. udp_trace (udp_loop U B peer ts s) = udp_trace s @ io \<and>
    (list_all (\<lambda>t. \<not> udp_open U t) ts \<longrightarrow> io = []) \<and>
    list_all2 (\<lambda>t (a, d). a = peer \<and> udp_payload t d) (filter (udp_due U) ts) (udp_sends io) \<and>
    iface_udp_peer (g_gw_config cfg)
      (mode_iface (effective_mode B (net_boot_mode (g_gw_config cfg)))) = (ip, snd peer) \<and>
    nd_pton D ip = Some (fst peer)"
proof -
  have "udp_peer_apply D nm = Inr peer"
    using assms(3) by (auto simp: udp_task_init_def split: if_splits sum.splits)
  from udp_peer_of_iface [OF assms(1,2) this] udp_loop_effect [OF assms(4,5), of B peer s]
  show ?thesis by blast
qed

text \<open>the error latch follows the datagrams: a pass that sends leaves the UDP error in it
  exactly when the socket did not take the whole datagram; a pass before the synchronisation
  leaves the latch as it finds it.\<close>

theorem udp_error_follows_send:
  "(udp_due U t \<longrightarrow>
      (\<exists>p. udp_sends (drop (length (udp_trace s)) (udp_trace (udp_loop_turn U B peer t s))) = [(peer, p)] \<and>
         (gw_error_get (udp_err (udp_loop_turn U B peer t s)) = GW_ERR_UDP_COMM \<longleftrightarrow>
            ut_sent t \<noteq> int (length p)))) \<and>
   (\<not> udp_open U t \<longrightarrow> udp_err (udp_loop_turn U B peer t s) = ut_err t (udp_err s))"
  using udp_loop_turn_effect [of U B peer t s] by (auto simp: gw_error_get_def split: if_splits)

section \<open>A closed example\<close>

definition sample_udp_build :: udp_build where
  "sample_udp_build = \<lparr>ub_tcp_gateway = True, ub_test_mode = False, ub_bind_wifi = 19197, ub_bind_eth = 0\<rparr>"

text \<open>A pass before the synchronisation, and two passes after it with a snapshot.\<close>

definition sample_udp_turn :: "bool \<Rightarrow> int \<Rightarrow> udp_turn" where
  "sample_udp_turn opened sent =
     \<lparr>ut_gate = sg_init\<lparr>sg_time_ok := opened\<rparr>, ut_active = NETMGR_IFACE_ETH,
      ut_adc = adc_boot\<lparr>adc_snapshot := sample_snapshot, adc_has_sample := True\<rparr>,
      ut_rx = Rx_none, ut_sent = sent, ut_err = id\<rparr>"

definition sample_udp_state :: udp_state where
  "sample_udp_state = \<lparr>udp_trace = [], skip_count = 0, udp_gate_msg = False, s_udp_send_err = False,
                       udp_err = 0\<rparr>"

lemma sample_udp_snapshot:
  "adc_get_latest (ut_adc (sample_udp_turn g n)) = Some (sample_snapshot\<lparr>snap_sample_count := 0\<rparr>)"
  by (simp add: sample_udp_turn_def adc_get_latest_def adc_boot_def)

lemma sample_udp_volts: "udp_volts_ok (sample_udp_turn g n)"
proof -
  have "channel_volts (s\<lparr>snap_sample_count := c\<rparr>) arr i = channel_volts s arr i" for s c arr i
    by (simp add: channel_volts_def)
  then show ?thesis
    using sample_snapshot_facts(3) by (simp add: udp_volts_ok_def sample_udp_snapshot)
qed

lemma sample_udp_due: "udp_due sample_udp_build (sample_udp_turn g n) \<longleftrightarrow> g"
proof -
  let ?s = "sample_snapshot\<lparr>snap_sample_count := 0\<rparr>"
  have "\<bar>channel_volts ?s arr i\<bar> < 1000"
    if "i < 8" "arr \<in> {snap_raw ?s, snap_min ?s, snap_max ?s}" for i arr
    using sample_snapshot_facts(3) [of i arr] that by (simp add: channel_volts_def)
  note e = encode_then_decode [OF this, of 384 0]
  have "fmt_timestamp_udp17 ?s = fmt_timestamp_udp17 sample_snapshot" "snap_ch_count ?s = 8"
    by (simp_all add: fmt_timestamp_udp17_def sample_snapshot_facts)
  then have "udp_encode sample_udp_build ?s 0 \<noteq> None"
    using e sample_snapshot_facts(1) by (auto simp: udp_encode_def sample_udp_build_def split: option.splits)
  then show ?thesis
    by (simp add: udp_due_def sample_udp_snapshot)
      (simp add: udp_open_def sample_udp_build_def sample_udp_turn_def sg_udp_allowed_def)
qed

lemma sample_udp_trace: "udp_trace sample_udp_state = []"
  by (simp add: sample_udp_state_def)

lemma udp_datagrams_witness:
  "\<exists>(nm :: (nat, nat \<Rightarrow> bytes option) netmgr) peer d1 d2. udp_task_init (sample_net 20000) sample_udp_build sample_build 3 0 nm 0 = (Some peer, 0) \<and>
    peer = (0, 5001) \<and>
    udp_sends (udp_trace (udp_loop sample_udp_build sample_build peer
      [sample_udp_turn False 0, sample_udp_turn True 180, sample_udp_turn True (-1)] sample_udp_state)) =
    [(peer, d1), (peer, d2)] \<and> udp_payload (sample_udp_turn True (-1)) d2"
proof -
  obtain nm where nm: "netmgr_reach (sample_net 20000) ram_nvs sample_build 0 sample_cfg_state
      (Eth_service (Some 2), nm)" "netmgr_active_iface nm = NETMGR_IFACE_ETH"
    using sample_reach by blast
  obtain m where m: "nm_gw nm = sample_c\<lparr>net_boot_mode := m\<rparr>"
    using netmgr_reach_inv [OF sample_facts(2) nm(1)] by (auto simp: netmgr_inv_def)
  have c: "c_str (eth_udp_server_ip sample_c) = [0x35]" "eth_udp_server_port sample_c = 5001"
    by code_simp+
  have peer: "udp_task_init (sample_net 20000) sample_udp_build sample_build 3 0 nm 0 = (Some (0, 5001), 0)"
    using nm(2) m c by (simp add: udp_task_init_def udp_bind_port_active_def sample_udp_build_def
        udp_peer_apply_def netmgr_active_iface_def netmgr_udp_peer_ip_def netmgr_udp_peer_port_def
        Let_def) (simp add: sample_net_def)
  let ?ts = "[sample_udp_turn False 0, sample_udp_turn True 180, sample_udp_turn True (-1)]"
  have t: "\<not> ub_test_mode sample_udp_build" by (simp add: sample_udp_build_def)
  have v: "list_all udp_volts_ok ?ts" by (simp add: sample_udp_volts)
  have "list_all2 (\<lambda>t (a, d). a = (0, 5001) \<and> udp_payload t d) [sample_udp_turn True 180, sample_udp_turn True (-1)]
    (udp_sends (udp_trace (udp_loop sample_udp_build sample_build (0, 5001) ?ts sample_udp_state)))"
    using udp_datagrams [OF sample_facts(2) nm(1) peer t v, of sample_udp_state]
    by (auto simp: sample_udp_due sample_udp_trace)
  then show ?thesis using peer by (auto simp: list_all2_Cons1)
qed

lemma udp_error_follows_send_witness:
  "udp_err (udp_loop_turn sample_udp_build sample_build (0, 5001) (sample_udp_turn True (-1)) sample_udp_state) =
     GW_ERR_UDP_COMM \<and>
   udp_err (udp_loop_turn sample_udp_build sample_build (0, 5001) (sample_udp_turn False 0) sample_udp_state) = 0"
  using udp_error_follows_send [of sample_udp_build "sample_udp_turn True (-1)" sample_udp_state sample_build "(0, 5001)"]
    udp_error_follows_send [of sample_udp_build "sample_udp_turn False 0" sample_udp_state sample_build "(0, 5001)"]
  by (simp add: sample_udp_due gw_error_get_def)
    (auto simp: sample_udp_turn_def udp_open_def sample_udp_build_def sg_init_def sg_udp_allowed_def
      sample_udp_state_def)

end
