(* ===== verification/Board.thy ===== *)
theory Board
  imports Tcp_Client Udp
begin

text \<open>
  The tasks of the board together: the network manager (\<^verbatim>\<open>src/network_manager.c\<close>), \<open>main\<close> after the
  start of the manager (\<^verbatim>\<open>src/main.c\<close>), the TCP task (\<^verbatim>\<open>src/tcp_gateway.c\<close>), the UDP task
  (\<^verbatim>\<open>src/udp.c\<close>) and the converter's task with its timer (\<^verbatim>\<open>src/adc.c\<close>).  They share the error latch,
  the clock and its gate, the published interface and the analogue snapshot.  A run is any
  sequence of events; in each one task runs from one of its blocking calls to the next, on the
  state the others left.
\<close>

section \<open>The board\<close>

text \<open>What is fixed for a run: the platform's drivers, the build, the prepared connect body.\<close>

record ('d, 's, 'a) board_env =
  bp_net :: "'d net_drv"
  bp_nvs :: "'s nvs_ops"
  bp_build :: net_build
  bp_tcp :: tcp_build
  bp_udp :: udp_build
  bp_spi :: "'a spi_dev"
  bp_connect :: bytes

datatype udp_task = Udp_off | Udp_ended | Udp_running sockaddr

record ('d, 's, 'a) board =
  bd_point :: netmgr_point
  bd_nm :: "('d, 's) netmgr"
  bd_online :: bool
  bd_tcp :: tcp_phase
  bd_gw :: gw_state
  bd_udp_task :: udp_task
  bd_udp :: udp_state
  bd_spi :: 'a
  bd_adc :: adc_state

text \<open>One event: the manager's next step, a WiFi event, a change of the platform, \<open>main\<close> finding
  the wait for the network at its end, an attempt to connect, a poll of the connection, the start
  of the UDP task, one pass of its loop, the sample timer, the converter's task.\<close>

datatype 'd board_event =
    Net_step | Net_wifi wifi_event | Net_platform "'d \<Rightarrow> 'd" | Main_wait
  | Tcp_connect gw_env int int | Tcp_poll gw_env sock_event
  | Udp_start int int | Udp_pass udp_rx int | Adc_tick | Adc_run int

text \<open>The board when \<open>main\<close> has started the converter and the manager.\<close>

definition board_boot :: "'d \<Rightarrow> 's cfg_state \<Rightarrow> gw_state \<Rightarrow> 'a \<Rightarrow> ('d, 's, 'a) board" where
  "board_boot d cfg gw a =
     \<lparr>bd_point = Cycle, bd_nm = netmgr_boot d cfg, bd_online = False, bd_tcp = Idle, bd_gw = gw,
      bd_udp_task = Udp_off,
      bd_udp = \<lparr>udp_trace = [], skip_count = 0, udp_gate_msg = False, s_udp_send_err = False,
                udp_err = gw_err gw\<rparr>,
      bd_spi = a, bd_adc = adc_task_init (master_code (g_gw_config cfg)) adc_boot\<rparr>"

section \<open>The events\<close>

definition board_net_step :: "('d, 's, 'a) board_env \<Rightarrow> ('d, 's, 'a) board \<Rightarrow> ('d, 's, 'a) board" where
  "board_net_step P b =
     (let (p, nm) = netmgr_step (bp_net P) (bp_nvs P) (bp_build P) (bd_point b, bd_nm b)
      in b\<lparr>bd_point := p, bd_nm := nm\<rparr>)"

text \<open>\<open>main\<close> waits for the network once; afterwards the two network tasks exist.\<close>

definition board_main :: "('d, 's, 'a) board \<Rightarrow> ('d, 's, 'a) board" where
  "board_main b =
     (if bd_online b then b
      else let (ok, nm) = netmgr_wait_ready (bd_nm b) in b\<lparr>bd_nm := nm, bd_online := ok\<rparr>)"

text \<open>The TCP task connects when it has no connection; a connection starts with the handshake.\<close>

definition board_connect ::
    "('d, 's, 'a) board_env \<Rightarrow> gw_env \<Rightarrow> int \<Rightarrow> int \<Rightarrow> ('d, 's, 'a) board \<Rightarrow> ('d, 's, 'a) board" where
  "board_connect P env sock conn b =
     (if \<not> bd_online b \<or> bd_tcp b \<noteq> Idle then b
      else if sock < 0 then b
      else case nd_pton (bp_net P) (fst (tcp_peer (bp_tcp P) (bd_nm b))) of
             None \<Rightarrow> b
           | Some addr \<Rightarrow>
               if conn \<noteq> 0
               then b\<lparr>bd_gw := tcp_comm_error (bd_gw b),
                      bd_nm := netmgr_notify_tcp_connect_fail (bp_net P) (bp_build P) (bd_nm b)\<rparr>
               else let (phase, gw) = tcp_open env (bp_connect P) (bd_gw b)
                    in b\<lparr>bd_tcp := phase, bd_gw := gw, bd_nm := netmgr_notify_tcp_connect_ok (bd_nm b)\<rparr>)"

definition board_poll ::
    "('d, 's, 'a) board_env \<Rightarrow> gw_env \<Rightarrow> sock_event \<Rightarrow> ('d, 's, 'a) board \<Rightarrow> ('d, 's, 'a) board" where
  "board_poll P env ev b =
     (let (phase, gw) = tcp_event env (bp_connect P) ev (bd_tcp b, bd_gw b)
      in b\<lparr>bd_tcp := phase, bd_gw := gw\<rparr>)"

definition board_udp_start ::
    "('d, 's, 'a) board_env \<Rightarrow> int \<Rightarrow> int \<Rightarrow> ('d, 's, 'a) board \<Rightarrow> ('d, 's, 'a) board" where
  "board_udp_start P fd bind_result b =
     (if \<not> bd_online b \<or> bd_udp_task b \<noteq> Udp_off then b
      else
        let (peer, err) = udp_task_init (bp_net P) (bp_udp P) (bp_build P) fd bind_result (bd_nm b)
                            (gw_err (bd_gw b))
        in b\<lparr>bd_gw := (bd_gw b)\<lparr>gw_err := err\<rparr>,
             bd_udp_task := (case peer of None \<Rightarrow> Udp_ended | Some a \<Rightarrow> Udp_running a)\<rparr>)"

text \<open>What a pass of the UDP task finds in the state of the other tasks.\<close>

definition board_turn :: "('d, 's, 'a) board \<Rightarrow> udp_rx \<Rightarrow> int \<Rightarrow> udp_turn" where
  "board_turn b rx sent =
     \<lparr>ut_gate = gw_gate (bd_gw b), ut_active = netmgr_active_iface (bd_nm b), ut_adc = bd_adc b,
      ut_rx = rx, ut_sent = sent, ut_err = (\<lambda>e. gw_err (bd_gw b))\<rparr>"

definition board_udp_pass ::
    "('d, 's, 'a) board_env \<Rightarrow> udp_rx \<Rightarrow> int \<Rightarrow> ('d, 's, 'a) board \<Rightarrow> ('d, 's, 'a) board" where
  "board_udp_pass P rx sent b =
     (case bd_udp_task b of
        Udp_off \<Rightarrow> b
      | Udp_ended \<Rightarrow> b
      | Udp_running peer \<Rightarrow>
          let u = udp_loop_turn (bp_udp P) (bp_build P) peer (board_turn b rx sent) (bd_udp b)
          in b\<lparr>bd_udp := u, bd_gw := (bd_gw b)\<lparr>gw_err := udp_err u\<rparr>\<rparr>)"

definition board_adc :: "('d, 's, 'a) board_env \<Rightarrow> adc_event \<Rightarrow> ('d, 's, 'a) board \<Rightarrow> ('d, 's, 'a) board" where
  "board_adc P ev b =
     (let (a, s) = adc_handle (bp_spi P) ev (bd_spi b, bd_adc b) in b\<lparr>bd_spi := a, bd_adc := s\<rparr>)"

text \<open>A board that restarts into the other mode does nothing more in this run.\<close>

definition board_do :: "('d, 's, 'a) board_env \<Rightarrow> 'd board_event \<Rightarrow> ('d, 's, 'a) board \<Rightarrow> ('d, 's, 'a) board" where
  "board_do P ev b =
     (if bd_point b = Restart then b
      else case ev of
             Net_step \<Rightarrow> board_net_step P b
           | Net_wifi e \<Rightarrow> b\<lparr>bd_nm := (bd_nm b)\<lparr>nm_wifi := on_wifi_event e (nm_wifi (bd_nm b))\<rparr>\<rparr>
           | Net_platform f \<Rightarrow> b\<lparr>bd_nm := nm_do f (bd_nm b)\<rparr>
           | Main_wait \<Rightarrow> board_main b
           | Tcp_connect env sock conn \<Rightarrow> board_connect P env sock conn b
           | Tcp_poll env e \<Rightarrow> board_poll P env e b
           | Udp_start fd bind_result \<Rightarrow> board_udp_start P fd bind_result b
           | Udp_pass rx sent \<Rightarrow> board_udp_pass P rx sent b
           | Adc_tick \<Rightarrow> board_adc P Timer b
           | Adc_run uptime \<Rightarrow> board_adc P (Run uptime (sg_clock (gw_gate (bd_gw b)))) b)"

definition board_run :: "('d, 's, 'a) board_env \<Rightarrow> 'd board_event list \<Rightarrow> ('d, 's, 'a) board \<Rightarrow> ('d, 's, 'a) board" where
  "board_run P evs b = fold (board_do P) evs b"

text \<open>The platform converts dates in one way during a run.\<close>

definition event_timegm :: "(tm \<Rightarrow> int) \<Rightarrow> 'd board_event \<Rightarrow> bool" where
  "event_timegm timegm ev \<longleftrightarrow>
     (case ev of Tcp_connect env s c \<Rightarrow> e_timegm env = timegm | Tcp_poll env e \<Rightarrow> e_timegm env = timegm
      | _ \<Rightarrow> True)"

text \<open>An attempt of theory \<open>Tcp_Client\<close>, with the session it leads to, is a run of the board in
  which no other task comes in between.\<close>

lemma board_polls:
  "bd_point b \<noteq> Restart \<Longrightarrow>
     board_run P (map (Tcp_poll env) evs) b =
       (case fold (tcp_event env (bp_connect P)) evs (bd_tcp b, bd_gw b) of
          (phase, gw) \<Rightarrow> b\<lparr>bd_tcp := phase, bd_gw := gw\<rparr>)"
proof (induction evs arbitrary: b)
  case Nil
  show ?case by (cases b) (simp add: board_run_def)
next
  case (Cons ev evs)
  obtain ph gw where e: "tcp_event env (bp_connect P) ev (bd_tcp b, bd_gw b) = (ph, gw)" by fastforce
  have "board_run P (map (Tcp_poll env) (ev # evs)) b =
      board_run P (map (Tcp_poll env) evs) (b\<lparr>bd_tcp := ph, bd_gw := gw\<rparr>)"
    using Cons.prems e by (simp add: board_run_def board_do_def board_poll_def)
  then show ?case using Cons.IH [of "b\<lparr>bd_tcp := ph, bd_gw := gw\<rparr>"] Cons.prems e
    by (simp split: prod.split)
qed

lemma client_turn_board:
  assumes "bd_point b \<noteq> Restart" "bd_online b" "bd_tcp b = Idle"
    and turn: "tcp_client_turn (bp_net P) (bp_build P) (bp_tcp P) (bp_connect P) t (bd_gw b, bd_nm b) = (gw, nm)"
  shows "\<exists>evs. let b' = board_run P (Tcp_connect (ct_env t) (ct_socket t) (ct_connect t) #
                              map (Tcp_poll (ct_env t)) evs) b
    in bd_gw b' = gw \<and> bd_nm b' = nm"
proof -
  let ?c = "Tcp_connect (ct_env t) (ct_socket t) (ct_connect t)"
  have run: "board_run P (?c # es) b =
      board_run P es (board_connect P (ct_env t) (ct_socket t) (ct_connect t) b)" for es
    using assms(1) by (simp add: board_run_def board_do_def)
  show ?thesis
  proof (cases "ct_socket t \<ge> 0 \<and> nd_pton (bp_net P) (fst (tcp_peer (bp_tcp P) (bd_nm b))) \<noteq> None \<and>
      ct_connect t = 0")
    case False
    then have "bd_gw (board_run P [?c] b) = gw \<and> bd_nm (board_run P [?c] b) = nm"
      using assms(2,3) turn unfolding run
      by (auto simp: board_run_def board_connect_def tcp_client_turn_def split: option.splits)
    then show ?thesis by (intro exI [of _ "[]"]) simp
  next
    case True
    obtain over gw1 where h: "gw_handle_client (ct_env t) (bp_connect P) (ct_events t) (bd_gw b) = (over, gw1)"
      by fastforce
    obtain evs ph where f: "fold (tcp_event (ct_env t) (bp_connect P)) evs
        (tcp_open (ct_env t) (bp_connect P) (bd_gw b)) = (ph, gw1)"
      using connection_steps [OF h] by blast
    obtain ph0 gw0 where o: "tcp_open (ct_env t) (bp_connect P) (bd_gw b) = (ph0, gw0)" by fastforce
    let ?b = "b\<lparr>bd_tcp := ph0, bd_gw := gw0, bd_nm := netmgr_notify_tcp_connect_ok (bd_nm b)\<rparr>"
    have "board_connect P (ct_env t) (ct_socket t) (ct_connect t) b = ?b"
      using True assms(2,3) o by (auto simp: board_connect_def)
    moreover have "gw = gw1" "nm = netmgr_notify_tcp_connect_ok (bd_nm b)"
      using turn True h by (auto simp: tcp_client_turn_def split: option.splits)
    ultimately show ?thesis
      using f o assms(1) board_polls [of ?b P "ct_env t" evs] unfolding run
      by (intro exI [of _ evs]) (simp add: Let_def)
  qed
qed

section \<open>What is sent\<close>

text \<open>A datagram of the board reads back as the 28 fields of a snapshot whose eight channels are
  values of the converter between the extremes of their window, with a defined error code; the
  first field is the device code of the configuration.\<close>

definition datagram_ok :: "gw_config \<Rightarrow> bytes \<Rightarrow> bool" where
  "datagram_ok c d \<longleftrightarrow>
     (\<exists>snap ts e. snapshot_ok snap \<and> fmt_timestamp_udp17 snap = Some ts \<and> err_wf e \<and>
        mp_decode d = Some (udp_fields snap ts e, []) \<and>
        hd (udp_fields snap ts e) = MpStr (c_str (master_code c)))"

lemma snapshot_channel_volts:
  assumes "snapshot_ok snap" "i < 8" "arr \<in> {snap_raw snap, snap_min snap, snap_max snap}"
  shows "\<bar>channel_volts snap arr i\<bar> < 1000"
  using snapshot_volts [OF assms] assms(1,2) by (simp add: channel_volts_def snapshot_ok_def)

lemma datagram_of_snapshot:
  assumes "snapshot_ok snap" "\<not> ub_test_mode U" "udp_encode U snap e = Some p"
  shows "\<exists>ts. fmt_timestamp_udp17 snap = Some ts \<and> mp_decode p = Some (udp_fields snap ts e, [])"
  using encode_then_decode [OF snapshot_channel_volts [OF assms(1)], of 384 e] assms(2,3)
  by (auto simp: udp_encode_def)

lemma udp_turn_err_wf:
  "err_wf (ut_err t (udp_err s)) \<Longrightarrow> err_wf (udp_err (udp_loop_turn U B peer t s))"
proof -
  assume w: "err_wf (ut_err t (udp_err s))"
  have rx: "udp_err (udp_try_rx U t s) = udp_err s" for s :: udp_state
    by (simp add: udp_try_rx_def udp_emit_def Let_def split: udp_rx.split)
  show ?thesis
    using w by (auto simp: udp_loop_turn_def udp_send_def udp_emit_def rx Let_def split: option.split)
qed

lemma board_turn_simps [simp]:
  "ut_gate (board_turn b rx sent) = gw_gate (bd_gw b)" "ut_adc (board_turn b rx sent) = bd_adc b"
  "ut_err (board_turn b rx sent) e = gw_err (bd_gw b)" "ut_sent (board_turn b rx sent) = sent"
  by (simp_all add: board_turn_def)

section \<open>The invariant of the board\<close>

text \<open>The peer of the UDP task is the one configured for the interface of the stored mode.\<close>

definition configured_peer :: "('d, 's, 'a) board_env \<Rightarrow> gw_config \<Rightarrow> sockaddr \<Rightarrow> bool" where
  "configured_peer P c a \<longleftrightarrow>
     (\<exists>ip. iface_udp_peer c (mode_iface (effective_mode (bp_build P) (net_boot_mode c))) = (ip, snd a) \<and>
        nd_pton (bp_net P) ip = Some (fst a))"

definition udp_task_ok :: "('d, 's, 'a) board_env \<Rightarrow> gw_config \<Rightarrow> ('d, 's, 'a) board \<Rightarrow> bool" where
  "udp_task_ok P c b \<longleftrightarrow>
     (udp_trace (bd_udp b) \<noteq> [] \<longrightarrow> sg_udp_allowed (gw_gate (bd_gw b))) \<and>
     (\<forall>(a, p) \<in> set (udp_sends (udp_trace (bd_udp b))). bd_udp_task b = Udp_running a \<and> datagram_ok c p) \<and>
     (\<forall>a. bd_udp_task b = Udp_running a \<longrightarrow> configured_peer P c a) \<and>
     (bd_udp_task b = Udp_off \<longrightarrow> udp_trace (bd_udp b) = [])"

definition board_inv ::
    "('d, 's, 'a) board_env \<Rightarrow> (tm \<Rightarrow> int) \<Rightarrow> 'd \<Rightarrow> 's cfg_state \<Rightarrow> ('d, 's, 'a) board \<Rightarrow> bool" where
  "board_inv P timegm d cfg b \<longleftrightarrow>
     netmgr_reach (bp_net P) (bp_nvs P) (bp_build P) d cfg (bd_point b, bd_nm b) \<and>
     gw_synced timegm (bd_gw b) \<and> phase_ok (bd_tcp b) \<and> adc_ok (bd_adc b) \<and>
     snap_line (adc_snapshot (bd_adc b)) = code_line (master_code (g_gw_config cfg)) \<and>
     udp_task_ok P (g_gw_config cfg) b \<and>
     (\<not> bd_online b \<longrightarrow> bd_tcp b = Idle \<and> bd_udp_task b = Udp_off)"

lemma board_inv_boot:
  assumes "gw_synced timegm gw"
  shows "board_inv P timegm d cfg (board_boot d cfg gw a)"
  using assms
  by (simp add: board_inv_def board_boot_def udp_task_ok_def adc_ok_init code_line_def netmgr_reach.Start)

lemma gw_synced_err:
  "gw_synced timegm gw \<Longrightarrow> err_wf e \<Longrightarrow> gw_synced timegm (gw\<lparr>gw_err := e\<rparr>)"
  by (simp add: gw_synced_def gw_wf_def)

text \<open>The parts of the invariant an event leaves alone.\<close>

lemma board_inv_net:
  assumes "board_inv P timegm d cfg b"
    and "netmgr_trans (bp_net P) (bp_nvs P) (bp_build P) (bd_point b, bd_nm b) (p, nm)"
  shows "board_inv P timegm d cfg (b\<lparr>bd_point := p, bd_nm := nm\<rparr>)"
  using assms by (auto simp: board_inv_def udp_task_ok_def intro: netmgr_reach.Step)

lemma board_inv_nm:
  assumes "board_inv P timegm d cfg b"
    and "netmgr_trans (bp_net P) (bp_nvs P) (bp_build P) (bd_point b, bd_nm b) (bd_point b, nm)"
  shows "board_inv P timegm d cfg (b\<lparr>bd_nm := nm\<rparr>)"
  using board_inv_net [OF assms] by simp

lemma board_inv_tcp:
  assumes "board_inv P timegm d cfg b" "gw_synced timegm gw \<and> phase_ok ph"
    and "sg_udp_allowed (gw_gate (bd_gw b)) \<longrightarrow> sg_udp_allowed (gw_gate gw)"
    and "bd_online b \<or> ph = Idle"
  shows "board_inv P timegm d cfg (b\<lparr>bd_tcp := ph, bd_gw := gw\<rparr>)"
  using assms by (auto simp: board_inv_def udp_task_ok_def)

lemma board_inv_connect:
  assumes i: "board_inv P timegm d cfg b" and e: "e_timegm env = timegm" and p: "bd_point b \<noteq> Restart"
  shows "board_inv P timegm d cfg (board_connect P env sock conn b)"
proof -
  let ?D = "bp_net P" and ?B = "bp_build P"
  have gw: "gw_synced (e_timegm env) (bd_gw b)" using i e by (simp add: board_inv_def)
  consider "board_connect P env sock conn b = b"
    | "bd_online b" "bd_tcp b = Idle" "board_connect P env sock conn b =
        b\<lparr>bd_gw := tcp_comm_error (bd_gw b), bd_nm := netmgr_notify_tcp_connect_fail ?D ?B (bd_nm b)\<rparr>"
    | ph gw where "bd_online b" "tcp_open env (bp_connect P) (bd_gw b) = (ph, gw)" "board_connect P env sock conn b =
        b\<lparr>bd_tcp := ph, bd_gw := gw, bd_nm := netmgr_notify_tcp_connect_ok (bd_nm b)\<rparr>"
    unfolding board_connect_def by (fastforce split: option.splits prod.splits if_splits)
  then show ?thesis
  proof cases
    case 1
    with i show ?thesis by simp
  next
    case 2
    let ?b = "b\<lparr>bd_gw := tcp_comm_error (bd_gw b)\<rparr>"
    have "board_inv P timegm d cfg (b\<lparr>bd_tcp := Idle, bd_gw := tcp_comm_error (bd_gw b)\<rparr>)"
      by (rule board_inv_tcp [OF i]) (use synced.comm_error_inv [OF gw] e in \<open>simp_all add: tcp_comm_error_def\<close>)
    moreover have "b\<lparr>bd_tcp := Idle, bd_gw := tcp_comm_error (bd_gw b)\<rparr> = ?b"
      using 2(2) by (cases b) simp
    ultimately have "board_inv P timegm d cfg ?b" by simp
    from board_inv_nm [OF this, of "netmgr_notify_tcp_connect_fail ?D ?B (bd_nm b)"]
      Tcp_fail [OF p, of ?D "bp_nvs P" ?B "bd_nm b"] 2(3)
    show ?thesis by simp
  next
    case (3 ph gw)
    have "board_inv P timegm d cfg (b\<lparr>bd_tcp := ph, bd_gw := gw\<rparr>)"
      by (rule board_inv_tcp [OF i])
        (use synced.open_inv [OF _ 3(2)] opened.open_inv [OF _ 3(2)] gw e 3(1) in auto)
    from board_inv_nm [OF this, of "netmgr_notify_tcp_connect_ok (bd_nm b)"] 3(3)
      Tcp_ok [OF p, of ?D "bp_nvs P" ?B "bd_nm b"]
    show ?thesis by simp
  qed
qed

lemma board_inv_poll:
  assumes i: "board_inv P timegm d cfg b" and e: "e_timegm env = timegm"
  shows "board_inv P timegm d cfg (board_poll P env ev b)"
proof -
  obtain ph gw where t: "tcp_event env (bp_connect P) ev (bd_tcp b, bd_gw b) = (ph, gw)" by fastforce
  have "gw_synced timegm gw \<and> phase_ok ph"
    using synced.tcp_event_inv [of env "(bd_tcp b, bd_gw b)" "bp_connect P" ev] i e t by (simp add: board_inv_def)
  moreover have "sg_udp_allowed (gw_gate (bd_gw b)) \<longrightarrow> sg_udp_allowed (gw_gate gw)"
    using opened.tcp_event_inv [of "(bd_tcp b, bd_gw b)" env "bp_connect P" ev] i t by (simp add: board_inv_def)
  moreover have "bd_online b \<or> ph = Idle" using i t by (auto simp: board_inv_def)
  ultimately have "board_inv P timegm d cfg (b\<lparr>bd_tcp := ph, bd_gw := gw\<rparr>)" by (rule board_inv_tcp [OF i])
  then show ?thesis by (simp add: board_poll_def t)
qed

lemma board_inv_udp_start:
  assumes i: "board_inv P timegm d cfg b" and c: "cfg_wf (g_gw_config cfg)"
  shows "board_inv P timegm d cfg (board_udp_start P fd bind_result b)"
proof (cases "\<not> bd_online b \<or> bd_udp_task b \<noteq> Udp_off")
  case True
  with i show ?thesis by (simp add: board_udp_start_def)
next
  case False
  obtain peer err where u: "udp_task_init (bp_net P) (bp_udp P) (bp_build P) fd bind_result (bd_nm b)
      (gw_err (bd_gw b)) = (peer, err)"
    by fastforce
  have err: "err_wf err"
    using u i by (auto simp: udp_task_init_def board_inv_def gw_synced_def gw_wf_def split: if_splits sum.splits)
  have reach: "netmgr_reach (bp_net P) (bp_nvs P) (bp_build P) d cfg (bd_point b, bd_nm b)"
    using i by (simp add: board_inv_def)
  have peer: "configured_peer P (g_gw_config cfg) a" if "peer = Some a" for a
  proof -
    have "udp_peer_apply (bp_net P) (bd_nm b) = Inr a"
      using u that by (auto simp: udp_task_init_def split: if_splits sum.splits)
    from udp_peer_of_iface [OF c reach this] show ?thesis by (simp add: configured_peer_def)
  qed
  have "udp_trace (bd_udp b) = []" using i False by (simp add: board_inv_def udp_task_ok_def)
  then show ?thesis
    using i False peer gw_synced_err [OF _ err] unfolding board_udp_start_def u
    by (auto simp: board_inv_def udp_task_ok_def split: option.splits)
qed

lemma board_inv_udp_pass:
  assumes i: "board_inv P timegm d cfg b" and c: "cfg_wf (g_gw_config cfg)"
    and U: "ub_tcp_gateway (bp_udp P)" "\<not> ub_test_mode (bp_udp P)"
  shows "board_inv P timegm d cfg (board_udp_pass P rx sent b)"
proof (cases "bd_udp_task b")
  case (Udp_running peer)
  let ?t = "board_turn b rx sent"
  define u where "u = udp_loop_turn (bp_udp P) (bp_build P) peer ?t (bd_udp b)"
  have w: "err_wf (gw_err (bd_gw b))" using i by (simp add: board_inv_def gw_synced_def gw_wf_def)
  then have err: "err_wf (udp_err u)"
    unfolding u_def by (intro udp_turn_err_wf) simp
  have op: "udp_open (bp_udp P) ?t \<longleftrightarrow> sg_udp_allowed (gw_gate (bd_gw b))"
    using U(1) by (simp add: udp_open_def)
  obtain io where io: "udp_trace u = udp_trace (bd_udp b) @ io" "\<not> udp_open (bp_udp P) ?t \<longrightarrow> io = []"
    and due: "if udp_due (bp_udp P) ?t
     then \<exists>snap p. adc_get_latest (bd_adc b) = Some snap \<and>
            udp_encode (bp_udp P) snap (gw_err (bd_gw b)) = Some p \<and> udp_sends io = [(peer, p)]
     else udp_sends io = []"
    using udp_loop_turn_sends [of "bp_udp P" "bp_build P" peer ?t "bd_udp b"]
    unfolding u_def [symmetric] board_turn_simps by blast
  have sent: "a = peer \<and> (\<exists>snap. adc_get_latest (bd_adc b) = Some snap \<and>
      udp_encode (bp_udp P) snap (gw_err (bd_gw b)) = Some p)" if "(a, p) \<in> set (udp_sends io)" for a p
    using due that by (auto split: if_splits)
  have code: "length (c_str (master_code (g_gw_config cfg))) \<le> 50"
    using c length_c_str [of 32 "master_code (g_gw_config cfg)"] by (simp add: cfg_wf_def)
  have "datagram_ok (g_gw_config cfg) p" if member: "(a, p) \<in> set (udp_sends io)" for a p
  proof -
    obtain snap where s: "adc_get_latest (bd_adc b) = Some snap"
      "udp_encode (bp_udp P) snap (gw_err (bd_gw b)) = Some p"
      using sent [OF member] by blast
    have "snapshot_ok snap" using snapshot_ok_latest [OF _ s(1)] i by (simp add: board_inv_def)
    moreover have "snap_line snap = code_line (master_code (g_gw_config cfg))"
      using latest_line [OF s(1)] i by (simp add: board_inv_def)
    ultimately show ?thesis
      using datagram_of_snapshot [OF _ U(2) s(2)] device_field [OF code] w unfolding datagram_ok_def by blast
  qed
  with sent have "\<forall>(a, p) \<in> set (udp_sends io). bd_udp_task b = Udp_running a \<and> datagram_ok (g_gw_config cfg) p"
    using Udp_running by blast
  then have "udp_task_ok P (g_gw_config cfg) (b\<lparr>bd_udp := u, bd_gw := (bd_gw b)\<lparr>gw_err := udp_err u\<rparr>\<rparr>)"
    using i io op Udp_running unfolding board_inv_def udp_task_ok_def by auto
  then show ?thesis
    using i gw_synced_err [OF _ err] Udp_running
    unfolding board_udp_pass_def Udp_running udp_task.case u_def [symmetric] Let_def board_inv_def by simp
qed (use i in \<open>simp_all add: board_udp_pass_def\<close>)

lemma board_inv_adc:
  assumes "board_inv P timegm d cfg b"
  shows "board_inv P timegm d cfg (board_adc P ev b)"
  using assms adc_handle_ok [of "(bd_spi b, bd_adc b)" "bp_spi P" ev]
    adc_handle_line [of "bp_spi P" ev "(bd_spi b, bd_adc b)"]
  by (auto simp: board_adc_def board_inv_def udp_task_ok_def split: prod.split)

lemma board_inv_main:
  assumes i: "board_inv P timegm d cfg b" and p: "bd_point b \<noteq> Restart"
  shows "board_inv P timegm d cfg (board_main b)"
proof (cases "bd_online b")
  case False
  obtain ok nm where w: "netmgr_wait_ready (bd_nm b) = (ok, nm)" by fastforce
  have "board_inv P timegm d cfg (b\<lparr>bd_nm := nm\<rparr>)"
    using board_inv_nm [OF i, of nm] Main_wait [OF p, of "bp_net P" "bp_nvs P" "bp_build P" "bd_nm b"] w by simp
  then show ?thesis using False by (auto simp: board_main_def w board_inv_def udp_task_ok_def)
qed (use i in \<open>simp add: board_main_def\<close>)

text \<open>Every event keeps the invariant.\<close>

lemma board_do_inv:
  assumes c: "cfg_wf (g_gw_config cfg)" and U: "ub_tcp_gateway (bp_udp P)" "\<not> ub_test_mode (bp_udp P)"
    and e: "event_timegm timegm ev" and i: "board_inv P timegm d cfg b"
  shows "board_inv P timegm d cfg (board_do P ev b)"
proof (cases "bd_point b = Restart")
  case False
  note p = this
  let ?D = "bp_net P" and ?N = "bp_nvs P" and ?B = "bp_build P"
  show ?thesis
  proof (cases ev)
    case Net_step
    obtain q nm where n: "netmgr_step ?D ?N ?B (bd_point b, bd_nm b) = (q, nm)" by fastforce
    then have "netmgr_trans ?D ?N ?B (bd_point b, bd_nm b) (q, nm)" by (metis Task)
    from board_inv_net [OF i this] show ?thesis by (simp add: board_do_def p Net_step board_net_step_def n)
  next
    case (Net_wifi w)
    show ?thesis using board_inv_nm [OF i Event [OF p]] by (simp add: board_do_def p Net_wifi)
  next
    case (Net_platform f)
    show ?thesis using board_inv_nm [OF i Platform [OF p]] by (simp add: board_do_def p Net_platform)
  qed (use p e board_inv_main [OF i p] board_inv_connect [OF i _ p] board_inv_poll [OF i]
      board_inv_udp_start [OF i c] board_inv_udp_pass [OF i c U] board_inv_adc [OF i]
      in \<open>simp_all add: board_do_def event_timegm_def\<close>)
qed (use i in \<open>simp add: board_do_def\<close>)

text \<open>A build with the TCP gateway and the full payload.\<close>

definition gateway_build :: "('d, 's, 'a) board_env \<Rightarrow> bool" where
  "gateway_build P \<longleftrightarrow> ub_tcp_gateway (bp_udp P) \<and> \<not> ub_test_mode (bp_udp P)"

interpretation board: event_task "event_timegm timegm"
    "\<lambda>b. (cfg_wf (g_gw_config cfg) \<and> gateway_build P) \<and> board_inv P timegm d cfg b" "board_do P"
  for timegm cfg P d
  by unfold_locales (auto simp: gateway_build_def intro: board_do_inv)

lemma closed_synced: "gw_wf gw \<Longrightarrow> \<not> sg_udp_allowed (gw_gate gw) \<Longrightarrow> gw_synced timegm gw"
  by (simp add: gw_synced_def clock_from_sync_def)

lemma board_run_inv:
  assumes "cfg_wf (g_gw_config cfg)" "gateway_build P" "gw_wf gw" "\<not> sg_udp_allowed (gw_gate gw)"
    and "list_all (event_timegm timegm) evs"
  shows "board_inv P timegm d cfg (board_run P evs (board_boot d cfg gw a))"
proof -
  have "board_inv P timegm d cfg (board_boot d cfg gw a)"
    by (rule board_inv_boot [OF closed_synced [OF assms(3,4)]])
  then show ?thesis
    unfolding board_run_def using board.run_inv [OF assms(5), of cfg P d "board_boot d cfg gw a"] assms(1,2) by blast
qed


text \<open>C4: No datagram leaves or enters the board before the server's time: as long as the gate is
  closed the UDP socket has not been touched; when anything was done on it, the clock had been set
  from a SYNC body that passed every check.  Every datagram sent went to the UDP peer configured
  for the interface of the stored mode, and it reads back as the 28 fields of a snapshot with a
  time of the board's clock and eight values of the converter, each between the extremes of its
  window, with a defined error code and the device code of the configuration.\<close>

theorem board_datagrams:
  fixes d :: 'd and a :: 'a
  assumes "cfg_wf (g_gw_config cfg)" "gateway_build P" "gw_wf gw" "\<not> sg_udp_allowed (gw_gate gw)"
    and "list_all (event_timegm timegm) evs"
  defines "b \<equiv> board_run P evs (board_boot d cfg gw a)"
  shows "(udp_trace (bd_udp b) \<noteq> [] \<longrightarrow>
      sg_udp_allowed (gw_gate (bd_gw b)) \<and>
      (\<exists>body u cl. gw_sync_body_check timegm (Some body) = GW_ERR_NONE \<and>
         sg_clock (gw_gate (bd_gw b)) = time_sync_from_tcp_timesync_body timegm u (Some body) cl)) \<and>
    (\<forall>(peer, p) \<in> set (udp_sends (udp_trace (bd_udp b))).
       configured_peer P (g_gw_config cfg) peer \<and> datagram_ok (g_gw_config cfg) p)"
proof -
  have i: "board_inv P timegm d cfg b" unfolding b_def by (rule board_run_inv [OF assms(1-5)])
  then have u: "udp_task_ok P (g_gw_config cfg) b" and c: "clock_from_sync timegm (gw_gate (bd_gw b))"
    by (simp_all add: board_inv_def gw_synced_def)
  have "\<forall>(peer, p) \<in> set (udp_sends (udp_trace (bd_udp b))).
      configured_peer P (g_gw_config cfg) peer \<and> datagram_ok (g_gw_config cfg) p"
    using u unfolding udp_task_ok_def by blast
  moreover have "udp_trace (bd_udp b) \<noteq> [] \<longrightarrow> sg_udp_allowed (gw_gate (bd_gw b))"
    using u unfolding udp_task_ok_def by blast
  ultimately show ?thesis using c unfolding clock_from_sync_def by blast
qed

section \<open>From the synchronisation to the first datagram\<close>

text \<open>The SYNC that ends a handshake.\<close>

lemma handshake_sync_event:
  assumes "gw_sync_body_check (e_timegm env) (Some body) = GW_ERR_NONE"
  obtains st' where "tcp_event env c (Recv (sync_frame q body)) (Handshake nxt [], st) = (Session [], st')"
    "gw_err st' = GW_ERR_NONE"
    "gw_gate st' = sg_timesync_from_tcp_notify (e_timegm env) (e_uptime env (gw_tick st)) (Some (take 9 body))
       (gw_gate st)"
proof -
  have len: "length body = 14" using assms unfolding sync_body_check_ok by blast
  let ?f = "sync_frame q body"
  have f: "length ?f = 18" "?f \<noteq> []" using len by (simp_all add: sync_frame_def)
  let ?st = "gw_apply_sync_and_rs232 env (Some body) q st"
  have "tcp_event env c (Recv ?f) (Handshake nxt [], st) =
      (Session [], ?st\<lparr>gw_err := gw_error_clear (gw_err ?st)\<rparr>)"
    using f by (simp add: handshake_event_def process_sync_frame [OF len])
  then show thesis
    by (rule that) (simp_all add: gw_error_clear_def apply_sync_gate [OF assms])
qed

text \<open>A pass of the UDP task that finds a snapshot behind an open gate.\<close>

lemma board_pass_sends:
  assumes "gateway_build P" "bd_udp_task b = Udp_running peer" "sg_udp_allowed (gw_gate (bd_gw b))"
    and "adc_get_latest (bd_adc b) = Some snap" "snapshot_ok snap"
  obtains p ts where
    "udp_sends (udp_trace (bd_udp (board_udp_pass P rx n b))) = udp_sends (udp_trace (bd_udp b)) @ [(peer, p)]"
    "fmt_timestamp_udp17 snap = Some ts" "mp_decode p = Some (udp_fields snap ts (gw_err (bd_gw b)), [])"
proof -
  let ?U = "bp_udp P" and ?t = "board_turn b rx n"
  have enc: "udp_encode ?U snap e = msgpack_encode_adc_snapshot (Some snap) 384 e" for e
    using assms(1) by (simp add: gateway_build_def udp_encode_def)
  obtain p ts where p: "udp_encode ?U snap (gw_err (bd_gw b)) = Some p" "fmt_timestamp_udp17 snap = Some ts"
    "mp_decode p = Some (udp_fields snap ts (gw_err (bd_gw b)), [])"
    using encode_stamped [OF assms(5)] unfolding enc by blast
  have "udp_encode ?U snap 0 \<noteq> None"
    using p(1) udp_encode_err [of ?U snap 0 "gw_err (bd_gw b)"] by simp
  then have due: "udp_due ?U ?t" using assms(3,4) by (simp add: udp_due_def udp_open_def)
  obtain io where "udp_trace (udp_loop_turn ?U (bp_build P) peer ?t (bd_udp b)) = udp_trace (bd_udp b) @ io"
    "udp_sends io = [(peer, p)]"
    using udp_loop_turn_sends [of ?U "bp_build P" peer ?t "bd_udp b"] due p(1) assms(4) by auto
  with that p show thesis by (simp add: board_udp_pass_def assms(2) Let_def)
qed

lemma first_datagram:
  assumes gb: "gateway_build P" and i: "board_inv P (e_timegm env) d cfg b"
    and st: "bd_point b \<noteq> Restart" "bd_tcp b = Handshake nxt []" "bd_udp_task b = Udp_running peer"
      "0 < adc_sample_sem (bd_adc b)"
    and tm: "timegm_posix (e_timegm env)"
    and chk: "gw_sync_body_check (e_timegm env) (Some body) = GW_ERR_NONE"
    and day: "unat (body ! 3) \<le> month_lens (unat (sys_get_be16 (body ! 0) (body ! 1))) ! (unat (body ! 2) - 1)"
    and dev: "read_ahead (bp_spi P) sel conv"
  shows "\<exists>snap ts p. udp_sends (udp_trace (bd_udp (board_run P [Tcp_poll env (Recv (sync_frame q body)),
           Adc_run (e_uptime env (gw_tick (bd_gw b))), Udp_pass rx n] b))) =
         udp_sends (udp_trace (bd_udp b)) @ [(peer, p)] \<and>
       mp_decode p = Some (udp_fields snap ts GW_ERR_NONE, []) \<and> fmt_timestamp_udp17 snap = Some ts \<and>
       snap_datetime snap = sync_body_datetime body \<and>
       snap_msec snap = sys_get_be16 (body ! 7) (body ! 8) \<and>
       snap_raw snap = map (\<lambda>i. of_int (result_code (conv i)) * 5 / 1024) [0..<8]"
proof -
  let ?u = "e_uptime env (gw_tick (bd_gw b))" and ?vs = "map (\<lambda>i. of_int (result_code (conv i)) * 5 / 1024) [0..<8]"
  obtain st' where sync: "tcp_event env (bp_connect P) (Recv (sync_frame q body)) (Handshake nxt [], bd_gw b) =
      (Session [], st')" "gw_err st' = GW_ERR_NONE"
    and gate: "gw_gate st' = sg_timesync_from_tcp_notify (e_timegm env) ?u (Some (take 9 body)) (gw_gate (bd_gw b))"
    by (rule handshake_sync_event [OF chk])
  let ?cl = "time_sync_from_tcp_timesync_body (e_timegm env) ?u (Some body) (sg_clock (gw_gate (bd_gw b)))"
  have len: "length body = 14" and ok: "wire_time_ok (take 9 body)"
    using chk unfolding sync_body_check_ok by blast+
  have cl: "sg_clock (gw_gate st') = ?cl" "sg_udp_allowed (gw_gate st')"
    using len by (simp_all add: gate sg_timesync_from_tcp_notify_def sg_udp_allowed_def time_sync_take_9)
  have now: "get_datetime_ms ?u ?cl = (sync_body_datetime body, sys_get_be16 (body ! 7) (body ! 8))"
    by (rule sync_then_datetime [OF tm _ ok day]) (use len in simp)
  obtain sp where rd: "ad7327_read_all (bp_spi P) (bd_spi b) = (Inr ?vs, sp)"
    using read_all_channels [OF dev, of "bd_spi b"] by (metis prod.collapse)
  let ?s = "adc_accept ?vs (get_datetime_ms ?u ?cl) ((bd_adc b)\<lparr>adc_sample_sem := adc_sample_sem (bd_adc b) - 1\<rparr>)"
  define b2 where "b2 = b\<lparr>bd_tcp := Session [], bd_gw := st', bd_spi := sp, bd_adc := ?s\<rparr>"
  have step: "adc_handle (bp_spi P) (Run ?u ?cl) (bd_spi b, bd_adc b) = (sp, ?s)"
    using st(4) rd by (simp add: adc_process_one_sample_def)
  have b': "board_run P [Tcp_poll env (Recv (sync_frame q body)), Adc_run ?u, Udp_pass rx n] b =
      board_udp_pass P rx n b2"
    using st(1,2) sync(1) cl step unfolding b2_def board_run_def by (simp add: board_do_def board_poll_def board_adc_def)
  have "adc_ok ?s"
    using adc_handle_ok [of "(bd_spi b, bd_adc b)" "bp_spi P" "Run ?u ?cl"] i step by (simp add: board_inv_def)
  moreover obtain snap where snap: "adc_get_latest ?s = Some snap" by (simp add: adc_get_latest_def)
  ultimately have sok: "snapshot_ok snap" by (rule snapshot_ok_latest)
  have fields: "snap_raw snap = ?vs" "snap_datetime snap = sync_body_datetime body"
    "snap_msec snap = sys_get_be16 (body ! 7) (body ! 8)"
    using snap now by (auto simp: adc_get_latest_def)
  have run: "bd_udp_task b2 = Udp_running peer" "sg_udp_allowed (gw_gate (bd_gw b2))"
    "adc_get_latest (bd_adc b2) = Some snap" "bd_udp b2 = bd_udp b" "gw_err (bd_gw b2) = GW_ERR_NONE"
    using st(3) cl(2) snap sync(2) by (simp_all add: b2_def)
  obtain p ts where "udp_sends (udp_trace (bd_udp (board_udp_pass P rx n b2))) = udp_sends (udp_trace (bd_udp b)) @ [(peer, p)]"
    "fmt_timestamp_udp17 snap = Some ts" "mp_decode p = Some (udp_fields snap ts GW_ERR_NONE, [])"
    using board_pass_sends [OF gb run(1-3) sok, of rx n] unfolding run(4,5) by blast
  with fields show ?thesis unfolding b' by blast
qed


section \<open>A closed example\<close>

text \<open>A board with the Ethernet link of theory \<open>Net_Manager\<close>, the converter of theory \<open>Adc\<close> and a
  socket that takes everything; \<open>sample_start\<close> brings it to the handshake with the UDP task
  running and one sample due.\<close>

definition sample_board_env :: "(nat, nat \<Rightarrow> bytes option, nat) board_env" where
  "sample_board_env =
     \<lparr>bp_net = sample_net 20000, bp_nvs = ram_nvs, bp_build = sample_build, bp_tcp = sample_tcp_build,
      bp_udp = sample_udp_build, bp_spi = sample_spi, bp_connect = [0x41]\<rparr>"

definition sample_start :: "nat board_event list" where
  "sample_start = [Net_step, Main_wait, Udp_start 3 0, Tcp_connect sample_env 3 0, Adc_tick]"

definition sample_board :: "(nat, nat \<Rightarrow> bytes option, nat) board" where
  "sample_board = board_boot 0 sample_cfg_state gw_boot 3"

definition sample_sync_body :: bytes where
  "sample_sync_body = [0x07, 0xE8, 2, 29, 23, 59, 58, 0x03, 0xE7, 1, 1, 0, 0, 0]"

lemma sample_sync_checked: "gw_sync_body_check (e_timegm sample_env) (Some sample_sync_body) = GW_ERR_NONE"
proof -
  have "posix_timegm t \<noteq> - 1" for t by (simp add: posix_timegm_def)
  then show ?thesis
    unfolding sync_body_check_ok sample_sync_body_def
    by (simp add: wire_time_ok_def wire_cfg_ok_def sys_get_be16_def sample_env_def)
qed

lemma sample_board_facts:
  "gateway_build sample_board_env" "gw_wf gw_boot" "\<not> sg_udp_allowed (gw_gate gw_boot)"
  "list_all (event_timegm (e_timegm sample_env)) sample_start"
  by (simp_all add: gateway_build_def sample_board_env_def sample_udp_build_def gw_wf_boot)
    (simp_all add: gw_boot_def sg_init_def sg_udp_allowed_def sample_start_def event_timegm_def)

lemma sample_started:
  fixes cfg :: "(nat \<Rightarrow> bytes option) cfg_state"
  assumes cfg: "g_gw_config cfg = sample_c\<lparr>master_code := mc\<rparr>" "cfg_wf (g_gw_config cfg)"
  shows "\<exists>nxt nm. let b = board_run sample_board_env sample_start (board_boot 0 cfg gw 3)
    in bd_point b = Eth_service (Some 2) \<and> bd_tcp b = Handshake nxt [] \<and> bd_udp_task b = Udp_running (0, 5001) \<and>
       adc_sample_sem (bd_adc b) = 1 \<and> bd_online b \<and> udp_trace (bd_udp b) = [] \<and>
       netmgr_step (sample_net 20000) ram_nvs sample_build (Cycle, netmgr_boot 0 cfg) = (Eth_service (Some 2), nm) \<and>
       netmgr_wait_ready nm = (True, nm)"
proof -
  let ?P = sample_board_env and ?D = "sample_net 20000"
  have boot: "nm_gw (netmgr_boot (0::nat) cfg) = sample_c\<lparr>master_code := mc\<rparr>" "nm_dev (netmgr_boot (0::nat) cfg) = 0"
    using cfg(1) by (simp_all add: netmgr_boot_def wifi_boot_def)
  obtain nm where st: "netmgr_step ?D ram_nvs sample_build (Cycle, netmgr_boot 0 cfg) =
      (Eth_service (Some 2), nm)" "netmgr_active_iface nm = NETMGR_IFACE_ETH"
    using sample_cycle [OF boot, of 20000 ram_nvs] by auto
  have r: "netmgr_reach ?D ram_nvs sample_build 0 cfg (Eth_service (Some 2), nm)"
    unfolding st(1) [symmetric] by (rule Step [OF Start Task])
  have ready: "netmgr_wait_ready nm = (True, nm)"
    using netmgr_reach_inv [OF cfg(2) r] by (simp add: netmgr_inv_def netmgr_wait_ready_def)
  obtain m where m: "nm_gw nm = sample_c\<lparr>master_code := mc, net_boot_mode := m\<rparr>"
    using netmgr_reach_inv [OF cfg(2) r] by (auto simp: netmgr_inv_def cfg(1))
  have c: "c_str (eth_udp_server_ip sample_c) = [0x35]" "eth_udp_server_port sample_c = 5001"
    "c_str (eth_tcp_server_ip sample_c) = [0x34]" "eth_tcp_server_port sample_c = 5000"
    by code_simp+
  have udp: "udp_task_init ?D sample_udp_build sample_build 3 0 nm e = (Some (0, 5001), e)" for e
    using st(2) m c by (simp add: udp_task_init_def udp_bind_port_active_def sample_udp_build_def
        udp_peer_apply_def netmgr_active_iface_def netmgr_udp_peer_ip_def netmgr_udp_peer_port_def
        Let_def) (simp add: sample_net_def)
  have tcp: "nd_pton ?D (fst (tcp_peer sample_tcp_build nm)) = Some 0"
    using st(2) m c by (simp add: tcp_peer_def netmgr_active_iface_def netmgr_tcp_peer_ip_def
        netmgr_tcp_peer_port_def Let_def) (simp add: sample_net_def)
  obtain nxt st1 where op: "tcp_open sample_env [0x41] gw = (Handshake nxt [], st1)"
    using sample_announce [of 0 gw] by (auto simp: tcp_open_def tcp_await_sync_def)
  show ?thesis
    using st udp tcp ready op
    unfolding board_run_def sample_start_def board_boot_def sample_board_env_def
    by (simp add: board_do_def board_net_step_def board_main_def board_udp_start_def board_connect_def
        board_adc_def adc_sample_timer_handler_def adc_task_init_def adc_boot_def Let_def)
qed

lemma sample_board_started:
  "\<exists>nxt. bd_point (board_run sample_board_env sample_start sample_board) = Eth_service (Some 2) \<and>
     bd_tcp (board_run sample_board_env sample_start sample_board) = Handshake nxt [] \<and>
     bd_udp_task (board_run sample_board_env sample_start sample_board) = Udp_running (0, 5001) \<and>
     adc_sample_sem (bd_adc (board_run sample_board_env sample_start sample_board)) = 1 \<and>
     bd_online (board_run sample_board_env sample_start sample_board) \<and>
     udp_trace (bd_udp (board_run sample_board_env sample_start sample_board)) = []"
  using sample_started [of sample_cfg_state "master_code sample_c" gw_boot] sample_facts(2)
  by (auto simp: sample_board_def Let_def)

text \<open>The three events of the last property, at the uptime of the sample board.\<close>

definition sample_rest :: "nat board_event list" where
  "sample_rest =
     [Tcp_poll sample_env (Recv (sync_frame 7 sample_sync_body)),
      Adc_run (e_uptime sample_env (gw_tick (bd_gw (board_run sample_board_env sample_start sample_board)))),
      Udp_pass Rx_none 180]"

lemma sample_board_inv:
  "board_inv sample_board_env (e_timegm sample_env) 0 sample_cfg_state
     (board_run sample_board_env sample_start sample_board)"
  unfolding sample_board_def
  by (rule board_run_inv [OF sample_facts(2) sample_board_facts(1-3) sample_board_facts(4)])

lemma sample_converter:
  "read_ahead (bp_spi sample_board_env) id
     (\<lambda>i. [0x0FFE, 0x1000, 0x0002, 0x1FFE, 0, 0x0010, 0x0020, 0x0800] ! i)"
  by (simp add: sample_board_env_def read_ahead_def sample_spi_def)

lemma sample_sync_day:
  "unat (sample_sync_body ! 3) \<le>
     month_lens (unat (sys_get_be16 (sample_sync_body ! 0) (sample_sync_body ! 1))) ! (unat (sample_sync_body ! 2) - 1)"
  by (simp add: sample_sync_body_def month_lens_def leap_def sys_get_be16_def)

lemma sample_timegm: "timegm_posix (e_timegm sample_env)"
  by (simp add: sample_env_def timegm_posix_posix_timegm)

lemma sample_rest_events: "list_all (event_timegm (e_timegm sample_env)) (sample_start @ sample_rest)"
  using sample_board_facts(4) by (simp add: sample_rest_def event_timegm_def)

lemma board_run_append: "board_run P (xs @ ys) b = board_run P ys (board_run P xs b)"
  by (simp add: board_run_def)


lemma board_datagrams_witness:
  "\<exists>p. ((0, 5001), p) \<in> set (udp_sends (udp_trace (bd_udp
       (board_run sample_board_env (sample_start @ sample_rest) sample_board)))) \<and> datagram_ok sample_c p \<and>
     sg_udp_allowed (gw_gate (bd_gw (board_run sample_board_env (sample_start @ sample_rest) sample_board)))"
proof -
  let ?b = "board_run sample_board_env sample_start sample_board"
  let ?b' = "board_run sample_board_env (sample_start @ sample_rest) sample_board"
  obtain nxt where b: "bd_point ?b \<noteq> Restart" "bd_tcp ?b = Handshake nxt []"
    "bd_udp_task ?b = Udp_running (0, 5001)" "0 < adc_sample_sem (bd_adc ?b)"
    using sample_board_started by auto
  have e: "?b' = board_run sample_board_env sample_rest ?b" by (rule board_run_append)
  obtain p where "udp_sends (udp_trace (bd_udp ?b')) = udp_sends (udp_trace (bd_udp ?b)) @ [((0, 5001), p)]"
    using first_datagram [OF sample_board_facts(1) sample_board_inv b sample_timegm sample_sync_checked
        sample_sync_day sample_converter, of 7 Rx_none 180, folded sample_rest_def]
    unfolding e by blast
  then have p: "((0, 5001), p) \<in> set (udp_sends (udp_trace (bd_udp ?b')))" by simp
  then have "udp_trace (bd_udp ?b') \<noteq> []" by auto
  with p board_datagrams [OF sample_facts(2) sample_board_facts(1-3) sample_rest_events, of 0 3] show ?thesis
    by (auto simp: sample_board_def)
qed


end
