(* ===== verification/Rs232_Polled.thy ===== *)
theory Rs232_Polled
  imports Rs232
begin

text \<open>
  \<^verbatim>\<open>src/rs232.c\<close> in the build without \<open>CONFIG_UART_INTERRUPT_DRIVEN\<close>: no ring and no interrupt
  handler, every byte is read with \<open>uart_poll_in\<close>, and nothing is switched off or thrown away
  around a transmission.  The definitions follow the other branch of the file's conditionals; the
  state has no ring, and a turn of the script has no interrupts.  What does not depend on the
  build (frames, settings, the reconfiguration loop) is that of \<open>Rs232\<close>.

  The build is then shown to be a refinement of the interrupt-driven one: each of its runs is a
  run of the other on a line where no interrupt fires.
\<close>

section \<open>State\<close>

record polled_state =
  pl_abort :: bool
  pl_protocol :: "u8 list"
  pl_dev :: "device option list"
  pl_wire :: "(device \<times> u8) list"

record poll_turn =
  p_now :: int
  p_byte :: "u8 option"
  p_abort :: bool

definition polled_boot :: polled_state where
  "polled_boot = \<lparr>pl_abort = False, pl_protocol = [0, 0], pl_dev = [None, None], pl_wire = []\<rparr>"

definition polled_ports_init :: "device option \<Rightarrow> device option \<Rightarrow> polled_state \<Rightarrow> polled_state" where
  "polled_ports_init node0 node1 s = s\<lparr>pl_dev := [node0, node1], pl_protocol := [0x01, 0x01]\<rparr>"

definition polled_reconfigure ::
    "(nat \<Rightarrow> reconf_attempt) \<Rightarrow> nat \<Rightarrow> rs232_remote_cfg option \<Rightarrow> polled_state \<Rightarrow> bool \<times> polled_state" where
  "polled_reconfigure env port_id cfgp s =
     (case cfgp of
        None \<Rightarrow> (False, s)
      | Some cfg \<Rightarrow>
          if port_id \<ge> RS232_MAX_PORTS then (False, s)
          else case pl_dev s ! port_id of
                 None \<Rightarrow> (False, s)
               | Some dev \<Rightarrow>
                   (case rs232_uart_config cfg of
                      None \<Rightarrow> (False, s)
                    | Some ucfg \<Rightarrow>
                        let (ok, aborted) = reconf_loop (pl_abort s) 3 dev ucfg 1 env
                        in if ok
                           then (True, s\<lparr>pl_abort := aborted,
                                  pl_protocol := (pl_protocol s)[port_id := rc_protocol cfg]\<rparr>)
                           else (False, s\<lparr>pl_abort := aborted\<rparr>)))"

section \<open>Sending, reading and discarding\<close>

definition polled_send :: "nat \<Rightarrow> bytes \<Rightarrow> polled_state \<Rightarrow> errno option \<times> polled_state" where
  "polled_send port_id data s =
     (if data = [] \<or> port_id \<ge> RS232_MAX_PORTS then (Some EINVAL, s)
      else case pl_dev s ! port_id of
             None \<Rightarrow> (Some ENODEV, s)
           | Some dev \<Rightarrow> (None, s\<lparr>pl_wire := pl_wire s @ map (Pair dev) data\<rparr>))"

text \<open>An attempt to read: another thread may have set the flag before it; what it gives is what
  \<open>uart_poll_in\<close> gives.\<close>

definition poll_begin :: "poll_turn \<Rightarrow> polled_state \<Rightarrow> polled_state" where
  "poll_begin t s = s\<lparr>pl_abort := pl_abort s \<or> p_abort t\<rparr>"

definition polled_rx_try_byte :: "poll_turn \<Rightarrow> u8 option" where
  "polled_rx_try_byte t = p_byte t"

fun polled_drain :: "poll_turn list \<Rightarrow> polled_state \<Rightarrow> poll_turn list \<times> polled_state" where
  "polled_drain [] s = ([], s)"
| "polled_drain (t # ts) s =
     (if p_byte t = None then (ts, poll_begin t s) else polled_drain ts (poll_begin t s))"

fun polled_discard_loop ::
    "int \<Rightarrow> int \<Rightarrow> int \<Rightarrow> bool \<Rightarrow> poll_turn list \<Rightarrow> polled_state \<Rightarrow> poll_turn list \<times> polled_state" where
  "polled_discard_loop idle_ms t_end idle_since burst [] s = ([], s)"
| "polled_discard_loop idle_ms t_end idle_since burst (t # ts) s =
     (if \<not> burst \<and> p_now t \<ge> t_end then (t # ts, s)
      else
        case polled_rx_try_byte t of
          Some ch \<Rightarrow> polled_discard_loop idle_ms t_end (p_now t) True ts (poll_begin t s)
        | None \<Rightarrow>
            if burst then polled_discard_loop idle_ms t_end idle_since False ts (poll_begin t s)
            else if p_now t - idle_since \<ge> idle_ms then (ts, poll_begin t s)
            else polled_discard_loop idle_ms t_end idle_since False ts (poll_begin t s))"

definition polled_discard :: "int \<Rightarrow> int \<Rightarrow> poll_turn list \<Rightarrow> polled_state \<Rightarrow> poll_turn list \<times> polled_state" where
  "polled_discard idle_ms cap_ms ts s =
     (case ts of
        [] \<Rightarrow> ([], s)
      | t # _ \<Rightarrow> polled_discard_loop idle_ms (p_now t + cap_ms) (p_now t) False ts s)"

definition polled_prepare_tx_bus ::
    "int \<Rightarrow> int \<Rightarrow> poll_turn list \<Rightarrow> polled_state \<Rightarrow> poll_turn list \<times> polled_state" where
  "polled_prepare_tx_bus idle_ms cap_ms ts s =
     (let (ts', s') = polled_drain ts s;
          had = (case ts of [] \<Rightarrow> False | t # _ \<Rightarrow> p_byte t \<noteq> None)
      in if had then polled_discard idle_ms cap_ms ts' s' else (ts', s'))"

text \<open>Nothing is cleared between the sending and the reception.\<close>

definition polled_transmit ::
    "nat \<Rightarrow> bytes \<Rightarrow> poll_turn list \<Rightarrow> polled_state \<Rightarrow> errno option \<times> poll_turn list \<times> polled_state" where
  "polled_transmit port_id tx ts s =
     (let (ts1, s1) = polled_prepare_tx_bus 100 800 ts s
      in case polled_send port_id tx s1 of
           (Some e, s2) \<Rightarrow> let (ts3, s3) = polled_drain ts1 s2 in (Some EIO, ts3, s3)
         | (None, s2) \<Rightarrow> (None, ts1, s2))"

section \<open>Receiving in RTU mode\<close>

fun polled_first_loop ::
    "int \<Rightarrow> poll_turn list \<Rightarrow> polled_state \<Rightarrow> (errno + u8 option) \<times> poll_turn list \<times> polled_state" where
  "polled_first_loop deadline [] s = (Inr None, [], s)"
| "polled_first_loop deadline (t # ts) s =
     (if p_now t \<ge> deadline then (Inr None, t # ts, s)
      else if pl_abort (poll_begin t s)
      then let (ts', s') = polled_drain ts (poll_begin t s) in (Inl ECANCELED, ts', s')
      else
        case polled_rx_try_byte t of
          Some ch \<Rightarrow> (Inr (Some ch), ts, poll_begin t s)
        | None \<Rightarrow> polled_first_loop deadline ts (poll_begin t s))"

text \<open>The pause between two attempts is a busy wait of 50 microseconds while the response is
  fresh and a sleep of a millisecond otherwise: it shows only in the time of the next turn.\<close>

fun polled_more_loop ::
    "int \<Rightarrow> nat \<Rightarrow> int \<Rightarrow> bool \<Rightarrow> bytes \<Rightarrow> poll_turn list \<Rightarrow> polled_state \<Rightarrow>
       (errno + bytes) \<times> poll_turn list \<times> polled_state" where
  "polled_more_loop deadline max_rx expected inner resp [] s = (Inr resp, [], s)"
| "polled_more_loop deadline max_rx expected inner resp (t # ts) s =
     (if \<not> inner \<and> (p_now t \<ge> deadline \<or> length resp \<ge> max_rx) then (Inr resp, t # ts, s)
      else
        let c = polled_rx_try_byte t; s1 = poll_begin t s
        in if c \<noteq> None \<and> length resp < max_rx
           then polled_more_loop deadline max_rx expected True (resp @ [the c]) ts s1
           else if expected > 0 \<and> int (length resp) \<ge> expected then (Inr resp, ts, s1)
           else if expected \<le> 0 \<and> length resp \<ge> 5 then (Inr resp, ts, s1)
           else if pl_abort s1
           then let (ts', s') = polled_drain ts s1 in (Inl ECANCELED, ts', s')
           else polled_more_loop deadline max_rx expected False resp ts s1)"

fun polled_tail_loop :: "bool \<Rightarrow> poll_turn list \<Rightarrow> polled_state \<Rightarrow> bool \<times> poll_turn list \<times> polled_state" where
  "polled_tail_loop tr [] s = (tr, [], s)"
| "polled_tail_loop tr (t # ts) s =
     (case polled_rx_try_byte t of
        Some ch \<Rightarrow> polled_tail_loop True ts (poll_begin t s)
      | None \<Rightarrow> (tr, ts, poll_begin t s))"

definition polled_deadline :: "poll_turn list \<Rightarrow> int" where
  "polled_deadline ts = (case ts of [] \<Rightarrow> 0 | t # _ \<Rightarrow> p_now t + RS232_MODBUS_RX_TMO_MS)"

definition polled_fail ::
    "errno \<Rightarrow> poll_turn list \<Rightarrow> polled_state \<Rightarrow> (errno + bytes) \<times> poll_turn list \<times> polled_state" where
  "polled_fail e ts s = (let (ts', s') = polled_drain ts s in (Inl e, ts', s'))"

definition polled_rtu_finish ::
    "bytes \<Rightarrow> bytes \<Rightarrow> poll_turn list \<Rightarrow> polled_state \<Rightarrow> (errno + bytes) \<times> poll_turn list \<times> polled_state" where
  "polled_rtu_finish req resp ts s =
     (case rs232_modbus_finalize_response req resp of
        Inl e \<Rightarrow> polled_fail e ts s
      | Inr out \<Rightarrow>
          let (tr, ts1, s1) = polled_tail_loop False ts s;
              (ts2, s2) = (if tr then polled_discard 40 120 ts1 s1 else (ts1, s1))
          in (Inr out, ts2, s2))"

definition polled_rtu_receive ::
    "bytes \<Rightarrow> nat \<Rightarrow> poll_turn list \<Rightarrow> polled_state \<Rightarrow> (errno + bytes) \<times> poll_turn list \<times> polled_state" where
  "polled_rtu_receive req resp_cap ts s =
     (let max_rx = min resp_cap RS232_MODBUS_RX_MAX;
          deadline = polled_deadline ts;
          expected = rs232_modbus_expected_resp_len_from_req req
      in case polled_first_loop deadline ts s of
           (Inl e, ts1, s1) \<Rightarrow> (Inl e, ts1, s1)
         | (Inr None, ts1, s1) \<Rightarrow> polled_fail ETIMEDOUT ts1 s1
         | (Inr (Some ch), ts1, s1) \<Rightarrow>
             (case polled_more_loop deadline max_rx expected False [ch] ts1 s1 of
                (Inl e, ts2, s2) \<Rightarrow> (Inl e, ts2, s2)
              | (Inr resp, ts2, s2) \<Rightarrow> polled_rtu_finish req resp ts2 s2))"

section \<open>Receiving in ASCII mode\<close>

fun polled_colon_loop ::
    "int \<Rightarrow> poll_turn list \<Rightarrow> polled_state \<Rightarrow> (errno + bool) \<times> poll_turn list \<times> polled_state" where
  "polled_colon_loop deadline [] s = (Inr False, [], s)"
| "polled_colon_loop deadline (t # ts) s =
     (if p_now t \<ge> deadline then (Inr False, t # ts, s)
      else if pl_abort (poll_begin t s)
      then let (ts', s') = polled_drain ts (poll_begin t s) in (Inl ECANCELED, ts', s')
      else if polled_rx_try_byte t = Some colon then (Inr True, ts, poll_begin t s)
      else polled_colon_loop deadline ts (poll_begin t s))"

fun polled_collect_loop ::
    "int \<Rightarrow> bytes \<Rightarrow> poll_turn list \<Rightarrow> polled_state \<Rightarrow>
       (errno + bool \<times> bytes) \<times> poll_turn list \<times> polled_state" where
  "polled_collect_loop deadline rx [] s = (Inr (False, rx), [], s)"
| "polled_collect_loop deadline rx (t # ts) s =
     (if p_now t \<ge> deadline \<or> length rx \<ge> RS232_ASCII_FRAME_MAX then (Inr (False, rx), t # ts, s)
      else if pl_abort (poll_begin t s)
      then let (ts', s') = polled_drain ts (poll_begin t s) in (Inl ECANCELED, ts', s')
      else
        case polled_rx_try_byte t of
          Some ch \<Rightarrow>
            let rx' = rx @ [ch]
            in if length rx' \<ge> 2 \<and> rx' ! (length rx' - 2) = cr \<and> rx' ! (length rx' - 1) = lf
               then (Inr (True, rx'), ts, poll_begin t s)
               else polled_collect_loop deadline rx' ts (poll_begin t s)
        | None \<Rightarrow> polled_collect_loop deadline rx ts (poll_begin t s))"

definition polled_ascii_receive ::
    "bool \<Rightarrow> nat \<Rightarrow> poll_turn list \<Rightarrow> polled_state \<Rightarrow> (errno + bytes) \<times> poll_turn list \<times> polled_state" where
  "polled_ascii_receive passthrough resp_cap ts s =
     (let deadline = polled_deadline ts
      in case polled_colon_loop deadline ts s of
           (Inl e, ts1, s1) \<Rightarrow> (Inl e, ts1, s1)
         | (Inr found, ts1, s1) \<Rightarrow>
             if \<not> found then polled_fail ETIMEDOUT ts1 s1
             else
               case polled_collect_loop deadline [colon] ts1 s1 of
                 (Inl e, ts2, s2) \<Rightarrow> (Inl e, ts2, s2)
               | (Inr (got_crlf, rx), ts2, s2) \<Rightarrow>
                   if \<not> got_crlf then polled_fail ETIMEDOUT ts2 s2
                   else if passthrough then
                     if length rx > resp_cap then polled_fail ENOBUFS ts2 s2
                     else (Inr rx, ts2, s2)
                   else
                     case rs232_ascii_decode_response rx resp_cap of
                       Inl dec \<Rightarrow> polled_fail EIO ts2 s2
                     | Inr rtu \<Rightarrow> (Inr rtu, ts2, s2))"

section \<open>Transactions\<close>

definition polled_port_device :: "(device \<Rightarrow> bool) \<Rightarrow> nat \<Rightarrow> polled_state \<Rightarrow> device option" where
  "polled_port_device ready port_id s =
     (case pl_dev s ! port_id of None \<Rightarrow> None | Some dev \<Rightarrow> if ready dev then Some dev else None)"

definition polled_ascii_txrx ::
    "(device \<Rightarrow> bool) \<Rightarrow> nat \<Rightarrow> bytes \<Rightarrow> nat \<Rightarrow> poll_turn list \<Rightarrow> polled_state \<Rightarrow>
       (errno + bytes) \<times> poll_turn list \<times> polled_state" where
  "polled_ascii_txrx ready port_id req resp_cap ts s =
     (case polled_port_device ready port_id s of
        None \<Rightarrow> (Inl ENODEV, ts, s)
      | Some dev \<Rightarrow>
          (case ascii_request_frame req of
             None \<Rightarrow> (Inl EINVAL, ts, s)
           | Some tx \<Rightarrow>
               (case polled_transmit port_id tx ts s of
                  (Some e, ts1, s1) \<Rightarrow> (Inl e, ts1, s1)
                | (None, ts1, s1) \<Rightarrow> polled_ascii_receive (ascii_passthrough req) resp_cap ts1 s1)))"

definition polled_modbus_txrx ::
    "(device \<Rightarrow> bool) \<Rightarrow> nat \<Rightarrow> bytes \<Rightarrow> nat \<Rightarrow> poll_turn list \<Rightarrow> polled_state \<Rightarrow>
       (errno + bytes) \<times> poll_turn list \<times> polled_state" where
  "polled_modbus_txrx ready port_id req resp_cap ts s =
     (if req = [] then (Inl EINVAL, ts, s)
      else if port_id \<ge> RS232_MAX_PORTS then (Inl EINVAL, ts, s)
      else if pl_protocol s ! port_id = 0x00 then (Inl ENOTSUP, ts, s)
      else if pl_protocol s ! port_id = 0x02 then polled_ascii_txrx ready port_id req resp_cap ts s
      else
        case polled_port_device ready port_id s of
          None \<Rightarrow> (Inl ENODEV, ts, s)
        | Some dev \<Rightarrow>
            (case polled_transmit port_id req ts s of
               (Some e, ts1, s1) \<Rightarrow> (Inl e, ts1, s1)
             | (None, ts1, s1) \<Rightarrow> polled_rtu_receive req resp_cap ts1 s1))"

section \<open>A run of the other build on a line without interrupts\<close>

definition irq_free :: "poll_turn \<Rightarrow> rx_turn" where
  "irq_free t = \<lparr>t_now = p_now t, t_irq = [], t_poll = p_byte t, t_abort = p_abort t\<rparr>"

definition with_rings :: "polled_state \<Rightarrow> rs232_state" where
  "with_rings s = \<lparr>rs_abort = pl_abort s, rs_protocol = pl_protocol s, rs_dev = pl_dev s,
     rs_ring = [ring_init, ring_init], rs_wire = pl_wire s\<rparr>"

abbreviation lift_run :: "poll_turn list \<times> polled_state \<Rightarrow> rx_turn list \<times> rs232_state" where
  "lift_run p \<equiv> map_prod (map irq_free) with_rings p"

abbreviation lift_res :: "'r \<times> poll_turn list \<times> polled_state \<Rightarrow> 'r \<times> rx_turn list \<times> rs232_state" where
  "lift_res p \<equiv> map_prod id (map_prod (map irq_free) with_rings) p"

named_theorems quiet_sim

lemma irq_free_sel [simp]:
  "t_now (irq_free t) = p_now t" "t_poll (irq_free t) = p_byte t" "t_irq (irq_free t) = []"
  "t_abort (irq_free t) = p_abort t"
  by (simp_all add: irq_free_def)

lemma with_rings_sel [simp]:
  "rs_abort (with_rings s) = pl_abort s" "rs_protocol (with_rings s) = pl_protocol s"
  "rs_dev (with_rings s) = pl_dev s" "rs_wire (with_rings s) = pl_wire s"
  "rs_ring (with_rings s) = [ring_init, ring_init]"
  by (simp_all add: with_rings_def)

lemma ring_init_quiet [simp]:
  "rs232_irq_rx_ring_pop ring_init = None" "rs232_irq_rx_ring_reset ring_init = ring_init"
  by (simp_all add: rs232_irq_rx_ring_pop_def rs232_irq_rx_ring_reset_def ring_init_def)

lemma quiet_rings [simp]:
  "idx < 2 \<Longrightarrow> [ring_init, ring_init] ! idx = ring_init"
  "idx < 2 \<Longrightarrow> (case idx of 0 \<Rightarrow> [ring_init, ring_init] | Suc j \<Rightarrow> ring_init # [ring_init][j := ring_init]) =
     [ring_init, ring_init]"
  by (auto simp: less_2_cases_iff)

lemma begin_turn_quiet [simp]:
  "idx < 2 \<Longrightarrow> begin_turn idx (irq_free t) (with_rings s) = with_rings (poll_begin t s)"
  "begin_turn_irq_off (irq_free t) (with_rings s) = with_rings (poll_begin t s)"
  by (simp_all add: begin_turn_def begin_turn_irq_off_def with_rings_def poll_begin_def)

lemma try_byte_quiet [simp]:
  "idx < 2 \<Longrightarrow> rs232_rx_try_byte idx poll (with_rings s) = (poll, with_rings s)"
  by (simp add: rs232_rx_try_byte_def)

lemma ring_reset_quiet [simp]: "idx < 2 \<Longrightarrow> ring_reset idx (with_rings s) = with_rings s"
  by (simp add: ring_reset_def with_rings_def)

lemma drain_quiet [quiet_sim]:
  "rs232_hw_poll_drain (map irq_free ts) (with_rings s) = lift_run (polled_drain ts s)"
  by (induction ts s rule: polled_drain.induct) simp_all

lemma drain_rx_fifo_quiet [quiet_sim]:
  "idx < 2 \<Longrightarrow> rs232_drain_rx_fifo idx (map irq_free ts) (with_rings s) = lift_run (polled_drain ts s)"
  by (simp add: rs232_drain_rx_fifo_def drain_quiet)

lemma discard_loop_quiet:
  "idx < 2 \<Longrightarrow> discard_loop idx idle t_end since burst (map irq_free ts) (with_rings s) =
     lift_run (polled_discard_loop idle t_end since burst ts s)"
  by (induction idle t_end since burst ts s rule: polled_discard_loop.induct)
    (auto simp: polled_rx_try_byte_def split: option.split)

lemma discard_quiet [quiet_sim]:
  "idx < 2 \<Longrightarrow> rs232_discard_until_rx_idle idx idle cap (map irq_free ts) (with_rings s) =
     lift_run (polled_discard idle cap ts s)"
proof (cases ts)
  case (Cons t ts')
  assume "idx < 2"
  from discard_loop_quiet [OF this, of idle "p_now t + cap" "p_now t" False "t # ts'" s] Cons
  show ?thesis by (simp only: rs232_discard_until_rx_idle_def polled_discard_def list.map list.case irq_free_sel)
qed (simp add: rs232_discard_until_rx_idle_def polled_discard_def)

lemma prepare_quiet [quiet_sim]:
  assumes "idx < 2"
  shows "rs232_prepare_tx_bus idx idle cap (map irq_free ts) (with_rings s) =
    lift_run (polled_prepare_tx_bus idle cap ts s)"
proof -
  have p: "pop_all rs232_irq_rx_ring_pop 511 ring_init = ([], ring_init)"
    by (rule pop_all_None) simp
  have w: "with_rings s\<lparr>rs_ring := [ring_init, ring_init]\<rparr> = with_rings s" by (simp add: with_rings_def)
  show ?thesis
    using assms by (auto simp: rs232_prepare_tx_bus_def polled_prepare_tx_bus_def p w
        quiet_sim split: prod.split list.split)
qed

lemma send_quiet [quiet_sim]:
  "rs232_send port_id tx (with_rings s) = map_prod id with_rings (polled_send port_id tx s)"
  by (simp add: rs232_send_def polled_send_def with_rings_def split: option.split)

lemma deadline_quiet [quiet_sim]: "deadline_from (map irq_free ts) = polled_deadline ts"
  by (cases ts) (simp_all add: deadline_from_def polled_deadline_def)

lemma first_loop_quiet [quiet_sim]:
  "idx < 2 \<Longrightarrow> rtu_first_loop idx deadline (map irq_free ts) (with_rings s) =
     lift_res (polled_first_loop deadline ts s)"
  by (induction deadline ts s rule: polled_first_loop.induct)
    (auto simp: polled_rx_try_byte_def quiet_sim split: option.split prod.split)

lemma more_loop_quiet [quiet_sim]:
  "idx < 2 \<Longrightarrow> rtu_more_loop idx deadline max_rx expected inner resp (map irq_free ts) (with_rings s) =
     lift_res (polled_more_loop deadline max_rx expected inner resp ts s)"
  by (induction deadline max_rx expected inner resp ts s rule: polled_more_loop.induct)
    (auto simp: polled_rx_try_byte_def Let_def quiet_sim split: prod.split)

lemma tail_loop_quiet [quiet_sim]:
  "idx < 2 \<Longrightarrow> tail_loop idx tr (map irq_free ts) (with_rings s) = lift_res (polled_tail_loop tr ts s)"
  by (induction tr ts s rule: polled_tail_loop.induct)
    (auto simp: polled_rx_try_byte_def split: option.split)

lemma fail_quiet [quiet_sim]:
  "idx < 2 \<Longrightarrow> fail_drained idx e (map irq_free ts) (with_rings s) = lift_res (polled_fail e ts s)"
  by (simp add: fail_drained_def polled_fail_def quiet_sim split: prod.split)

lemma rtu_finish_quiet [quiet_sim]:
  "idx < 2 \<Longrightarrow> rtu_finish idx req resp (map irq_free ts) (with_rings s) =
     lift_res (polled_rtu_finish req resp ts s)"
  by (auto simp: rtu_finish_def polled_rtu_finish_def polled_fail_def quiet_sim
      split: sum.split prod.split)

lemma rtu_receive_quiet [quiet_sim]:
  "idx < 2 \<Longrightarrow> rtu_receive idx req cap (map irq_free ts) (with_rings s) =
     lift_res (polled_rtu_receive req cap ts s)"
  by (auto simp: rtu_receive_def polled_rtu_receive_def polled_fail_def quiet_sim Let_def
      split: sum.split prod.split option.split)

lemma colon_loop_quiet [quiet_sim]:
  "idx < 2 \<Longrightarrow> ascii_colon_loop idx deadline (map irq_free ts) (with_rings s) =
     lift_res (polled_colon_loop deadline ts s)"
  by (induction deadline ts s rule: polled_colon_loop.induct)
    (auto simp: polled_rx_try_byte_def quiet_sim split: prod.split)

lemma collect_loop_quiet [quiet_sim]:
  "idx < 2 \<Longrightarrow> ascii_collect_loop idx deadline rx (map irq_free ts) (with_rings s) =
     lift_res (polled_collect_loop deadline rx ts s)"
  by (induction deadline rx ts s rule: polled_collect_loop.induct)
    (auto simp: polled_rx_try_byte_def quiet_sim Let_def split: prod.split option.split)

lemma ascii_receive_quiet [quiet_sim]:
  "idx < 2 \<Longrightarrow> ascii_receive idx passthrough cap (map irq_free ts) (with_rings s) =
     lift_res (polled_ascii_receive passthrough cap ts s)"
  by (auto simp: ascii_receive_def polled_ascii_receive_def quiet_sim Let_def
      split: sum.split prod.split)

section \<open>One transaction\<close>

text \<open>The interrupt-driven build makes two more attempts to read around the sending; on a line
  that is silent while they run it does what this build does.  \<open>with_pause n\<close> puts them behind the
  first \<open>n\<close> attempts.\<close>

definition irq_pause :: "poll_turn list \<Rightarrow> poll_turn list" where
  "irq_pause ts =
     (case ts of [] \<Rightarrow> [] | t # _ \<Rightarrow> replicate 2 \<lparr>p_now = p_now t, p_byte = None, p_abort = False\<rparr>)"

definition with_pause :: "nat \<Rightarrow> poll_turn list \<Rightarrow> poll_turn list" where
  "with_pause n ts = take n ts @ irq_pause (drop n ts) @ drop n ts"

lemma with_pause_append: "with_pause (length pre) (pre @ ts) = pre @ irq_pause ts @ ts"
  by (simp add: with_pause_def)

lemma with_pause_all [simp]: "with_pause (length ts) ts = ts"
  by (simp add: with_pause_def irq_pause_def)

lemma drain_cut:
  "polled_drain ts s = (t1 # ts1, s1) \<Longrightarrow>
     \<exists>pre. pre \<noteq> [] \<and> ts = pre @ t1 # ts1 \<and> (\<forall>us. polled_drain (pre @ us) s = (us, s1))"
proof (induction ts s rule: polled_drain.induct)
  case (2 t ts s)
  show ?case
  proof (cases "p_byte t = None")
    case True
    with 2 show ?thesis by (intro exI [of _ "[t]"]) auto
  next
    case False
    with 2 obtain pre where "ts = pre @ t1 # ts1" "\<forall>us. polled_drain (pre @ us) (poll_begin t s) = (us, s1)"
      by auto
    with False show ?thesis by (intro exI [of _ "t # pre"]) auto
  qed
qed simp

lemma discard_loop_cut:
  "polled_discard_loop idle t_end since burst ts s = (t1 # ts1, s1) \<Longrightarrow>
     \<exists>pre. ts = pre @ t1 # ts1 \<and>
       (\<forall>u us. p_now u = p_now t1 \<longrightarrow>
          polled_discard_loop idle t_end since burst (pre @ u # us) s = (u # us, s1))"
proof (induction idle t_end since burst ts s rule: polled_discard_loop.induct)
  case (2 idle t_end since burst t ts s)
  show ?case
  proof (cases "\<not> burst \<and> p_now t \<ge> t_end")
    case True
    with "2.prems" show ?thesis by (intro exI [of _ "[]"]) auto
  next
    case go: False
    show ?thesis
    proof (cases "polled_rx_try_byte t")
      case (Some ch)
      with go "2.prems" "2.IH"(3) obtain pre where "ts = pre @ t1 # ts1"
        "\<forall>u us. p_now u = p_now t1 \<longrightarrow>
           polled_discard_loop idle t_end (p_now t) True (pre @ u # us) (poll_begin t s) = (u # us, s1)"
        by auto
      with go Some show ?thesis by (intro exI [of _ "t # pre"]) auto
    next
      case None
      show ?thesis
      proof (cases "\<not> burst \<and> p_now t - since \<ge> idle")
        case True
        with go None "2.prems" show ?thesis by (intro exI [of _ "[t]"]) auto
      next
        case False
        with go None "2.prems" "2.IH"(1,2) obtain pre where "ts = pre @ t1 # ts1"
          "\<forall>u us. p_now u = p_now t1 \<longrightarrow>
             polled_discard_loop idle t_end since False (pre @ u # us) (poll_begin t s) = (u # us, s1)"
          by (cases burst) auto
        with go None False show ?thesis by (intro exI [of _ "t # pre"]) auto
      qed
    qed
  qed
qed simp

lemma discard_cut:
  assumes "polled_discard idle cap ts s = (t1 # ts1, s1)"
  shows "\<exists>pre. ts = pre @ t1 # ts1 \<and>
    (\<forall>u us. p_now u = p_now t1 \<longrightarrow> polled_discard idle cap (pre @ u # us) s = (u # us, s1))"
proof (cases ts)
  case (Cons t ts')
  with assms have "polled_discard_loop idle (p_now t + cap) (p_now t) False ts s = (t1 # ts1, s1)"
    by (simp only: polled_discard_def list.case)
  from discard_loop_cut [OF this] obtain pre where p: "ts = pre @ t1 # ts1"
    "\<forall>u us. p_now u = p_now t1 \<longrightarrow>
       polled_discard_loop idle (p_now t + cap) (p_now t) False (pre @ u # us) s = (u # us, s1)"
    by blast
  with Cons show ?thesis
    by (intro exI [of _ pre]; cases pre) (simp_all add: polled_discard_def del: polled_discard_loop.simps)
qed (use assms in \<open>simp add: polled_discard_def\<close>)

lemma prepare_cut:
  assumes "polled_prepare_tx_bus idle cap ts s = (ts1, s1)"
  shows "\<exists>n. drop n ts = ts1 \<and>
    polled_prepare_tx_bus idle cap (with_pause n ts) s = (irq_pause ts1 @ ts1, s1)"
proof (cases ts1)
  case Nil
  with assms show ?thesis by (intro exI [of _ "length ts"]) (simp add: irq_pause_def)
next
  case (Cons t1 us1)
  obtain td sd where d: "polled_drain ts s = (td, sd)" by fastforce
  define had where "had = (case ts of [] \<Rightarrow> False | t # _ \<Rightarrow> p_byte t \<noteq> None)"
  have res: "(if had then polled_discard idle cap td sd else (td, sd)) = (t1 # us1, s1)"
    using assms d Cons by (simp add: polled_prepare_tx_bus_def had_def)
  then have "td \<noteq> []" by (auto simp: polled_discard_def split: if_splits)
  then obtain td1 td' where td: "td = td1 # td'" by (cases td) auto
  from drain_cut [OF d [unfolded td]] obtain pre1 where p1: "pre1 \<noteq> []" "ts = pre1 @ td"
    "\<forall>us. polled_drain (pre1 @ us) s = (us, sd)"
    unfolding td by blast
  have "\<exists>pre2. td = pre2 @ ts1 \<and> (\<forall>u us. p_now u = p_now t1 \<longrightarrow>
      (if had then polled_discard idle cap (pre2 @ u # us) sd else (pre2 @ u # us, sd)) = (u # us, s1))"
    using res discard_cut [of idle cap td sd t1 us1 s1] Cons
    by (cases had) (auto intro: exI [of _ "[]"])
  then obtain pre2 where p2: "td = pre2 @ ts1" "\<forall>u us. p_now u = p_now t1 \<longrightarrow>
      (if had then polled_discard idle cap (pre2 @ u # us) sd else (pre2 @ u # us, sd)) = (u # us, s1)"
    by blast
  let ?pre = "pre1 @ pre2"
  have ts: "ts = ?pre @ ts1" using p1(2) p2(1) by simp
  obtain u where u: "irq_pause ts1 = [u, u]" "p_now u = p_now t1"
    using Cons by (simp add: irq_pause_def eval_nat_numeral)
  have had': "had = (case pre1 @ us of [] \<Rightarrow> False | t # _ \<Rightarrow> p_byte t \<noteq> None)" for us
    using p1(1,2) by (cases pre1) (simp_all add: had_def)
  have "polled_prepare_tx_bus idle cap (?pre @ irq_pause ts1 @ ts1) s = (irq_pause ts1 @ ts1, s1)"
    using p1(3) p2(2) u by (simp add: polled_prepare_tx_bus_def had' [symmetric])
  then show ?thesis
    using with_pause_append [of ?pre ts1] ts by (intro exI [of _ "length ?pre"]) simp
qed

lemma pause_drained:
  "\<exists>us. \<forall>s. polled_drain (irq_pause ts @ ts) s = (us, s) \<and> polled_drain us s = (ts, s)"
proof (cases ts)
  case (Cons t ts')
  let ?u = "\<lparr>p_now = p_now t, p_byte = None, p_abort = False\<rparr>"
  have "poll_begin ?u s = s" for s by (simp add: poll_begin_def)
  with Cons show ?thesis
    by (intro exI [of _ "?u # ts"]) (simp add: irq_pause_def eval_nat_numeral)
qed (simp add: irq_pause_def)

lemma transmit_paused:
  assumes "polled_transmit port_id tx ts s = (r, ts1, s1)"
    and "port_id < RS232_MAX_PORTS" "pl_dev s ! port_id = Some dev" "tx \<noteq> []" "idx < 2"
  shows "r = None \<and> (\<exists>n. rs232_transmit port_id idx tx (map irq_free (with_pause n ts)) (with_rings s) =
    (None, map irq_free ts1, with_rings s1))"
proof -
  obtain tp sp where p: "polled_prepare_tx_bus 100 800 ts s = (tp, sp)" by fastforce
  have "rs_keep (with_rings s) (with_rings sp)"
    using prepare_tx_bus_keep [of idx 100 800 "map irq_free ts" "with_rings s"] assms(5) p
    by (simp add: prepare_quiet)
  then have dev: "pl_dev sp ! port_id = Some dev" using assms(3) by (simp add: rs_keep_def)
  then have send: "polled_send port_id tx sp = (None, sp\<lparr>pl_wire := pl_wire sp @ map (Pair dev) tx\<rparr>)"
    using assms(2,4) by (simp add: polled_send_def)
  then have r: "r = None" "ts1 = tp" "polled_send port_id tx sp = (None, s1)"
    using assms(1) p by (auto simp: polled_transmit_def)
  from prepare_cut [OF p] obtain n where n: "polled_prepare_tx_bus 100 800 (with_pause n ts) s = (irq_pause tp @ tp, sp)"
    by blast
  obtain us where us: "\<And>s. polled_drain (irq_pause tp @ tp) s = (us, s)" "\<And>s. polled_drain us s = (tp, s)"
    using pause_drained [of tp] by blast
  have "rs232_transmit port_id idx tx (map irq_free (with_pause n ts)) (with_rings s) =
      (None, map irq_free tp, with_rings s1)"
    using assms(5) us
    by (simp add: rs232_transmit_def prepare_quiet n drain_quiet send_quiet r(3) flip: map_append)
  with r(1,2) show ?thesis by blast
qed

text \<open>Every transaction of this build is one of the interrupt-driven build, with the same result,
  the same bytes sent and the same attempts left.\<close>

lemma port_device_quiet: "port_device ready port_id (with_rings s) = polled_port_device ready port_id s"
  by (simp add: port_device_def polled_port_device_def)

lemma txrx_paused:
  "\<exists>n. rs232_modbus_txrx ready port_id req cap (map irq_free (with_pause n ts)) (with_rings s) =
     lift_res (polled_modbus_txrx ready port_id req cap ts s)"
proof (cases "txrx_frame ready port_id req (with_rings s)")
  case None
  then show ?thesis
    by (intro exI [of _ "length ts"])
      (auto simp: txrx_frame_def rs232_modbus_txrx_def rs232_modbus_ascii_txrx_def port_device_quiet
        polled_modbus_txrx_def polled_ascii_txrx_def split: if_splits option.splits)
next
  case (Some p)
  then obtain dev tx where g: "req \<noteq> []" "port_id < 2" "pl_protocol s ! port_id \<noteq> 0"
    and dev: "polled_port_device ready port_id s = Some dev"
    and tx: "(if pl_protocol s ! port_id = 2 then ascii_request_frame req else Some req) = Some tx"
    by (auto simp: txrx_frame_def port_device_quiet split: if_splits option.splits)
  have d: "rs_dev (with_rings s) ! port_id = Some dev"
    using port_device_Some [of ready port_id "with_rings s" dev] dev by (simp add: port_device_quiet)
  obtain idx where idx: "rs232_port_idx (with_rings s) dev = Some idx" "idx < 2"
    using port_idx_Some [OF g(2) d] by blast
  obtain r ts1 s1 where t: "polled_transmit port_id tx ts s = (r, ts1, s1)" by (rule prod_cases3)
  have "tx \<noteq> []" using tx g(1) ascii_request_frame_nonempty by (auto split: if_splits)
  from transmit_paused [OF t g(2) _ this idx(2)] d obtain n where r: "r = None"
    and n: "rs232_transmit port_id idx tx (map irq_free (with_pause n ts)) (with_rings s) =
      (None, map irq_free ts1, with_rings s1)"
    by auto
  show ?thesis
    using g dev tx t r n idx
    by (intro exI [of _ n])
      (simp add: rs232_modbus_txrx_def rs232_modbus_ascii_txrx_def polled_modbus_txrx_def
        polled_ascii_txrx_def port_device_quiet quiet_sim split: if_splits)
qed

section \<open>Whole runs\<close>

text \<open>What the other components do with the ports.\<close>

datatype 't port_op =
  Transaction nat bytes nat "'t list"
| Reconfigure "nat \<Rightarrow> reconf_attempt" nat "rs232_remote_cfg option"
| Send_bytes nat bytes
| Abort
| Abort_clear

datatype port_out = Transacted "errno + bytes" | Reconfigured bool | Sent "errno option" | Done

fun irq_port_do :: "(device \<Rightarrow> bool) \<Rightarrow> rx_turn port_op \<Rightarrow> rs232_state \<Rightarrow> port_out \<times> rs232_state" where
  "irq_port_do ready (Transaction port_id req cap ts) s =
     (let (res, ts', s') = rs232_modbus_txrx ready port_id req cap ts s in (Transacted res, s'))"
| "irq_port_do ready (Reconfigure env port_id cfgp) s =
     map_prod Reconfigured id (rs232_reconfigure env port_id cfgp s)"
| "irq_port_do ready (Send_bytes port_id data) s = map_prod Sent id (rs232_send port_id data s)"
| "irq_port_do ready Abort s = (Done, rs232_abort_txrx s)"
| "irq_port_do ready Abort_clear s = (Done, rs232_abort_clear s)"

fun polled_port_do :: "(device \<Rightarrow> bool) \<Rightarrow> poll_turn port_op \<Rightarrow> polled_state \<Rightarrow> port_out \<times> polled_state" where
  "polled_port_do ready (Transaction port_id req cap ts) s =
     (let (res, ts', s') = polled_modbus_txrx ready port_id req cap ts s in (Transacted res, s'))"
| "polled_port_do ready (Reconfigure env port_id cfgp) s =
     map_prod Reconfigured id (polled_reconfigure env port_id cfgp s)"
| "polled_port_do ready (Send_bytes port_id data) s = map_prod Sent id (polled_send port_id data s)"
| "polled_port_do ready Abort s = (Done, s\<lparr>pl_abort := True\<rparr>)"
| "polled_port_do ready Abort_clear s = (Done, s\<lparr>pl_abort := False\<rparr>)"

text \<open>The same operation, up to the two silent attempts of a transaction.\<close>

fun op_match :: "poll_turn port_op \<Rightarrow> rx_turn port_op \<Rightarrow> bool" where
  "op_match (Transaction port_id req cap ts) e \<longleftrightarrow>
     (\<exists>n \<le> length ts. e = Transaction port_id req cap (map irq_free (with_pause n ts)))"
| "op_match (Reconfigure env port_id cfgp) e \<longleftrightarrow> e = Reconfigure env port_id cfgp"
| "op_match (Send_bytes port_id data) e \<longleftrightarrow> e = Send_bytes port_id data"
| "op_match Abort e \<longleftrightarrow> e = Abort"
| "op_match Abort_clear e \<longleftrightarrow> e = Abort_clear"

lemma with_pause_min: "with_pause n ts = with_pause (min n (length ts)) ts"
  by (cases "n \<le> length ts") (simp_all add: min_def with_pause_def irq_pause_def)

lemma reconfigure_quiet:
  "rs232_reconfigure env port_id cfgp (with_rings s) = map_prod id with_rings (polled_reconfigure env port_id cfgp s)"
  by (simp add: rs232_reconfigure_def polled_reconfigure_def with_rings_def Let_def
      split: option.split prod.split)

lemma abort_quiet:
  "rs232_abort_txrx (with_rings s) = with_rings (s\<lparr>pl_abort := True\<rparr>)"
  "rs232_abort_clear (with_rings s) = with_rings (s\<lparr>pl_abort := False\<rparr>)"
  by (simp_all add: rs232_abort_txrx_def rs232_abort_clear_def with_rings_def)

lemma port_do_sim:
  "\<exists>f. op_match e f \<and> irq_port_do ready f (with_rings s) = map_prod id with_rings (polled_port_do ready e s)"
proof (cases e)
  case (Transaction port_id req cap ts)
  obtain n where n: "rs232_modbus_txrx ready port_id req cap (map irq_free (with_pause n ts)) (with_rings s) =
      lift_res (polled_modbus_txrx ready port_id req cap ts s)"
    using txrx_paused by blast
  with Transaction show ?thesis
    unfolding with_pause_min [of n]
    by (intro exI [of _ "Transaction port_id req cap (map irq_free (with_pause (min n (length ts)) ts))"])
      (auto split: prod.split intro: exI [of _ "min n (length ts)"])
qed (simp_all add: reconfigure_quiet send_quiet abort_quiet prod.map_comp comp_def)

interpretation builds: forward_sim with_rings op_match "polled_port_do ready" "irq_port_do ready" for ready
  by unfold_locales (rule port_do_sim)

text \<open>What an operation may put on the wire: a transaction its frame, once and complete, or
  nothing.\<close>

fun op_sends :: "'t port_op \<Rightarrow> (device \<times> u8) list \<Rightarrow> bool" where
  "op_sends (Transaction port_id req cap ts) out \<longleftrightarrow>
     out = [] \<or> (\<exists>tx \<in> {Some req, ascii_request_frame req}. tx \<noteq> None \<and> map snd out = the tx \<and> list_all ((=) (fst (hd out)) \<circ> fst) out)"
| "op_sends (Send_bytes port_id data) out \<longleftrightarrow>
     out = [] \<or> map snd out = data \<and> list_all ((=) (fst (hd out)) \<circ> fst) out"
| "op_sends _ out \<longleftrightarrow> out = []"

lemma one_device: "list_all ((=) (fst (hd (map (Pair dev) xs))) \<circ> fst) (map (Pair dev) xs)"
  by (cases xs) (auto simp: list_all_iff)

lemma irq_port_do_sends:
  "\<exists>out. rs_wire (snd (irq_port_do ready e s)) = rs_wire s @ out \<and> op_sends e out"
proof (cases e)
  case (Transaction port_id req cap ts)
  obtain res ts' s' where t: "rs232_modbus_txrx ready port_id req cap ts s = (res, ts', s')"
    by (rule prod_cases3)
  show ?thesis
  proof (cases "txrx_frame ready port_id req s")
    case None
    with txrx_spec [OF t] Transaction t show ?thesis by simp
  next
    case (Some p)
    then obtain dev tx where p: "txrx_frame ready port_id req s = Some (dev, tx)" by (cases p) simp
    then have "Some tx \<in> {Some req, ascii_request_frame req}"
      by (auto simp: txrx_frame_def split: if_splits option.splits)
    then have "op_sends e (map (Pair dev) tx)"
      unfolding Transaction op_sends.simps
      by (intro disjI2 bexI [of _ "Some tx"]) (simp_all add: comp_def one_device [unfolded comp_def])
    with txrx_spec [OF t] Transaction t p show ?thesis by auto
  qed
next
  case (Reconfigure env port_id cfgp)
  then show ?thesis
    by (auto simp: rs232_reconfigure_def split: option.splits if_splits prod.splits)
next
  case (Send_bytes port_id data)
  then show ?thesis
    using one_device [of _ data]
    by (auto simp: rs232_send_def comp_def split: option.splits if_splits)
qed (simp_all add: rs232_abort_txrx_def rs232_abort_clear_def)

lemma irq_port_do_wf:
  assumes "rs232_wf s"
  shows "rs232_wf (snd (irq_port_do ready e s))"
proof (cases e)
  case (Transaction port_id req cap ts)
  with assms txrx_spec [of ready port_id req cap ts s] show ?thesis by (auto split: prod.split)
next
  case (Reconfigure env port_id cfgp)
  with assms reconfigure_wf [of s env port_id cfgp] show ?thesis
    by (cases "rs232_reconfigure env port_id cfgp s") auto
qed (use assms in \<open>auto simp: rs232_wf_def rs232_send_def rs232_abort_txrx_def rs232_abort_clear_def
    split: option.split\<close>)

interpretation irq_ports: tracing_task "\<lambda>e. True" rs232_wf "\<lambda>e s. snd (irq_port_do ready e s)"
    rs_wire op_sends for ready
  by unfold_locales (simp_all add: irq_port_do_wf irq_port_do_sends)

text \<open>Both laws hold of this build because its operations are operations of the other.\<close>

lemma op_match_sends: "op_match e f \<Longrightarrow> op_sends f out \<Longrightarrow> op_sends e out"
  by (cases e) auto

lemma polled_port_do_laws:
  shows "rs232_wf (with_rings s) \<Longrightarrow> rs232_wf (with_rings (snd (polled_port_do ready e s)))"
    and "\<exists>out. pl_wire (snd (polled_port_do ready e s)) = pl_wire s @ out \<and> op_sends e out"
proof -
  obtain f where f: "op_match e f"
    "irq_port_do ready f (with_rings s) = map_prod id with_rings (polled_port_do ready e s)"
    using port_do_sim by blast
  show "rs232_wf (with_rings s) \<Longrightarrow> rs232_wf (with_rings (snd (polled_port_do ready e s)))"
    using irq_port_do_wf [of "with_rings s" ready f] f(2) by simp
  show "\<exists>out. pl_wire (snd (polled_port_do ready e s)) = pl_wire s @ out \<and> op_sends e out"
    using irq_port_do_sends [of ready f "with_rings s"] f op_match_sends by auto
qed

interpretation polled_ports: tracing_task "\<lambda>e. True" "\<lambda>s. rs232_wf (with_rings s)"
    "\<lambda>e s. snd (polled_port_do ready e s)" pl_wire op_sends for ready
  by unfold_locales (simp_all add: polled_port_do_laws)

text \<open>C9: The build without the receive interrupt does nothing the other build cannot do:
  from the start of the ports, whatever is asked of them (transactions, reconfigurations, sending,
  aborts), in any order and whatever arrives on the line, there is a run of the interrupt-driven
  build over the same operations, on a line where no interrupt fires and which is silent during two
  more attempts of each transaction, that gives the same results and ends in the same state with
  empty rings.  So the state stays well formed, and every operation puts its frame on the wire of
  one device, once and complete, or nothing.\<close>

theorem polled_build_refines:
  "let (outs, s') = run_steps (polled_port_do ready) es (polled_ports_init node0 node1 polled_boot)
   in (\<exists>fs. list_all2 op_match es fs \<and>
         run_steps (irq_port_do ready) fs (rs232_ports_init node0 node1 rs232_boot) = (outs, with_rings s')) \<and>
      rs232_wf (with_rings s') \<and>
      (\<exists>sent. pl_wire s' = concat sent \<and> list_all2 op_sends es sent)"
proof -
  let ?s = "polled_ports_init node0 node1 polled_boot"
  have start: "with_rings ?s = rs232_ports_init node0 node1 rs232_boot" "pl_wire ?s = []"
    "rs232_wf (with_rings ?s)"
    by (simp_all add: with_rings_def polled_ports_init_def polled_boot_def rs232_ports_init_def
        rs232_boot_def rs232_wf_def)
  obtain outs s' where r: "run_steps (polled_port_do ready) es ?s = (outs, s')" by fastforce
  have s': "s' = fold (\<lambda>e s. snd (polled_port_do ready e s)) es ?s"
    using run_steps_state [of "polled_port_do ready" es ?s] r by simp
  show ?thesis
    using builds.run_sim [of es ready ?s] polled_ports.run_inv [of es ?s ready]
      polled_ports.run_trace [of es ?s ready] start r s'
    by (simp add: list_all_iff)
qed

section \<open>Delivery of a response\<close>

text \<open>An undisturbed reception, and what it brings.\<close>

definition poll_calm :: "int \<Rightarrow> poll_turn list \<Rightarrow> bool" where
  "poll_calm deadline ts \<longleftrightarrow> (\<forall>t \<in> set ts. p_now t < deadline \<and> \<not> p_abort t)"

definition polled_bytes :: "poll_turn list \<Rightarrow> bytes" where
  "polled_bytes ts = List.map_filter p_byte ts"

lemma polled_bytes_simps [simp]:
  "polled_bytes [] = []"
  "polled_bytes (t # ts) = (case p_byte t of None \<Rightarrow> polled_bytes ts | Some b \<Rightarrow> b # polled_bytes ts)"
  by (simp_all add: polled_bytes_def map_filter_simps split: option.split)

lemma polled_more_delivers:
  assumes "poll_calm deadline ts" "\<not> pl_abort s" "length (got @ polled_bytes ts) = e" "0 < e" "e \<le> max_rx"
    and "inner \<or> polled_bytes ts \<noteq> []"
  shows "fst (polled_more_loop deadline max_rx (int e) inner got ts s) = Inr (got @ polled_bytes ts)"
  using assms
proof (induction ts arbitrary: s got inner)
  case (Cons t ts)
  have t: "p_now t < deadline" "\<not> pl_abort (poll_begin t s)" "poll_calm deadline ts"
    using Cons.prems(1,2) by (simp_all add: poll_calm_def poll_begin_def)
  show ?case
  proof (cases "p_byte t")
    case None
    have room: "polled_bytes ts \<noteq> [] \<Longrightarrow> length got < e"
      using Cons.prems(3) None by (cases "polled_bytes ts") auto
    show ?thesis
    proof (cases "polled_bytes ts = []")
      case True
      with Cons.prems None t show ?thesis by (auto simp: polled_rx_try_byte_def)
    next
      case False
      with Cons.IH [OF t(3,2), of got False] Cons.prems None t room show ?thesis
        by (simp add: polled_rx_try_byte_def)
    qed
  next
    case (Some b)
    then have l: "length got < e" "length ((got @ [b]) @ polled_bytes ts) = e"
      using Cons.prems(3) by simp_all
    with Cons.IH [OF t(3,2) l(2) Cons.prems(4,5), of True] Cons.prems(5) Some t show ?thesis
      by (simp add: polled_rx_try_byte_def)
  qed
qed simp

lemma polled_first_delivers:
  assumes "poll_calm deadline ts" "\<not> pl_abort s" "polled_bytes ts \<noteq> []"
  shows "\<exists>b ts' s'. polled_first_loop deadline ts s = (Inr (Some b), ts', s') \<and>
           polled_bytes ts = b # polled_bytes ts' \<and> poll_calm deadline ts' \<and> \<not> pl_abort s'"
  using assms
proof (induction ts arbitrary: s)
  case (Cons t ts)
  have t: "p_now t < deadline" "\<not> pl_abort (poll_begin t s)" "poll_calm deadline ts"
    using Cons.prems(1,2) by (simp_all add: poll_calm_def poll_begin_def)
  show ?case
    using Cons.IH [OF t(3,2)] Cons.prems(3) t
    by (cases "p_byte t") (simp_all add: polled_rx_try_byte_def)
qed simp

text \<open>In this build too a response that reaches the UART reaches the server; here every byte
  needs an attempt of its own, and whatever stands in the UART after the sending is taken for
  response.\<close>

lemma polled_rtu_receive_delivers:
  assumes "poll_calm (polled_deadline ts) ts" "\<not> pl_abort s" "polled_bytes ts = resp" "resp \<noteq> []"
    and "length resp \<le> cap" "resp_head req resp 0"
    and "rs232_modbus_expected_resp_len_from_req req = int (length resp)"
  shows "fst (polled_rtu_receive req cap ts s) = Inr resp"
proof -
  let ?e = "length resp" and ?m = "min cap RS232_MODBUS_RX_MAX"
  have e: "0 < ?e" using assms(4) by simp
  have le: "?e \<le> ?m" using expected_len_bounds(2) [of req] assms(5,7) e by simp
  from polled_first_delivers [OF assms(1,2)] assms(3,4) obtain b ts1 s1 where
    f: "polled_first_loop (polled_deadline ts) ts s = (Inr (Some b), ts1, s1)"
    and d: "resp = b # polled_bytes ts1" "poll_calm (polled_deadline ts) ts1" "\<not> pl_abort s1"
    by auto
  have ne: "polled_bytes ts1 \<noteq> []" using expected_len_bounds(1) [of req] assms(7) d(1) by auto
  obtain r2 ts2 s2 where m: "polled_more_loop (polled_deadline ts) ?m (int ?e) False [b] ts1 s1 = (r2, ts2, s2)"
    by (rule prod_cases3)
  have "r2 = Inr resp"
    using polled_more_delivers [OF d(2,3) _ e le, of "[b]" False] ne m d(1) by simp
  moreover have "fst (polled_rtu_finish req resp ts2 s2) = Inr resp"
    using finalize_exact [OF assms(7,4,6)]
    by (auto simp: polled_rtu_finish_def split: prod.split)
  ultimately show ?thesis
    unfolding polled_rtu_receive_def Let_def f prod.case sum.case option.case assms(7) m by simp
qed

lemma polled_txrx_delivers:
  assumes "\<not> pl_abort s1" "port_id < RS232_MAX_PORTS" "pl_protocol s ! port_id = 0x01"
    and "polled_port_device ready port_id s = Some dev"
    and "polled_transmit port_id req ts s = (None, ts1, s1)"
    and "poll_calm (polled_deadline ts1) ts1" "polled_bytes ts1 = resp"
    and "rs232_modbus_expected_resp_len_from_req req = int (length resp)" "length resp \<le> cap"
    and "resp ! 0 = req ! 0" "resp ! 1 = req ! 1" "resp \<noteq> []"
  shows "fst (polled_modbus_txrx ready port_id req cap ts s) = Inr resp"
proof -
  have req: "req \<noteq> []"
    using assms(8,12) by (auto simp: rs232_modbus_expected_resp_len_from_req_def split: if_splits)
  have "fst (polled_rtu_receive req cap ts1 s1) = Inr resp"
    using assms by (intro polled_rtu_receive_delivers) (simp_all add: resp_head_def)
  with assms(2-5) req show ?thesis by (simp add: polled_modbus_txrx_def)
qed

text \<open>So nothing removes an echo in this build: on a line that echoes what is sent, the echo of a
  write of one coil or register is returned as its response, whether or not a device answers.  The
  interrupt-driven build empties the UART between sending and receiving.\<close>

lemma polled_echo_is_response:
  assumes "\<not> pl_abort s1" "port_id < RS232_MAX_PORTS" "pl_protocol s ! port_id = 0x01"
    and "polled_port_device ready port_id s = Some dev"
    and "polled_transmit port_id req ts s = (None, ts1, s1)"
    and "poll_calm (polled_deadline ts1) ts1" "polled_bytes ts1 = req"
    and "length req = 8" "req ! 1 \<in> {0x05, 0x06}" "8 \<le> cap"
  shows "fst (polled_modbus_txrx ready port_id req cap ts s) = Inr req"
proof (rule polled_txrx_delivers [OF assms(1-7)])
  show "rs232_modbus_expected_resp_len_from_req req = int (length req)"
    using assms(8,9) by (auto simp: rs232_modbus_expected_resp_len_from_req_def)
qed (use assms(8,10) in auto)

end
