(* ===== verification/Dip_Switch.thy ===== *)
theory Dip_Switch
  imports Config_Nvs "HOL-Library.Char_ord"
begin

text \<open>
  \<^verbatim>\<open>src/dip_switch.c\<close>: eight switches choose the device code.  At boot they are read as a
  number; a number with an entry in the table replaces the device code of the configuration and
  is stored.  The pins of the platform are the parameters \<open>ready\<close> and \<open>level\<close>, of
  \<open>gpio_is_ready_dt\<close> and \<open>gpio_pin_get_dt\<close>.
\<close>

section \<open>The table of device codes\<close>

definition ascii :: "string \<Rightarrow> bytes" where
  "ascii s = map of_char s"

text \<open>The entries 151 to 255 are null.\<close>

definition dip_code_table :: "bytes option list" where
  "dip_code_table =
     [None,
      Some (ascii ''KRWJARDU001''), Some (ascii ''KRWJARDU002''), Some (ascii ''KRWJARDU003''),
      Some (ascii ''KRWJARDU004''), Some (ascii ''KRWJARDU005''), Some (ascii ''KRWJARDU006''),
      Some (ascii ''KRWJARDU007''), Some (ascii ''KRWJARDU008''), Some (ascii ''KRWJARDU009''),
      Some (ascii ''KRWJARDU010''), Some (ascii ''KRWJARDU011''), Some (ascii ''KRWJARDU012''),
      Some (ascii ''KRWJARDU013''), Some (ascii ''KRWJARDU014''), Some (ascii ''KRWJARDU015''),
      Some (ascii ''KRWJARDU016''), Some (ascii ''KRWJARDU017''), Some (ascii ''KRWJARDU018''),
      Some (ascii ''KRWJARDU019''), Some (ascii ''KRWJARDU020''), Some (ascii ''KRWJARDU021''),
      Some (ascii ''KRWJARDU022''), Some (ascii ''KRWJARDU023''), Some (ascii ''KRWJARDU024''),
      Some (ascii ''KRWJARDU025''), Some (ascii ''KRWJARDU026''), Some (ascii ''KRWJARDU027''),
      Some (ascii ''KRWJARDU028''), Some (ascii ''KRWJARDU029''), Some (ascii ''KRWJARDU030''),
      Some (ascii ''KRWJARDU031''), Some (ascii ''KRWJARDU032''), Some (ascii ''KRWJARDU033''),
      Some (ascii ''KRWJARDU034''), Some (ascii ''KRWJARDU035''), Some (ascii ''KRWJARDU036''),
      Some (ascii ''KRWJARDU037''), Some (ascii ''KRWJARDU038''), Some (ascii ''KRWJARDU039''),
      Some (ascii ''KRWJARDU040''), Some (ascii ''KRWJARDU041''), Some (ascii ''KRWJARDU042''),
      Some (ascii ''KRWJARDU043''), Some (ascii ''KRWJARDU044''), Some (ascii ''KRWJARDU045''),
      Some (ascii ''KRWJARDU046''), Some (ascii ''KRWJARDU047''), Some (ascii ''KRWJARDU048''),
      Some (ascii ''KRWJARDU049''), Some (ascii ''KRWJARDU050''), Some (ascii ''KRWJARDU051''),
      Some (ascii ''KRWJARDU052''), Some (ascii ''KRWJARDU053''), Some (ascii ''KRWJARDU054''),
      Some (ascii ''KRWJARDU055''), Some (ascii ''KRWJARDU056''), Some (ascii ''KRWJARDU057''),
      Some (ascii ''KRWJARDU058''), Some (ascii ''KRWJARDU059''), Some (ascii ''KRWJARDU060''),
      Some (ascii ''KRWJARDU061''), Some (ascii ''KRWJARDU062''), Some (ascii ''KRWJARDU063''),
      Some (ascii ''KRWJARDU064''), Some (ascii ''KRWJARDU065''), Some (ascii ''KRWJARDU066''),
      Some (ascii ''KRWJARDU067''), Some (ascii ''KRWJARDU068''), Some (ascii ''KRWJARDU069''),
      Some (ascii ''KRWJARDU070''), Some (ascii ''KRWJARDU071''), Some (ascii ''KRWJARDU072''),
      Some (ascii ''KRWJARDU073''), Some (ascii ''KRWJARDU074''), Some (ascii ''KRWJARDU075''),
      Some (ascii ''KRWJARDU076''), Some (ascii ''KRWJARDU077''), Some (ascii ''KRWJARDU078''),
      Some (ascii ''KRWJARDU079''), Some (ascii ''KRWJARDU080''), Some (ascii ''KRWJARDU081''),
      Some (ascii ''KRWJARDU082''), Some (ascii ''KRWJARDU083''), Some (ascii ''KRWJARDU084''),
      Some (ascii ''KRWJARDU085''), Some (ascii ''KRWJARDU086''), Some (ascii ''KRWJARDU087''),
      Some (ascii ''KRWJARDU088''), Some (ascii ''KRWJARDU089''), Some (ascii ''KRWJARDU090''),
      Some (ascii ''KRWJARDU091''), Some (ascii ''KRWJARDU092''), Some (ascii ''KRWJARDU093''),
      Some (ascii ''KRWJARDU094''), Some (ascii ''KRWJARDU095''), Some (ascii ''KRWJARDU096''),
      Some (ascii ''KRWJARDU097''), Some (ascii ''KRWJARDU098''), Some (ascii ''KRWJARDU099''),
      Some (ascii ''KRWJARDU100''), Some (ascii ''KRWJARDU101''), Some (ascii ''KRWJARDU102''),
      Some (ascii ''KRWJARDU103''), Some (ascii ''KRWJARDU104''), Some (ascii ''KRWJARDU105''),
      Some (ascii ''KRWJARDU106''), Some (ascii ''KRWJARDU107''), Some (ascii ''KRWJARDU108''),
      Some (ascii ''KRWJARDU109''), Some (ascii ''KRWJARDU110''), Some (ascii ''KRWJARDU111''),
      Some (ascii ''KRWJARDU112''), Some (ascii ''KRWJARDU113''), Some (ascii ''KRWJARDU114''),
      Some (ascii ''KRWJARDU115''), Some (ascii ''KRWJARDU116''), Some (ascii ''KRWJARDU117''),
      Some (ascii ''KRWJARDU118''), Some (ascii ''KRWJARDU119''), Some (ascii ''KRWJARDU120''),
      Some (ascii ''KRWJARDU121''), Some (ascii ''KRWJARDU122''), Some (ascii ''KRWJARDU123''),
      Some (ascii ''KRWJARDU124''), Some (ascii ''KRWJARDU125''), Some (ascii ''KRWJARDU126''),
      Some (ascii ''KRWJARDU127''), Some (ascii ''KRWJARDU128''), Some (ascii ''KRWJARDU129''),
      Some (ascii ''KRWJARDU130''), Some (ascii ''KRWJARDU131''), Some (ascii ''KRWJARDU132''),
      Some (ascii ''KRWJARDU133''), Some (ascii ''KRWJARDU134''), Some (ascii ''KRWJARDU135''),
      Some (ascii ''KRWJARDU136''), Some (ascii ''KRWJARDU137''), Some (ascii ''KRWJARDU138''),
      Some (ascii ''KRWJARDU139''), Some (ascii ''KRWJARDU140''), Some (ascii ''KRWJARDU141''),
      Some (ascii ''KRWJARDU142''), Some (ascii ''KRWJARDU143''), Some (ascii ''KRWJARDU144''),
      Some (ascii ''KRWJARDU145''), Some (ascii ''KRWJARDU146''), Some (ascii ''KRWJARDU147''),
      Some (ascii ''KRWJARDU148''), Some (ascii ''KRWJARDU149''), Some (ascii ''KRWJARDU150'')] @
     replicate 105 None"

section \<open>Operations\<close>

text \<open>The first loop: the pins it has configured as inputs, and whether all were ready.\<close>

fun dip_configure :: "(nat \<Rightarrow> bool) \<Rightarrow> nat list \<Rightarrow> nat list \<Rightarrow> nat list \<times> bool" where
  "dip_configure ready [] inputs = (inputs, True)"
| "dip_configure ready (i # is) inputs =
     (if \<not> ready i then (inputs, False) else dip_configure ready is (inputs @ [i]))"

definition dip_read :: "(nat \<Rightarrow> int) \<Rightarrow> u8" where
  "dip_read level = fold (\<lambda>i code_idx. if level i > 0 then code_idx OR push_bit i 1 else code_idx) [0..<8] 0"

definition dip_switch_apply ::
    "'s nvs_ops \<Rightarrow> (nat \<Rightarrow> bool) \<Rightarrow> (nat \<Rightarrow> int) \<Rightarrow> 's cfg_state \<Rightarrow> int \<times> nat list \<times> 's cfg_state" where
  "dip_switch_apply N ready level st =
     (case dip_configure ready [0..<8] [] of
        (inputs, False) \<Rightarrow> (0, inputs, st)
      | (inputs, True) \<Rightarrow>
          let code_idx = dip_read level
          in if code_idx = 0 then (0, inputs, st)
             else case dip_code_table ! unat code_idx of
                    None \<Rightarrow> (0, inputs, st)
                  | Some code \<Rightarrow>
                      let c = g_gw_config st;
                          mc = (strncpy (master_code c) code 31)[31 := 0]
                      in (1, inputs, config_nvs_save N (st\<lparr>g_gw_config := c\<lparr>master_code := mc\<rparr>\<rparr>)))"

section \<open>The table\<close>

text \<open>The entry of a number, in the three decimal digits of the device codes.\<close>

definition dip_code :: "nat \<Rightarrow> bytes" where
  "dip_code n = ascii ''KRWJARDU'' @ map (\<lambda>d. 0x30 + word_of_nat d) [n div 100, n div 10 mod 10, n mod 10]"

lemma dip_code_table_all:
  "length dip_code_table = 256 \<and>
   list_all (\<lambda>(n, e). e = (if 1 \<le> n \<and> n \<le> 150 then Some (dip_code n) else None))
     (zip [0..<256] dip_code_table)"
  by code_simp

lemma dip_code_table_nth:
  assumes "n < 256"
  shows "dip_code_table ! n = (if 1 \<le> n \<and> n \<le> 150 then Some (dip_code n) else None)"
proof -
  have l: "length dip_code_table = 256" using dip_code_table_all by blast
  have "(n, dip_code_table ! n) \<in> set (zip [0..<256] dip_code_table)"
    using assms l by (metis add_0 in_set_zip fst_conv snd_conv length_upt minus_nat.diff_0 nth_upt)
  then show ?thesis using dip_code_table_all by (auto simp: list_all_iff)
qed

lemma dip_code_props: "n < 1000 \<Longrightarrow> 0 \<notin> set (dip_code n) \<and> length (dip_code n) = 11"
proof -
  have z: "0x30 + word_of_nat d \<noteq> (0 :: u8)" if "d < 10" for d
  proof -
    have "d \<in> {0, 1, 2, 3, 4, 5, 6, 7, 8, 9}" using that by auto
    then show ?thesis by auto
  qed
  assume "n < 1000"
  then have "n div 100 < 10" "n div 10 mod 10 < 10" "n mod 10 < 10" by auto
  then show ?thesis using z by (auto simp: dip_code_def ascii_def of_char_def)
qed

section \<open>Reading the switches\<close>

definition switch_value :: "(nat \<Rightarrow> int) \<Rightarrow> nat" where
  "switch_value level = (\<Sum>i < 8. if level i > 0 then 2 ^ i else 0)"

lemma set_bit_value:
  fixes x :: "u8"
  assumes "unat x < 2 ^ k" "k < 8"
  shows "unat (x OR push_bit k 1) = unat x + 2 ^ k"
proof -
  have "unat x div 2 ^ k = 0" using assms(1) by simp
  then have "\<not> bit (unat x) k" unfolding bit_iff_odd by simp
  then have "\<not> bit x k" by (simp add: bit_unsigned_iff bit_imp_le_length)
  then have "x OR push_bit k 1 = x + push_bit k 1"
    by (intro disjunctive_add_eq_or [symmetric] bit_eqI) (auto simp: bit_simps)
  moreover have "unat (push_bit k 1 :: u8) = 2 ^ k"
  proof -
    have "(2::nat) ^ k < 2 ^ 8" using assms(2) by (intro power_strict_increasing) simp_all
    then have "unat (word_of_nat (2 ^ k) :: u8) = 2 ^ k" by (intro unat_of_nat_u8) simp
    then show ?thesis by simp
  qed
  moreover have "unat x + 2 ^ k < 2 ^ 8"
  proof -
    have "(2::nat) ^ k \<le> 2 ^ 7" using assms(2) by (intro power_increasing) simp_all
    then have "(2::nat) ^ k \<le> 128" by simp
    with assms(1) have "unat x + 2 ^ k < 256" by linarith
    then show ?thesis by simp
  qed
  ultimately show ?thesis by (simp add: unat_word_ariths)
qed
lemma dip_read_bits:
  "k \<le> 8 \<Longrightarrow>
   unat (fold (\<lambda>i code_idx. if level i > 0 then code_idx OR push_bit i 1 else code_idx) [0..<k] (0 :: u8)) =
     (\<Sum>i < k. if level i > 0 then 2 ^ i else 0) \<and>
   (\<Sum>i < k. if level i > 0 then 2 ^ i else 0) < (2 ^ k :: nat)"
proof (induction k)
  case (Suc k)
  then show ?case by (simp add: set_bit_value del: push_bit_of_1)
qed simp

lemma dip_read_value: "unat (dip_read level) = switch_value level"
  unfolding dip_read_def switch_value_def using dip_read_bits [of 8 level] by blast

lemma switch_value_less: "switch_value level < 256"
  using unat_u8_less [of "dip_read level"] by (simp add: dip_read_value)

lemma dip_configure_all: "list_all ready is \<Longrightarrow> dip_configure ready is inputs = (inputs @ is, True)"
  by (induction "is" arbitrary: inputs) simp_all

lemma dip_configure_fails: "\<not> list_all ready is \<Longrightarrow> \<not> snd (dip_configure ready is inputs)"
  by (induction "is" arbitrary: inputs) auto

section \<open>What the switches choose\<close>

lemma dip_field:
  assumes f: "field_ok 32 dst" and n: "n < 1000"
  defines "mc \<equiv> (strncpy dst (dip_code n) 31)[31 := 0]"
  shows "field_ok 32 mc" "c_str mc = dip_code n"
proof -
  have d: "0 \<notin> set (dip_code n)" "length (dip_code n) = 11" using dip_code_props [OF n] by auto
  have l: "length (strncpy dst (dip_code n) 31) = 32"
    using f d by (simp add: strncpy_def c_str_no_null field_ok_def)
  then show "field_ok 32 mc" by (simp add: mc_def field_ok_def)
  have "strncpy dst (dip_code n) 31 = dip_code n @ 0 # (replicate 19 0 @ drop 31 dst)"
    unfolding strncpy_def c_str_no_null [OF d(1)] using d(2) by (simp flip: replicate_Suc)
  then have "mc = dip_code n @ 0 # (replicate 19 0 @ drop 31 dst)[19 := 0]"
    using d(2) by (simp add: mc_def list_update_append)
  then show "c_str mc = dip_code n" using c_str_append_null [OF d(1)] by simp
qed

lemma dip_switch_apply_cases:
  "dip_switch_apply N ready level st =
    (if list_all ready [0..<8] then
       (let n = switch_value level; c = g_gw_config st;
            mc = (strncpy (master_code c) (dip_code n) 31)[31 := 0]
        in if 1 \<le> n \<and> n \<le> 150
           then (1, [0..<8], config_nvs_save N (st\<lparr>g_gw_config := c\<lparr>master_code := mc\<rparr>\<rparr>))
           else (0, [0..<8], st))
     else (0, fst (dip_configure ready [0..<8] []), st))"
proof (cases "list_all ready [0..<8]")
  case True
  have z: "dip_read level = 0 \<longleftrightarrow> switch_value level = 0"
    using dip_read_value [of level] by (metis unat_0 unat_eq_zero)
  show ?thesis
    unfolding dip_switch_apply_def dip_configure_all [OF True] if_P [OF True] Let_def z dip_read_value
      dip_code_table_nth [OF switch_value_less]
    by simp
next
  case False
  then show ?thesis using dip_configure_fails [OF False, of "[]"]
    unfolding dip_switch_apply_def by (cases "dip_configure ready [0..<8] []") auto
qed

lemma dip_switch_apply_wf:
  assumes "cfg_wf (g_gw_config st)"
  shows "cfg_wf (g_gw_config (snd (snd (dip_switch_apply N ready level st))))"
proof -
  have f: "field_ok 32 (master_code (g_gw_config st))" using assms by (simp add: cfg_wf_def)
  have "switch_value level < 1000" using switch_value_less [of level] by simp
  from dip_field(1) [OF f this] assms show ?thesis
    by (simp add: dip_switch_apply_cases Let_def config_nvs_save_def cfg_wf_def)
qed

text \<open>C38: the number that the eight switches show, SW1 counting one, chooses the device code: from
  1 to 150 it replaces the code of the configuration and nothing else, and the next boot loads
  it from the storage when no string of the configuration fills its array; with all switches
  off, a number above 150 or a pin that is not ready, configuration and storage stay as they
  are.\<close>

theorem dip_switch_selects:
  fixes level :: "nat \<Rightarrow> int"
  assumes N: "nvs_laws N" and w: "cfg_wf (g_gw_config st)" and ok: "nvs_ok st"
  defines "n \<equiv> switch_value level"
  shows "if list_all ready [0..<8] \<and> 1 \<le> n \<and> n \<le> 150
    then \<exists>mc st'. dip_switch_apply N ready level st = (1, [0..<8], st') \<and>
      g_gw_config st' = (g_gw_config st)\<lparr>master_code := mc\<rparr> \<and> c_str mc = dip_code n \<and>
      (cfg_fits (g_gw_config st) \<longrightarrow>
        (\<exists>b. config_nvs_load N k True 0 (boot\<lparr>nvs := nvs st'\<rparr>) = Some b \<and>
           c_str (master_code (g_gw_config b)) = dip_code n))
    else fst (dip_switch_apply N ready level st) = 0 \<and> snd (snd (dip_switch_apply N ready level st)) = st"
proof (cases "list_all ready [0..<8] \<and> 1 \<le> n \<and> n \<le> 150")
  case True
  define mc where "mc = (strncpy (master_code (g_gw_config st)) (dip_code n) 31)[31 := 0]"
  define s where "s = st\<lparr>g_gw_config := (g_gw_config st)\<lparr>master_code := mc\<rparr>\<rparr>"
  have f: "field_ok 32 (master_code (g_gw_config st))" using w by (simp add: cfg_wf_def)
  have n: "n < 1000" using True by simp
  note mc = dip_field [OF f n, folded mc_def]
  have a: "dip_switch_apply N ready level st = (1, [0..<8], config_nvs_save N s)"
    using True by (simp add: dip_switch_apply_cases n_def mc_def s_def Let_def)
  have sw: "cfg_wf (g_gw_config s)" "nvs_ok s" using w mc(1) ok by (simp_all add: s_def cfg_wf_def)
  have d: "length (dip_code n) = 11" "dip_code n \<noteq> []" using dip_code_props [OF n] by auto
  have "\<exists>b. config_nvs_load N k True 0 (boot\<lparr>nvs := nvs (config_nvs_save N s)\<rparr>) = Some b \<and>
      c_str (master_code (g_gw_config b)) = dip_code n" if "cfg_fits (g_gw_config st)"
  proof -
    have "cfg_fits (g_gw_config s)"
      using that mc(2) d by (simp add: cfg_fits_def cfg_strings_def s_def)
    with saved_then_loaded [OF N sw, of k boot] obtain b where
      b: "config_nvs_load N k True 0 (boot\<lparr>nvs := nvs (config_nvs_save N s)\<rparr>) = Some b"
        "cfg_view (g_gw_config b) = cfg_restored k (g_gw_config s)" by auto
    have "c_str (master_code (g_gw_config b)) = kept_str (master_code (load_defaults k)) mc"
      using arg_cong [OF b(2), of master_code] by (simp add: cfg_view_def cfg_restored_def cfg_merge_def s_def)
    then show ?thesis using b(1) mc(2) d(2) by (simp add: kept_str_def)
  qed
  then show ?thesis using True a mc(2) by (auto simp: s_def config_nvs_save_def ok)
next
  case False
  then show ?thesis by (auto simp: dip_switch_apply_cases n_def Let_def)
qed

text \<open>The fourth and the first switch on.\<close>

definition sample_switches :: "nat \<Rightarrow> int" where
  "sample_switches i = (if i = 0 \<or> i = 3 then 1 else 0)"

lemma dip_switch_selects_witness:
  "\<exists>mc st'. dip_switch_apply ram_nvs (\<lambda>_. True) sample_switches sample_cfg_state = (1, [0..<8], st') \<and>
      g_gw_config st' = (g_gw_config sample_cfg_state)\<lparr>master_code := mc\<rparr> \<and> c_str mc = dip_code 9 \<and>
      (\<exists>b. config_nvs_load ram_nvs sample_kconfig True 0 (sample_cfg_state\<lparr>nvs := nvs st'\<rparr>) = Some b \<and>
           c_str (master_code (g_gw_config b)) = dip_code 9)"
proof -
  have w: "cfg_wf (g_gw_config sample_cfg_state)" and ok: "nvs_ok sample_cfg_state"
    by (simp_all add: sample_cfg_state_def)
  have v: "switch_value sample_switches = 9"
    by code_simp
  have "cfg_fits (g_gw_config sample_cfg_state)" by code_simp
  then show ?thesis
    using dip_switch_selects [OF nvs_laws_ram w ok, of "\<lambda>_. True" sample_switches sample_kconfig sample_cfg_state]
    unfolding v by (simp add: list_all_iff)
qed

end
