(* ===== verification/Boot.thy ===== *)
theory Boot
  imports Rs232_Polled Dip_Switch Net_Manager
begin

text \<open>
  \<^verbatim>\<open>src/main.c\<close>: the start of the program, in the build without the DI/DO expanders and
  without the USB host, and \<open>rs232_task_start\<close> of \<^verbatim>\<open>src/rs232.c\<close>.  The steps run one after the
  other; what the platform answers to each is an argument.
\<close>

section \<open>Starting the serial ports\<close>

text \<open>The Kconfig symbols of the serial line.\<close>

record rs232_kconfig =
  rk_baud_rate :: nat
  rk_parity_even :: bool
  rk_parity_odd :: bool
  rk_stop_bits_2 :: bool
  rk_data_bits_7 :: bool
  rk_flow_rts_cts :: bool

text \<open>\<open>device_is_ready\<close>, \<open>uart_configure\<close> and \<open>uart_irq_callback_user_data_set\<close>.\<close>

record uart_platform =
  up_ready :: "device \<Rightarrow> bool"
  up_configure :: "device \<Rightarrow> uart_config \<Rightarrow> int"
  up_callback :: "device \<Rightarrow> int"

definition rs232_line :: "rs232_kconfig \<Rightarrow> uart_config" where
  "rs232_line K =
     \<lparr>u_baudrate = rk_baud_rate K,
      u_parity = (if rk_parity_even K then UART_CFG_PARITY_EVEN
                  else if rk_parity_odd K then UART_CFG_PARITY_ODD else UART_CFG_PARITY_NONE),
      u_stop_bits = (if rk_stop_bits_2 K then UART_CFG_STOP_BITS_2 else UART_CFG_STOP_BITS_1),
      u_data_bits = (if rk_data_bits_7 K then UART_CFG_DATA_BITS_7 else UART_CFG_DATA_BITS_8),
      u_flow_ctrl = (if rk_flow_rts_cts K then UART_CFG_FLOW_CTRL_RTS_CTS else UART_CFG_FLOW_CTRL_NONE)\<rparr>"

definition rs232_uart_setup :: "rs232_kconfig \<Rightarrow> uart_platform \<Rightarrow> device \<Rightarrow> int" where
  "rs232_uart_setup K P dev = up_configure P dev (rs232_line K)"

text \<open>The loop over the ports: the devices whose receive interrupt it enabled, and \<open>any_ok\<close>.\<close>

fun rs232_start_ports ::
    "rs232_kconfig \<Rightarrow> uart_platform \<Rightarrow> device option list \<Rightarrow> device list \<times> bool \<Rightarrow> device list \<times> bool" where
  "rs232_start_ports K P [] acc = acc"
| "rs232_start_ports K P (u # us) (irq, any_ok) =
     rs232_start_ports K P us
       (case u of
          None \<Rightarrow> (irq, any_ok)
        | Some dev \<Rightarrow>
            if \<not> up_ready P dev then (irq, any_ok)
            else if rs232_uart_setup K P dev \<noteq> 0 then (irq, any_ok)
            else if up_callback P dev \<noteq> 0 then (irq, any_ok)
            else (irq @ [dev], True))"

definition rs232_task_start ::
    "rs232_kconfig \<Rightarrow> uart_platform \<Rightarrow> device option \<Rightarrow> device option \<Rightarrow> rs232_state \<Rightarrow>
     bool \<times> device list \<times> rs232_state" where
  "rs232_task_start K P node0 node1 s =
     (let s1 = rs232_ports_init node0 node1 s;
          (irq, any_ok) = rs232_start_ports K P (rs_dev s1) ([], False)
      in (any_ok, irq, s1))"

text \<open>The same in the build without the receive interrupt: no callback is registered, and a port
  whose settings are accepted is in order.\<close>

fun polled_start_ports :: "rs232_kconfig \<Rightarrow> uart_platform \<Rightarrow> device option list \<Rightarrow> bool \<Rightarrow> bool" where
  "polled_start_ports K P [] any_ok = any_ok"
| "polled_start_ports K P (u # us) any_ok =
     polled_start_ports K P us
       (case u of
          None \<Rightarrow> any_ok
        | Some dev \<Rightarrow>
            if \<not> up_ready P dev then any_ok
            else if rs232_uart_setup K P dev \<noteq> 0 then any_ok
            else True)"

definition polled_task_start ::
    "rs232_kconfig \<Rightarrow> uart_platform \<Rightarrow> device option \<Rightarrow> device option \<Rightarrow> polled_state \<Rightarrow> bool \<times> polled_state" where
  "polled_task_start K P node0 node1 s =
     (let s1 = polled_ports_init node0 node1 s
      in (polled_start_ports K P (pl_dev s1) False, s1))"

section \<open>The start of the program\<close>

datatype gw_task = Adc_task | Netmgr_task | Tcp_task | Udp_task | Wifi_task | Di_do_task

text \<open>A thread is its function and its priority, the smaller the more urgent; \<open>create\<close> tells whether
  the operating system creates it.\<close>

type_synonym thread = "gw_task \<times> int"

abbreviation (input) adc_thread :: thread where "adc_thread \<equiv> (Adc_task, 0)"
abbreviation (input) netmgr_thread :: thread where "netmgr_thread \<equiv> (Netmgr_task, 4)"
abbreviation (input) tcp_thread :: thread where "tcp_thread \<equiv> (Tcp_task, 5)"
abbreviation (input) udp_thread :: thread where "udp_thread \<equiv> (Udp_task, 3)"
abbreviation (input) wifi_thread :: thread where "wifi_thread \<equiv> (Wifi_task, 4)"
abbreviation (input) di_do_thread :: thread where "di_do_thread \<equiv> (Di_do_task, 7)"

definition adc_task_start :: "(thread \<Rightarrow> bool) \<Rightarrow> int" where
  "adc_task_start create = (if \<not> create adc_thread then - 1 else 0)"

definition netmgr_start :: "(thread \<Rightarrow> bool) \<Rightarrow> int" where
  "netmgr_start create = (if \<not> create netmgr_thread then - 1 else 0)"

definition tcp_gateway_task_start :: "(thread \<Rightarrow> bool) \<Rightarrow> int" where
  "tcp_gateway_task_start create = (if \<not> create tcp_thread then - 1 else 0)"

definition udp_task_start :: "(thread \<Rightarrow> bool) \<Rightarrow> int" where
  "udp_task_start create = (if \<not> create udp_thread then - 1 else 0)"

definition wifi_task_start :: "(thread \<Rightarrow> bool) \<Rightarrow> int" where
  "wifi_task_start create = (if \<not> create wifi_thread then - 1 else 0)"

definition di_do_task_start :: "(thread \<Rightarrow> bool) \<Rightarrow> int" where
  "di_do_task_start create = (if \<not> create di_do_thread then - 1 else 0)"

lemma task_start_iff [simp]:
  "adc_task_start create = 0 \<longleftrightarrow> create adc_thread" "netmgr_start create = 0 \<longleftrightarrow> create netmgr_thread"
  "tcp_gateway_task_start create = 0 \<longleftrightarrow> create tcp_thread" "udp_task_start create = 0 \<longleftrightarrow> create udp_thread"
  by (simp_all add: adc_task_start_def netmgr_start_def tcp_gateway_task_start_def udp_task_start_def)

text \<open>How \<open>main\<close> ends: it stays in the menu, returns \<open>-1\<close>, or sleeps for ever, without or with
  the network tasks.\<close>

datatype boot_end = Menu_open | Failed | Offline | Online

record boot_env =
  be_flash_ready :: bool
  be_mount :: int
  be_dip_ready :: "nat \<Rightarrow> bool"
  be_dip_level :: "nat \<Rightarrow> int"
  be_console_ready :: bool
  be_uptime :: int
  be_key_polls :: "(int \<times> u8 option) list"
  be_console :: console
  be_thread :: "thread \<Rightarrow> bool"
  be_uart :: uart_platform
  be_node0 :: "device option"
  be_node1 :: "device option"

record 's boot =
  bt_end :: boot_end
  bt_tasks :: "thread list"
  bt_irq :: "device list"
  bt_rs232 :: rs232_state
  bt_cfg :: "'s cfg_state"

text \<open>The configuration the tasks are started with; \<open>None\<close> when loading it went beyond an array.\<close>

definition main_config ::
    "'s nvs_ops \<Rightarrow> kconfig \<Rightarrow> boot_env \<Rightarrow> 's cfg_state \<Rightarrow> (menu_exit \<times> 's cfg_state) option" where
  "main_config N k E st =
     (case config_nvs_load N k (be_flash_ready E) (be_mount E) st of
        None \<Rightarrow> None
      | Some st1 \<Rightarrow>
          let st2 = snd (snd (dip_switch_apply N (be_dip_ready E) (be_dip_level E) st1));
              (ex, con, st3) = config_nvs_menu N k (be_console_ready E) (be_uptime E) (be_key_polls E) (be_console E) st2
          in Some (ex, st3))"

text \<open>\<open>nm\<close> is the state of the network manager in which the wait of 180 seconds ends.\<close>

definition main_start ::
    "rs232_kconfig \<Rightarrow> boot_env \<Rightarrow> ('d, 's) netmgr \<Rightarrow> rs232_state \<Rightarrow> 's cfg_state \<Rightarrow> 's boot" where
  "main_start R E nm rs st =
     (if adc_task_start (be_thread E) \<noteq> 0
      then \<lparr>bt_end = Failed, bt_tasks = [], bt_irq = [], bt_rs232 = rs, bt_cfg = st\<rparr>
      else
        let (ok, irq, rs1) = rs232_task_start R (be_uart E) (be_node0 E) (be_node1 E) rs;
            result = (\<lambda>e ts. \<lparr>bt_end = e, bt_tasks = ts, bt_irq = irq, bt_rs232 = rs1, bt_cfg = st\<rparr>)
        in if \<not> ok then result Failed [adc_thread]
           else if netmgr_start (be_thread E) \<noteq> 0 then result Failed [adc_thread]
           else if \<not> fst (netmgr_wait_ready nm) then result Offline [adc_thread, netmgr_thread]
           else if tcp_gateway_task_start (be_thread E) \<noteq> 0 then result Failed [adc_thread, netmgr_thread]
           else if udp_task_start (be_thread E) \<noteq> 0 then result Failed [adc_thread, netmgr_thread, tcp_thread]
           else result Online [adc_thread, netmgr_thread, tcp_thread, udp_thread])"

definition main_boot ::
    "'s nvs_ops \<Rightarrow> kconfig \<Rightarrow> rs232_kconfig \<Rightarrow> boot_env \<Rightarrow> ('d, 's) netmgr \<Rightarrow> rs232_state \<Rightarrow> 's cfg_state \<Rightarrow>
     's boot option" where
  "main_boot N k R E nm rs st =
     (case main_config N k E st of
        None \<Rightarrow> None
      | Some (Waiting, st1) \<Rightarrow>
          Some \<lparr>bt_end = Menu_open, bt_tasks = [], bt_irq = [], bt_rs232 = rs, bt_cfg = st1\<rparr>
      | Some (_, st1) \<Rightarrow> Some (main_start R E nm rs st1))"

section \<open>The serial ports\<close>

text \<open>A port that can be used.\<close>

definition port_works :: "rs232_kconfig \<Rightarrow> uart_platform \<Rightarrow> device \<Rightarrow> bool" where
  "port_works K P dev \<longleftrightarrow> up_ready P dev \<and> up_configure P dev (rs232_line K) = 0 \<and> up_callback P dev = 0"

definition working_ports :: "rs232_kconfig \<Rightarrow> uart_platform \<Rightarrow> device option \<Rightarrow> device option \<Rightarrow> device list" where
  "working_ports K P node0 node1 = filter (port_works K P) (map the (filter (\<lambda>u. u \<noteq> None) [node0, node1]))"

lemma start_ports_result:
  "rs232_start_ports K P us (irq, b) =
    (let ds = filter (port_works K P) (map the (filter (\<lambda>u. u \<noteq> None) us)) in (irq @ ds, b \<or> ds \<noteq> []))"
  by (induction us arbitrary: irq b) (auto simp: port_works_def rs232_uart_setup_def Let_def split: option.split)

lemma task_start_result:
  "rs232_task_start K P node0 node1 s =
    (let ds = working_ports K P node0 node1 in (ds \<noteq> [], ds, rs232_ports_init node0 node1 s))"
  by (simp add: rs232_task_start_def start_ports_result rs232_ports_init_def working_ports_def Let_def)

lemma ports_init_wf: "rs232_wf s \<Longrightarrow> rs232_wf (rs232_ports_init node0 node1 s)"
  by (simp add: rs232_wf_def rs232_ports_init_def)

section \<open>The configuration\<close>

lemma load_wf:
  assumes "config_nvs_load N k flash_ready mount st = Some st'"
  shows "cfg_wf (g_gw_config st')"
  using config_nvs_load_cases [OF assms] cfg_wf_read_fields [OF cfg_wf_load_defaults]
  by (auto intro!: cfg_wf_force_boot_mode cfg_wf_build_boot_mode)

lemma menu_wf:
  assumes N: "nvs_laws N" and w: "cfg_wf (g_gw_config st)"
    and run: "config_nvs_menu N k ready now turns con st = (ex, con', st')"
  shows "cfg_wf (g_gw_config st')"
proof -
  have l: "cfg_wf (g_gw_config s')" if "cfg_menu_letter_loop N k c st = (ex, c', s')" for c c' s'
    using menu_keeps [OF N w that] by (auto simp: config_nvs_save_def split: if_splits)
  show ?thesis using run w l by (auto simp: config_nvs_menu_def split: if_splits option.splits)
qed

lemma main_config_wf:
  assumes N: "nvs_laws N" and c: "main_config N k E st = Some (ex, st')"
  shows "cfg_wf (g_gw_config st')"
proof -
  obtain st1 where l: "config_nvs_load N k (be_flash_ready E) (be_mount E) st = Some st1"
    using c by (auto simp: main_config_def split: option.splits)
  define st2 where "st2 = snd (snd (dip_switch_apply N (be_dip_ready E) (be_dip_level E) st1))"
  have w: "cfg_wf (g_gw_config st2)" unfolding st2_def by (rule dip_switch_apply_wf [OF load_wf [OF l]])
  obtain con where "config_nvs_menu N k (be_console_ready E) (be_uptime E) (be_key_polls E) (be_console E) st2 =
      (ex, con, st')"
    using c unfolding main_config_def l st2_def by (auto simp: Let_def split: prod.splits)
  from menu_wf [OF N w this] show ?thesis .
qed

lemma wait_published:
  assumes w: "cfg_wf (g_gw_config cfg)" and r: "netmgr_reach D N B d cfg (q, nm)"
  shows "fst (netmgr_wait_ready nm) = netmgr_is_ready nm"
    and "netmgr_is_ready nm \<Longrightarrow>
      netmgr_active_iface nm = mode_iface (effective_mode B (net_boot_mode (g_gw_config cfg)))"
  using netmgr_reach_inv [OF w r]
  by (cases q; auto simp: netmgr_inv_def netmgr_wait_ready_def netmgr_is_ready_def netmgr_active_iface_def
      mode_iface_def)+

text \<open>Without a key at the console the switches decide on the device code.\<close>

definition no_key :: "boot_env \<Rightarrow> bool" where
  "no_key E \<longleftrightarrow> \<not> be_console_ready E \<or>
     cfg_wait_for_setup_key (be_uptime E + 15 * 1000) (be_key_polls E) = None"

lemma main_config_switches:
  assumes c: "main_config N k E st = Some (ex, st')" and nk: "no_key E"
    and sw: "list_all (be_dip_ready E) [0..<8]" "1 \<le> switch_value (be_dip_level E)" "switch_value (be_dip_level E) \<le> 150"
  shows "c_str (master_code (g_gw_config st')) = dip_code (switch_value (be_dip_level E))"
proof -
  obtain st1 where l: "config_nvs_load N k (be_flash_ready E) (be_mount E) st = Some st1"
    using c by (auto simp: main_config_def split: option.splits)
  define st2 where "st2 = snd (snd (dip_switch_apply N (be_dip_ready E) (be_dip_level E) st1))"
  have m: "config_nvs_menu N k (be_console_ready E) (be_uptime E) (be_key_polls E) (be_console E) st2 =
      (Unsaved, be_console E, st2)"
    using nk by (auto simp: no_key_def config_nvs_menu_def)
  have s: "st' = st2" using c m unfolding main_config_def l option.case Let_def st2_def by simp
  have f: "field_ok 32 (master_code (g_gw_config st1))" using load_wf [OF l] by (simp add: cfg_wf_def)
  have "switch_value (be_dip_level E) < 1000" using sw by simp
  from dip_field(2) [OF f this] show ?thesis
    using sw unfolding s st2_def dip_switch_apply_cases by (simp add: Let_def config_nvs_save_def)
qed

text \<open>How far the start comes: the first \<open>n\<close> tasks.\<close>

definition boot_upto ::
    "rs232_kconfig \<Rightarrow> boot_env \<Rightarrow> ('d, 's) netmgr \<Rightarrow> rs232_state \<Rightarrow> 's cfg_state \<Rightarrow> 's boot \<Rightarrow> nat \<Rightarrow> bool" where
  "boot_upto R E nm rs st b n \<longleftrightarrow>
     n \<le> 4 \<and> bt_tasks b = take n [adc_thread, netmgr_thread, tcp_thread, udp_thread] \<and> bt_cfg b = st \<and>
     (bt_end b = Online \<longleftrightarrow> n = 4) \<and>
     (n \<ge> 2 \<longrightarrow> bt_irq b = working_ports R (be_uart E) (be_node0 E) (be_node1 E) \<and> bt_irq b \<noteq> []) \<and>
     (n \<ge> 3 \<longrightarrow> fst (netmgr_wait_ready nm)) \<and>
     (bt_end b = Offline \<longrightarrow> n = 2 \<and> \<not> fst (netmgr_wait_ready nm)) \<and>
     bt_rs232 b \<in> {rs, rs232_ports_init (be_node0 E) (be_node1 E) rs}"

lemma main_start_upto:
  fixes nm :: "('d, 's) netmgr" and st :: "'s cfg_state"
  defines "works \<equiv> \<lambda>R (E :: boot_env). working_ports R (be_uart E) (be_node0 E) (be_node1 E)"
  shows "\<exists>n. boot_upto R E nm rs st (main_start R E nm rs st) n"
proof -
  consider "\<not> be_thread E adc_thread" | "be_thread E adc_thread" "works R E = []"
    | "be_thread E adc_thread" "works R E \<noteq> []" "\<not> be_thread E netmgr_thread"
    | "be_thread E adc_thread" "works R E \<noteq> []" "be_thread E netmgr_thread" "\<not> fst (netmgr_wait_ready nm)"
    | "be_thread E adc_thread" "works R E \<noteq> []" "be_thread E netmgr_thread" "fst (netmgr_wait_ready nm)" "\<not> be_thread E tcp_thread"
    | "be_thread E adc_thread" "works R E \<noteq> []" "be_thread E netmgr_thread" "fst (netmgr_wait_ready nm)" "be_thread E tcp_thread"
    by blast
  then show ?thesis
  proof cases
    case 1
    then show ?thesis by (intro exI [of _ 0]) (simp add: boot_upto_def main_start_def)
  next
    case 2
    then show ?thesis
      by (intro exI [of _ 1]) (simp add: boot_upto_def main_start_def task_start_result works_def Let_def)
  next
    case 3
    then show ?thesis
      by (intro exI [of _ 1]) (simp add: boot_upto_def main_start_def task_start_result works_def Let_def)
  next
    case 4
    then show ?thesis
      by (intro exI [of _ 2]) (simp add: boot_upto_def main_start_def task_start_result works_def Let_def numeral_2_eq_2)
  next
    case 5
    then show ?thesis
      by (intro exI [of _ 2]) (simp add: boot_upto_def main_start_def task_start_result works_def Let_def numeral_2_eq_2)
  next
    case 6
    then show ?thesis
      by (intro exI [of _ "if be_thread E udp_thread then 4 else 3"])
        (simp add: boot_upto_def main_start_def task_start_result works_def Let_def numeral_eq_Suc)
  qed
qed

lemma main_boot_upto:
  assumes "main_boot N k R E nm rs st = Some b"
  obtains ex st1 n where "main_config N k E st = Some (ex, st1)" "boot_upto R E nm rs st1 b n"
proof -
  obtain ex st1 where c: "main_config N k E st = Some (ex, st1)"
    using assms by (cases "main_config N k E st") (auto simp: main_boot_def)
  have "b = (if ex = Waiting
      then \<lparr>bt_end = Menu_open, bt_tasks = [], bt_irq = [], bt_rs232 = rs, bt_cfg = st1\<rparr>
      else main_start R E nm rs st1)"
    using assms by (cases ex) (simp_all add: main_boot_def c)
  then have "\<exists>n. boot_upto R E nm rs st1 b n"
    using main_start_upto [of R E nm rs st1]
    by (cases "ex = Waiting") (auto simp: boot_upto_def intro: exI [of _ 0])
  with c that show thesis by blast
qed

text \<open>What the start leaves to the tasks.\<close>

lemma boot_leaves:
  assumes N: "nvs_laws N" and run: "main_boot N k R E nm rs232_boot st = Some b"
  shows "cfg_wf (g_gw_config (bt_cfg b))" "rs232_wf (bt_rs232 b)"
    and "no_key E \<Longrightarrow> list_all (be_dip_ready E) [0..<8] \<Longrightarrow> switch_value (be_dip_level E) \<in> {1..150} \<Longrightarrow>
      c_str (master_code (g_gw_config (bt_cfg b))) = dip_code (switch_value (be_dip_level E))"
    and "bt_end b = Online \<Longrightarrow> fst (netmgr_wait_ready nm)"
    and "bt_end b = Offline \<Longrightarrow> \<not> fst (netmgr_wait_ready nm)"
proof -
  obtain ex st1 n where c: "main_config N k E st = Some (ex, st1)" and up: "boot_upto R E nm rs232_boot st1 b n"
    by (rule main_boot_upto [OF run])
  note n = up [unfolded boot_upto_def]
  show "cfg_wf (g_gw_config (bt_cfg b))" using main_config_wf [OF N c] n by simp
  have "rs232_wf rs232_boot" by (simp add: rs232_wf_def rs232_boot_def)
  then show "rs232_wf (bt_rs232 b)" using n ports_init_wf by auto
  show "no_key E \<Longrightarrow> list_all (be_dip_ready E) [0..<8] \<Longrightarrow> switch_value (be_dip_level E) \<in> {1..150} \<Longrightarrow>
      c_str (master_code (g_gw_config (bt_cfg b))) = dip_code (switch_value (be_dip_level E))"
    using main_config_switches [OF c] n by simp
  show "bt_end b = Online \<Longrightarrow> fst (netmgr_wait_ready nm)" "bt_end b = Offline \<Longrightarrow> \<not> fst (netmgr_wait_ready nm)"
    using n by auto
qed

text \<open>C35: however the boot goes, when loading the configuration succeeds, the configuration the
  tasks get is well formed, and with the switches on a known number and no key at the console
  its device code is that number's.  The tasks start in one fixed order, as far as the platform
  allows: the network manager only when at least one serial port is configured and receives
  interrupts, the TCP task only when an interface is published, the one of the stored mode,
  and the UDP task after it.  Without a network within the wait the first two keep running
  alone.\<close>

theorem boot_sequence:
  assumes N: "nvs_laws N" and run: "main_boot N k R E nm rs232_boot st = Some b"
    and reach: "netmgr_reach D N B d (bt_cfg b) (q, nm)"
  shows "cfg_wf (g_gw_config (bt_cfg b)) \<and> rs232_wf (bt_rs232 b) \<and>
    (no_key E \<and> list_all (be_dip_ready E) [0..<8] \<and> switch_value (be_dip_level E) \<in> {1..150} \<longrightarrow>
       c_str (master_code (g_gw_config (bt_cfg b))) = dip_code (switch_value (be_dip_level E))) \<and>
    (\<exists>n. bt_tasks b = take n [adc_thread, netmgr_thread, tcp_thread, udp_thread]) \<and>
    (netmgr_thread \<in> set (bt_tasks b) \<longrightarrow>
       bt_irq b \<noteq> [] \<and> list_all (port_works R (be_uart E)) (bt_irq b)) \<and>
    (tcp_thread \<in> set (bt_tasks b) \<longrightarrow> netmgr_is_ready nm \<and>
       netmgr_active_iface nm = mode_iface (effective_mode B (net_boot_mode (g_gw_config (bt_cfg b))))) \<and>
    (bt_end b = Online \<longleftrightarrow> udp_thread \<in> set (bt_tasks b)) \<and>
    (bt_end b = Offline \<longrightarrow> bt_tasks b = [adc_thread, netmgr_thread] \<and> \<not> netmgr_is_ready nm)"
proof -
  obtain ex st1 n where c: "main_config N k E st = Some (ex, st1)" and up: "boot_upto R E nm rs232_boot st1 b n"
    by (rule main_boot_upto [OF run])
  note n = up [unfolded boot_upto_def] and w = boot_leaves(1) [OF N run]
  have "rs232_wf (bt_rs232 b)" by (rule boot_leaves(2) [OF N run])
  moreover have "list_all (port_works R (be_uart E)) (working_ports R (be_uart E) (be_node0 E) (be_node1 E))"
    by (simp add: working_ports_def list_all_iff)
  moreover have t: "netmgr_thread \<in> set (bt_tasks b) \<longleftrightarrow> n \<ge> 2" "tcp_thread \<in> set (bt_tasks b) \<longleftrightarrow> n \<ge> 3"
    "udp_thread \<in> set (bt_tasks b) \<longleftrightarrow> n = 4"
  proof -
    have "n = 0 \<or> n = 1 \<or> n = 2 \<or> n = 3 \<or> n = 4" using n by auto
    moreover have ts: "bt_tasks b = take n [adc_thread, netmgr_thread, tcp_thread, udp_thread]" using n by blast
    ultimately show "netmgr_thread \<in> set (bt_tasks b) \<longleftrightarrow> n \<ge> 2" "tcp_thread \<in> set (bt_tasks b) \<longleftrightarrow> n \<ge> 3"
      "udp_thread \<in> set (bt_tasks b) \<longleftrightarrow> n = 4" unfolding ts by auto
  qed
  moreover have "bt_end b = Offline \<Longrightarrow> bt_tasks b = [adc_thread, netmgr_thread]"
    using n by (auto simp: numeral_2_eq_2)
  ultimately show ?thesis
    using w n wait_published [OF w reach] main_config_switches [OF c] by auto
qed

text \<open>A board with an empty storage, the switches on 9, two working ports, no key and no network.\<close>

definition sample_rs232_kconfig :: rs232_kconfig where
  "sample_rs232_kconfig =
     \<lparr>rk_baud_rate = 9600, rk_parity_even = False, rk_parity_odd = False, rk_stop_bits_2 = False,
      rk_data_bits_7 = False, rk_flow_rts_cts = False\<rparr>"

definition sample_boot_env :: boot_env where
  "sample_boot_env =
     \<lparr>be_flash_ready = True, be_mount = 0, be_dip_ready = (\<lambda>_. True), be_dip_level = sample_switches,
      be_console_ready = False, be_uptime = 0, be_key_polls = [],
      be_console = \<lparr>rx_pushback = None, rx_script = []\<rparr>, be_thread = (\<lambda>_. True),
      be_uart = \<lparr>up_ready = (\<lambda>_. True), up_configure = (\<lambda>_ _. 0), up_callback = (\<lambda>_. 0)\<rparr>,
      be_node0 = Some 0, be_node1 = Some 1\<rparr>"

lemma boot_sequence_witness:
  "\<exists>b. main_boot ram_nvs sample_kconfig sample_rs232_kconfig sample_boot_env
        (netmgr_boot (0 :: nat) (bt_cfg b)) rs232_boot sample_cfg_state = Some b \<and>
     cfg_wf (g_gw_config (bt_cfg b)) \<and> c_str (master_code (g_gw_config (bt_cfg b))) = dip_code 9 \<and>
     bt_tasks b = [adc_thread, netmgr_thread]"
proof -
  let ?m = "main_config ram_nvs sample_kconfig sample_boot_env sample_cfg_state"
  obtain st1 where m: "?m = Some (Unsaved, st1)"
    by (simp add: main_config_def config_nvs_load_def nvs_init_fs_def sample_boot_env_def sample_cfg_state_def
        ram_nvs_def nvs_rd_u16_def config_nvs_menu_def Let_def)
  define nm where "nm = netmgr_boot (0 :: nat) st1"
  define b where "b = main_start sample_rs232_kconfig sample_boot_env nm rs232_boot st1"
  have run: "main_boot ram_nvs sample_kconfig sample_rs232_kconfig sample_boot_env nm rs232_boot sample_cfg_state = Some b"
    by (simp add: main_boot_def m b_def)
  have cfg: "bt_cfg b = st1" and e: "bt_end b = Offline"
    by (simp_all add: b_def main_start_def task_start_result working_ports_def port_works_def nm_def
        netmgr_boot_def netmgr_wait_ready_def sample_boot_env_def Let_def)
  have reach: "netmgr_reach (sample_net 0) ram_nvs sample_build 0 (bt_cfg b) (Cycle, nm)"
    unfolding nm_def cfg by (rule Start)
  have k: "no_key sample_boot_env" "list_all (be_dip_ready sample_boot_env) [0..<8]"
    by (simp_all add: no_key_def sample_boot_env_def list_all_iff)
  have v: "switch_value (be_dip_level sample_boot_env) = 9" by code_simp
  show ?thesis
    using boot_sequence [OF nvs_laws_ram run reach] run k e unfolding v nm_def cfg by (intro exI [of _ b]) (simp add: cfg)
qed

end
