(* ===== verification/Power_On.thy ===== *)
theory Power_On
  imports Board Boot
begin

text \<open>
  From the power to the datagrams: the start of the program (theory \<open>Boot\<close>) hands the loaded
  configuration and the initialised serial ports to the tasks of the board (theory \<open>Board\<close>), which
  run beside \<open>main\<close> until its wait for the network ends, and after it.
\<close>

section \<open>The hand-over\<close>

text \<open>The statics of the TCP task, the latch and the gate when the tasks start.\<close>

definition gw_start :: "rs232_state \<Rightarrow> gw_state" where
  "gw_start rs = \<lparr>gw_err = GW_ERR_NONE, gw_gate = sg_init, gw_port = rs, gw_sent = [], gw_tick = 0\<rparr>"

definition board_start :: "'s boot \<Rightarrow> 'd \<Rightarrow> 'a \<Rightarrow> ('d, 's, 'a) board" where
  "board_start b d a = board_boot d (bt_cfg b) (gw_start (bt_rs232 b)) a"

lemma gw_start_facts:
  "rs232_wf rs \<Longrightarrow> gw_wf (gw_start rs)" "\<not> sg_udp_allowed (gw_gate (gw_start rs))"
  by (simp_all add: gw_wf_def gw_start_def err_wf_def sg_init_def sg_udp_allowed_def gate_wf_def clock_init_def)

text \<open>Only the end of the wait for the network brings the network tasks.\<close>

lemma board_do_online: "ev \<noteq> Main_wait \<Longrightarrow> bd_online (board_do P ev b) = bd_online b"
  by (cases ev) (auto simp: board_do_def board_net_step_def board_connect_def board_poll_def board_udp_start_def
      board_udp_pass_def board_adc_def Let_def split: prod.split option.split udp_task.split)

lemma board_run_online: "Main_wait \<notin> set evs \<Longrightarrow> bd_online (board_run P evs b) = bd_online b"
proof (induction evs arbitrary: b)
  case (Cons ev evs)
  then have "bd_online (board_do P ev b) = bd_online b" by (intro board_do_online) auto
  with Cons show ?case by (simp add: board_run_def)
qed (simp add: board_run_def)

lemma board_main_online:
  "bd_point b \<noteq> Restart \<Longrightarrow> \<not> bd_online b \<Longrightarrow>
     bd_online (board_do P Main_wait b) = fst (netmgr_wait_ready (bd_nm b))"
  by (simp add: board_do_def board_main_def split: prod.split)

lemma board_wait_online:
  assumes "Main_wait \<notin> set (evs @ evs')" "\<not> bd_online b" "bd_point (board_run P evs b) \<noteq> Restart"
  shows "bd_online (board_run P (evs @ Main_wait # evs') b) =
    fst (netmgr_wait_ready (bd_nm (board_run P evs b)))"
proof -
  let ?b = "board_run P evs b"
  have "\<not> bd_online ?b" using assms(1,2) board_run_online [of evs P b] by simp
  then have "bd_online (board_do P Main_wait ?b) = fst (netmgr_wait_ready (bd_nm ?b))"
    using assms(3) by (rule board_main_online [rotated])
  moreover have "board_run P (evs @ Main_wait # evs') b = board_run P evs' (board_do P Main_wait ?b)"
    by (simp add: board_run_def)
  ultimately show ?thesis using board_run_online [of evs' P] assms(1) by simp
qed

lemma datagram_names: "datagram_ok c p \<Longrightarrow> \<exists>fs. mp_decode p = Some (MpStr (c_str (master_code c)) # fs, [])"
  by (auto simp: datagram_ok_def udp_fields_def Let_def)

section \<open>From the switches to the datagrams\<close>

text \<open>C6: From the power to the datagrams: whatever the storage, the switches, the console, the
  network, the server and the converter do, the network tasks run exactly when the start of the
  program found the network.  Without it no connection is opened and the UDP socket is not
  touched.  With it, every datagram goes to the peer configured for the interface of the stored
  mode and carries the device code of the loaded configuration; when the switches show a known
  number and no key was pressed, that is the code of the number.\<close>

theorem power_on_datagrams:
  fixes d :: 'd and a :: 'a
  assumes "nvs_laws (bp_nvs P)" "main_boot (bp_nvs P) k R E nm rs232_boot st = Some boot"
    and "bt_end boot \<in> {Online, Offline}"
    and "gateway_build P" "list_all (event_timegm timegm) (evs @ Main_wait # evs')"
    and "Main_wait \<notin> set (evs @ evs')"
  defines "waiting \<equiv> board_run P evs (board_start boot d a)"
  assumes "bd_point waiting \<noteq> Restart" "nm = bd_nm waiting"
  defines "b \<equiv> board_run P (evs @ Main_wait # evs') (board_start boot d a)"
  shows "(bd_online b \<longleftrightarrow> bt_end boot = Online) \<and>
    (bt_end boot = Offline \<longrightarrow> bd_tcp b = Idle \<and> udp_trace (bd_udp b) = []) \<and>
    (\<forall>(peer, p) \<in> set (udp_sends (udp_trace (bd_udp b))).
       configured_peer P (g_gw_config (bt_cfg boot)) peer \<and> datagram_ok (g_gw_config (bt_cfg boot)) p \<and>
       (no_key E \<and> list_all (be_dip_ready E) [0..<8] \<and> switch_value (be_dip_level E) \<in> {1..150} \<longrightarrow>
          (\<exists>fs. mp_decode p = Some (MpStr (dip_code (switch_value (be_dip_level E))) # fs, []))))"
proof -
  note left = boot_leaves [OF assms(1,2)]
  have "board_inv P timegm d (bt_cfg boot) b"
    unfolding b_def board_start_def
    by (rule board_run_inv [OF left(1) assms(4) gw_start_facts(1) [OF left(2)] gw_start_facts(2) assms(5)])
  then have u: "udp_task_ok P (g_gw_config (bt_cfg boot)) b"
    and off: "\<not> bd_online b \<longrightarrow> bd_tcp b = Idle \<and> bd_udp_task b = Udp_off"
    by (simp_all add: board_inv_def)
  have "\<not> bd_online (board_start boot d a)" by (simp add: board_start_def board_boot_def)
  from board_wait_online [OF assms(6) this assms(8) [unfolded waiting_def]]
  have "bd_online b = fst (netmgr_wait_ready nm)" by (simp add: b_def assms(9) waiting_def)
  then have on: "bd_online b \<longleftrightarrow> bt_end boot = Online"
    using assms(3) left(4,5) by auto
  have "configured_peer P (g_gw_config (bt_cfg boot)) peer \<and> datagram_ok (g_gw_config (bt_cfg boot)) p"
    if "(peer, p) \<in> set (udp_sends (udp_trace (bd_udp b)))" for peer p
    using u that unfolding udp_task_ok_def by blast
  with on off u left(3) datagram_names show ?thesis
    unfolding udp_task_ok_def by fastforce
qed

section \<open>A closed example\<close>

text \<open>The board of theory \<open>Boot\<close> with its switches on 9, on the Ethernet link of theory \<open>Board\<close>:
  the server synchronises it, a sample is taken, a datagram leaves.\<close>

definition sample_day :: "nat board_event list" where
  "sample_day = [Udp_start 3 0, Tcp_connect sample_env 3 0, Adc_tick,
     Tcp_poll sample_env (Recv (sync_frame 7 sample_sync_body))]"

lemma sample_config:
  obtains st mc where "main_config ram_nvs sample_kconfig sample_boot_env sample_cfg_state = Some (Unsaved, st)"
    "g_gw_config st = sample_c\<lparr>master_code := mc\<rparr>" "cfg_wf (g_gw_config st)"
proof -
  obtain st1 where l: "config_nvs_load ram_nvs sample_kconfig True 0 sample_cfg_state = Some st1"
    "g_gw_config st1 = sample_c"
    by (simp add: config_nvs_load_def nvs_init_fs_def sample_cfg_state_def ram_nvs_def nvs_rd_u16_def)
  let ?st = "snd (snd (dip_switch_apply ram_nvs (be_dip_ready sample_boot_env) (be_dip_level sample_boot_env) st1))"
  have c: "main_config ram_nvs sample_kconfig sample_boot_env sample_cfg_state = Some (Unsaved, ?st)"
    using l(1) by (simp add: main_config_def sample_boot_env_def config_nvs_menu_def)
  moreover have "\<exists>mc. g_gw_config ?st = sample_c\<lparr>master_code := mc\<rparr>"
    using l(2) by (auto simp: dip_switch_apply_cases Let_def config_nvs_save_def intro: exI [of _ "master_code sample_c"])
  ultimately show thesis using that main_config_wf [OF nvs_laws_ram c] by blast
qed

lemma power_on_datagrams_witness:
  "\<exists>boot (nm :: (nat, nat \<Rightarrow> bytes option) netmgr) uptime p fs. main_boot ram_nvs sample_kconfig sample_rs232_kconfig sample_boot_env nm rs232_boot
       sample_cfg_state = Some boot \<and> bt_end boot = Online \<and>
     ((0, 5001), p) \<in> set (udp_sends (udp_trace (bd_udp (board_run sample_board_env
       ([Net_step] @ Main_wait # sample_day @ [Adc_run uptime, Udp_pass Rx_none 180])
       (board_start boot 0 3))))) \<and>
     mp_decode p = Some (MpStr (dip_code 9) # fs, [])"
proof -
  let ?P = sample_board_env and ?D = "sample_net 20000" and ?N = ram_nvs
  obtain st mc where c: "main_config ?N sample_kconfig sample_boot_env sample_cfg_state = Some (Unsaved, st)"
    "g_gw_config st = sample_c\<lparr>master_code := mc\<rparr>" "cfg_wf (g_gw_config st)"
    by (rule sample_config)
  define rs where "rs = rs232_ports_init (Some 0) (Some 1) rs232_boot"
  define s0 where "s0 = board_boot (0 :: nat) st (gw_start rs) (3 :: nat)"
  define b1 where "b1 = board_run ?P sample_start s0"
  obtain nxt nm where s: "bd_point b1 = Eth_service (Some 2)" "bd_tcp b1 = Handshake nxt []"
    "bd_udp_task b1 = Udp_running (0, 5001)" "adc_sample_sem (bd_adc b1) = 1"
    and nm: "netmgr_step ?D ?N sample_build (Cycle, netmgr_boot 0 st) = (Eth_service (Some 2), nm)"
      "netmgr_wait_ready nm = (True, nm)"
    using sample_started [OF c(2,3), of "gw_start rs"] unfolding b1_def s0_def Let_def by blast
  define boot where "boot = main_start sample_rs232_kconfig sample_boot_env nm rs232_boot st"
  have run: "main_boot ?N sample_kconfig sample_rs232_kconfig sample_boot_env nm rs232_boot sample_cfg_state = Some boot"
    by (simp add: main_boot_def c(1) boot_def)
  have b: "bt_end boot = Online" "bt_cfg boot = st" "bt_rs232 boot = rs"
    by (simp_all add: boot_def main_start_def task_start_result working_ports_def port_works_def nm(2)
        sample_boot_env_def rs_def Let_def)
  have s0: "board_start boot 0 3 = s0" by (simp add: board_start_def b s0_def)
  have rw: "rs232_wf rs" unfolding rs_def by (rule ports_init_wf) (simp add: rs232_wf_def rs232_boot_def)
  have inv: "board_inv ?P (e_timegm sample_env) 0 st b1"
    unfolding b1_def s0_def
    by (rule board_run_inv [OF c(3) sample_board_facts(1) gw_start_facts(1) [OF rw] gw_start_facts(2)
        sample_board_facts(4)])
  define u where "u = e_uptime sample_env (gw_tick (bd_gw b1))"
  let ?evs = "sample_day @ [Adc_run u, Udp_pass Rx_none 180]"
  have evs: "[Net_step] @ Main_wait # ?evs = sample_start @ [Tcp_poll sample_env (Recv (sync_frame 7 sample_sync_body)),
      Adc_run u, Udp_pass Rx_none 180]"
    by (simp add: sample_start_def sample_day_def)
  let ?b = "board_run ?P ([Net_step] @ Main_wait # ?evs) (board_start boot 0 3)"
  have "bd_point b1 \<noteq> Restart" "0 < adc_sample_sem (bd_adc b1)" using s by simp_all
  then obtain p where "udp_sends (udp_trace (bd_udp ?b)) = udp_sends (udp_trace (bd_udp b1)) @ [((0, 5001), p)]"
    using first_datagram [OF sample_board_facts(1) inv _ s(2,3) _ sample_timegm sample_sync_checked
        sample_sync_day sample_converter, of 7 Rx_none 180, folded u_def]
    unfolding evs board_run_append s0 b1_def [symmetric] by blast
  then have p: "((0, 5001), p) \<in> set (udp_sends (udp_trace (bd_udp ?b)))" by simp
  have w: "board_run ?P [Net_step] (board_start boot 0 3) = s0\<lparr>bd_point := Eth_service (Some 2), bd_nm := nm\<rparr>"
    using nm(1) by (simp add: s0 s0_def board_boot_def board_run_def board_do_def board_net_step_def sample_board_env_def)
  have P: "bp_nvs ?P = ?N" by (simp add: sample_board_env_def)
  have ev: "list_all (event_timegm (e_timegm sample_env)) ([Net_step] @ Main_wait # ?evs)"
    "Main_wait \<notin> set ([Net_step] @ ?evs)"
    by (simp_all add: sample_day_def event_timegm_def)
  have k: "no_key sample_boot_env" "list_all (be_dip_ready sample_boot_env) [0..<8]"
    by (simp_all add: no_key_def sample_boot_env_def list_all_iff)
  have v: "switch_value (be_dip_level sample_boot_env) = 9" by code_simp
  note t = power_on_datagrams [of ?P, unfolded P, OF nvs_laws_ram run _ sample_board_facts(1) ev, of 0 3, unfolded w]
  have "\<exists>fs. mp_decode p = Some (MpStr (dip_code 9) # fs, [])"
    using t p k b(1) by (fastforce simp: v)
  with run b(1) p show ?thesis by blast
qed

end
