(* ===== verification/Gas_Sensor.thy ===== *)
theory Gas_Sensor
  imports Gw_Float Config_Nvs
begin

text \<open>
  \<^verbatim>\<open>src/gas_sensor.c\<close>: the parsers of the gas sensors on the two USB serial ports.  The bytes
  of a port are collected in a small buffer; a line feed (text sensors) or the 22nd byte (the
  binary sensor) completes a frame, which the parser of the port's model turns into a reading.
  Floats are rationals rounded by \<open>f32\<close> after every operation; the conversion of a float to
  a 16-bit integer, which C defines only for values that fit, is the parameter \<open>cvt\<close>.
\<close>

section \<open>Models\<close>

abbreviation (input) GAS_MODEL_NONE :: u8 where "GAS_MODEL_NONE \<equiv> 0"
abbreviation (input) GAS_MODEL_O2_SM30 :: u8 where "GAS_MODEL_O2_SM30 \<equiv> 1"
abbreviation (input) GAS_MODEL_H2S_SM30 :: u8 where "GAS_MODEL_H2S_SM30 \<equiv> 2"
abbreviation (input) GAS_MODEL_CO_SM30 :: u8 where "GAS_MODEL_CO_SM30 \<equiv> 3"
abbreviation (input) GAS_MODEL_CH4_S3_3V :: u8 where "GAS_MODEL_CH4_S3_3V \<equiv> 4"
abbreviation (input) GAS_MODEL_S300_3V :: u8 where "GAS_MODEL_S300_3V \<equiv> 5"
abbreviation (input) GAS_MODEL_AM1002 :: u8 where "GAS_MODEL_AM1002 \<equiv> 6"
abbreviation (input) GAS_MODEL_COUNT :: u8 where "GAS_MODEL_COUNT \<equiv> 7"
abbreviation (input) GAS_PORT_USB1 :: nat where "GAS_PORT_USB1 \<equiv> 0"
abbreviation (input) GAS_PORT_USB0 :: nat where "GAS_PORT_USB0 \<equiv> 1"
abbreviation (input) GAS_PORT_COUNT :: nat where "GAS_PORT_COUNT \<equiv> 2"
abbreviation (input) ACC_BUF_SIZE :: nat where "ACC_BUF_SIZE \<equiv> 24"

text \<open>The first name is Korean for none, in UTF-8.\<close>

definition gas_model_name :: "u8 \<Rightarrow> string" where
  "gas_model_name model =
     (if model < GAS_MODEL_COUNT
      then [[CHR 0xEC, CHR 0x97, CHR 0x86, CHR 0xEC, CHR 0x9D, CHR 0x8C],
            ''O2-SM30'', ''H2S-SM30'', ''CO-SM30'', ''CH4-S3-3V'', ''S-300-3V'', ''AM1002''] ! unat model
      else ''?'')"

definition gas_model_unit :: "u8 \<Rightarrow> string" where
  "gas_model_unit model =
     (if model < GAS_MODEL_COUNT
      then [[], ''%Vol'', ''ppm'', ''ppm'', ''ppm'', ''ppm'', ''ug/m3''] ! unat model else [])"

section \<open>State\<close>

record gas_reading =
  gr_valid :: bool
  gr_raw :: u16
  gr_pct :: rat

record sensor_ctx =
  acc_buf :: bytes
  acc_pos :: nat
  reading :: gas_reading
  model :: u8

definition no_reading :: gas_reading where
  "no_reading = \<lparr>gr_valid = False, gr_raw = 0, gr_pct = 0\<rparr>"

text \<open>The statics of a port: all zero.\<close>

definition sensor_boot :: sensor_ctx where
  "sensor_boot = \<lparr>acc_buf = replicate ACC_BUF_SIZE 0, acc_pos = 0, reading = no_reading, model = 0\<rparr>"

section \<open>Numbers\<close>

primrec ascii_loop :: "bytes \<Rightarrow> rat \<times> rat \<times> rat \<times> bool \<Rightarrow> rat \<times> rat \<times> rat \<times> bool" where
  "ascii_loop [] s = s"
| "ascii_loop (c # cs) s = ascii_loop cs
     (case s of (integer, fr, dv, in_frac) \<Rightarrow>
        if c \<ge> 0x30 \<and> c \<le> 0x39 then
          let digit = of_nat (unat (c - 0x30))
          in if \<not> in_frac then (f32 (f32 (integer * 10) + digit), fr, dv, in_frac)
             else (integer, f32 (fr + f32 (digit / f32 (dv * 10))), f32 (dv * 10), in_frac)
        else if c = 0x2E then (integer, fr, dv, True)
        else s)"

definition ascii_to_float :: "bytes \<Rightarrow> rat" where
  "ascii_to_float s =
     (case ascii_loop s (0, 0, 1, False) of (integer, fr, _, _) \<Rightarrow> f32 (integer + fr))"

section \<open>Parsers\<close>

definition set_reading :: "rat \<Rightarrow> u16 \<Rightarrow> sensor_ctx \<Rightarrow> sensor_ctx" where
  "set_reading pct raw sc = sc\<lparr>reading := \<lparr>gr_valid = True, gr_raw = raw, gr_pct = pct\<rparr>\<rparr>"

text \<open>The index of the last character \<open>c\<close> of the value, before CR LF or before LF.\<close>

definition tail_idx :: "u8 \<Rightarrow> bytes \<Rightarrow> nat \<Rightarrow> nat option" where
  "tail_idx c buf pos =
     (if pos \<ge> 4 \<and> buf ! (pos - 3) = c then Some (pos - 3)
      else if pos \<ge> 3 \<and> buf ! (pos - 2) = c then Some (pos - 2)
      else None)"

text \<open>The loop that skips leading blanks of the first \<open>n\<close> characters.\<close>

definition blanks :: "bytes \<Rightarrow> nat \<Rightarrow> nat" where
  "blanks buf n = length (takeWhile (\<lambda>c. c = 0x20) (take n buf))"

definition parse_o2 :: "(rat \<Rightarrow> u16) \<Rightarrow> nat \<Rightarrow> sensor_ctx \<Rightarrow> sensor_ctx" where
  "parse_o2 cvt pos sc =
     (case tail_idx 0x25 (acc_buf sc) pos of
        None \<Rightarrow> sc
      | Some pct_idx \<Rightarrow>
          if pct_idx < 3 then sc
          else
            let num_len = (if acc_buf sc ! (pct_idx - 1) = 0x20 then pct_idx - 1 else pct_idx)
            in if num_len < 2 \<or> num_len > 7 then sc
               else
                 let pct = ascii_to_float (take num_len (acc_buf sc))
                 in set_reading pct (cvt (f32 (pct * 100))) sc)"

definition parse_ppm :: "(rat \<Rightarrow> u16) \<Rightarrow> nat \<Rightarrow> sensor_ctx \<Rightarrow> sensor_ctx" where
  "parse_ppm cvt pos sc =
     (case tail_idx 0x6D (acc_buf sc) pos of
        None \<Rightarrow> sc
      | Some m_idx \<Rightarrow>
          if m_idx < 3 \<or> acc_buf sc ! (m_idx - 1) \<noteq> 0x70 \<or> acc_buf sc ! (m_idx - 2) \<noteq> 0x70 then sc
          else
            let num_field_len = m_idx - 3
            in if num_field_len < 1 then sc
               else
                 let start = blanks (acc_buf sc) num_field_len;
                     digit_len = num_field_len - start
                 in if digit_len < 1 \<or> digit_len > 8 then sc
                    else
                      let val = ascii_to_float (take digit_len (drop start (acc_buf sc)))
                      in set_reading val (if val > 65535 then 65535 else cvt val) sc)"

definition lel_pos :: "bytes \<Rightarrow> nat \<Rightarrow> nat option" where
  "lel_pos buf pos =
     (if pos \<ge> 9 \<and> buf ! (pos - 3) = 0x4C \<and> buf ! (pos - 4) = 0x45 \<and> buf ! (pos - 5) = 0x4C
      then Some (pos - 7)
      else if pos \<ge> 8 \<and> buf ! (pos - 2) = 0x4C \<and> buf ! (pos - 3) = 0x45 \<and> buf ! (pos - 4) = 0x4C
      then Some (pos - 6)
      else None)"

definition parse_ch4 :: "(rat \<Rightarrow> u16) \<Rightarrow> nat \<Rightarrow> sensor_ctx \<Rightarrow> sensor_ctx" where
  "parse_ch4 cvt pos sc =
     (case lel_pos (acc_buf sc) pos of
        Some pct_pos \<Rightarrow>
          if acc_buf sc ! pct_pos = 0x25 then
            let start = blanks (acc_buf sc) pct_pos;
                digit_len = pct_pos - start
            in if digit_len < 1 \<or> digit_len > 3 then sc
               else
                 let val = f32 (ascii_to_float (take digit_len (drop start (acc_buf sc))) * 500)
                 in set_reading val (cvt (if val > 65535 then 65535 else val)) sc
          else parse_ppm cvt pos sc
      | None \<Rightarrow> parse_ppm cvt pos sc)"

definition parse_am1002 :: "sensor_ctx \<Rightarrow> sensor_ctx" where
  "parse_am1002 sc =
     (let b = acc_buf sc
      in if b ! 0 \<noteq> 0x16 \<or> b ! 1 \<noteq> 0x13 \<or> b ! 2 \<noteq> 0x16 then sc
         else
           let sum = sum_list (map ucast (take 21 b)) :: u32
           in if (ucast ((256 - (sum AND 0xFF)) AND 0xFF) :: u8) \<noteq> b ! 21 then sc
              else
                let pm25 = push_bit 8 (ucast (b ! 9)) OR ucast (b ! 10) :: u16
                in set_reading (of_nat (unat pm25)) pm25 sc)"

section \<open>The byte stream\<close>

definition acc_push :: "u8 \<Rightarrow> sensor_ctx \<Rightarrow> sensor_ctx" where
  "acc_push b sc =
     (if acc_pos sc < ACC_BUF_SIZE
      then sc\<lparr>acc_buf := (acc_buf sc)[acc_pos sc := b], acc_pos := acc_pos sc + 1\<rparr> else sc)"

text \<open>The parser of a text model, for a line of \<open>pos\<close> bytes.\<close>

definition parse_line :: "(rat \<Rightarrow> u16) \<Rightarrow> u8 \<Rightarrow> nat \<Rightarrow> sensor_ctx \<Rightarrow> sensor_ctx" where
  "parse_line cvt m pos sc =
     (if m = GAS_MODEL_O2_SM30 then parse_o2 cvt pos sc
      else if m = GAS_MODEL_H2S_SM30 \<or> m = GAS_MODEL_CO_SM30 \<or> m = GAS_MODEL_S300_3V
      then parse_ppm cvt pos sc
      else if m = GAS_MODEL_CH4_S3_3V then parse_ch4 cvt pos sc
      else sc)"

definition parse_byte :: "(rat \<Rightarrow> u16) \<Rightarrow> u8 \<Rightarrow> u8 \<Rightarrow> sensor_ctx \<Rightarrow> sensor_ctx" where
  "parse_byte cvt m b sc =
     (if m = GAS_MODEL_AM1002 then
        if acc_pos sc = 0 \<and> b \<noteq> 0x16 then sc
        else
          let sc1 = acc_push b sc
          in if acc_pos sc1 \<ge> 22 then (parse_am1002 sc1)\<lparr>acc_pos := 0\<rparr> else sc1
      else
        let sc1 = acc_push b sc;
            sc2 = (if b = 0x0A then (parse_line cvt m (acc_pos sc1) sc1)\<lparr>acc_pos := 0\<rparr> else sc1)
        in if acc_pos sc2 \<ge> ACC_BUF_SIZE then sc2\<lparr>acc_pos := 0\<rparr> else sc2)"

text \<open>The model is read once for the whole chunk.\<close>

definition parse_bytes :: "(rat \<Rightarrow> u16) \<Rightarrow> bytes \<Rightarrow> sensor_ctx \<Rightarrow> sensor_ctx" where
  "parse_bytes cvt data sc = fold (parse_byte cvt (model sc)) data sc"

section \<open>The two ports\<close>

definition on_port :: "nat \<Rightarrow> (sensor_ctx \<Rightarrow> sensor_ctx) \<Rightarrow> sensor_ctx list \<Rightarrow> sensor_ctx list" where
  "on_port port f ss = ss[port := f (ss ! port)]"

definition ftdi_rx_handler :: "(rat \<Rightarrow> u16) \<Rightarrow> nat \<Rightarrow> bytes \<Rightarrow> sensor_ctx list \<Rightarrow> sensor_ctx list" where
  "ftdi_rx_handler cvt port data ss =
     on_port (if port = 0 then GAS_PORT_USB1 else GAS_PORT_USB0) (parse_bytes cvt data) ss"

definition gas_sensor_set_model :: "nat \<Rightarrow> u8 \<Rightarrow> sensor_ctx list \<Rightarrow> sensor_ctx list" where
  "gas_sensor_set_model port m ss =
     (if port \<ge> GAS_PORT_COUNT \<or> m \<ge> GAS_MODEL_COUNT then ss
      else on_port port (\<lambda>sc. sc\<lparr>model := m, acc_pos := 0, reading := no_reading\<rparr>) ss)"

definition gas_sensor_get_model :: "nat \<Rightarrow> sensor_ctx list \<Rightarrow> u8" where
  "gas_sensor_get_model port ss = (if port < GAS_PORT_COUNT then model (ss ! port) else GAS_MODEL_NONE)"

definition gas_sensor_start :: "gw_config \<Rightarrow> sensor_ctx list \<Rightarrow> sensor_ctx list" where
  "gas_sensor_start c ss =
     (let m1 = (if sensor_model_usb1 c \<ge> GAS_MODEL_COUNT then GAS_MODEL_NONE else sensor_model_usb1 c);
          m0 = (if sensor_model_usb0 c \<ge> GAS_MODEL_COUNT then GAS_MODEL_NONE else sensor_model_usb0 c);
          ss1 = map (\<lambda>sc. sc\<lparr>acc_pos := 0, reading := no_reading\<rparr>) ss
      in on_port GAS_PORT_USB0 (\<lambda>sc. sc\<lparr>model := m0\<rparr>)
           (on_port GAS_PORT_USB1 (\<lambda>sc. sc\<lparr>model := m1\<rparr>) ss1))"

definition gas_sensor_get :: "nat \<Rightarrow> sensor_ctx list \<Rightarrow> gas_reading" where
  "gas_sensor_get type ss = (if type \<ge> GAS_PORT_COUNT then no_reading else reading (ss ! type))"

section \<open>The parsers read the frame only\<close>

lemma set_reading_same [simp]:
  "acc_buf (set_reading p r sc) = acc_buf sc" "acc_pos (set_reading p r sc) = acc_pos sc"
  "model (set_reading p r sc) = model sc"
  "reading (set_reading p r sc) = \<lparr>gr_valid = True, gr_raw = r, gr_pct = p\<rparr>"
  by (simp_all add: set_reading_def)

lemma parse_ppm_same [simp]:
  "acc_buf (parse_ppm cvt pos sc) = acc_buf sc" "acc_pos (parse_ppm cvt pos sc) = acc_pos sc"
  "model (parse_ppm cvt pos sc) = model sc"
  by (simp_all add: parse_ppm_def Let_def split: option.split)

lemma parse_line_same [simp]:
  "acc_buf (parse_line cvt m pos sc) = acc_buf sc" "acc_pos (parse_line cvt m pos sc) = acc_pos sc"
  "model (parse_line cvt m pos sc) = model sc"
  by (simp_all add: parse_line_def parse_o2_def parse_ch4_def Let_def split: option.split)

lemma parse_am1002_same [simp]:
  "acc_buf (parse_am1002 sc) = acc_buf sc" "acc_pos (parse_am1002 sc) = acc_pos sc"
  "model (parse_am1002 sc) = model sc"
  by (simp_all add: parse_am1002_def Let_def)

lemma take_agree:
  assumes "take n a = take n b" "k \<le> n"
  shows "take k a = take k b"
  using assms by (metis min.absorb1 take_take)

lemma nth_agree:
  assumes "take n a = take n b" "i < n"
  shows "a ! i = b ! i"
  using assms by (metis nth_take)

lemma slice_agree:
  assumes "take n a = take n b" "s + d \<le> n"
  shows "take d (drop s a) = take d (drop s b)"
  using take_agree [OF assms] by (metis drop_take add_diff_cancel_left')

lemma tail_idx_agree:
  assumes "take n a = take n b"
  shows "tail_idx c a n = tail_idx c b n"
  using nth_agree [OF assms, of "n - 3"] nth_agree [OF assms, of "n - 2"] by (auto simp: tail_idx_def)

lemma tail_idx_less: "tail_idx c buf n = Some i \<Longrightarrow> i + 2 \<le> n"
  by (auto simp: tail_idx_def split: if_splits)

lemma lel_pos_agree:
  assumes "take n a = take n b"
  shows "lel_pos a n = lel_pos b n"
  using nth_agree [OF assms, of "n - 3"] nth_agree [OF assms, of "n - 2"] nth_agree [OF assms, of "n - 4"]
    nth_agree [OF assms, of "n - 5"] by (auto simp: lel_pos_def)

lemma lel_pos_less: "lel_pos buf n = Some i \<Longrightarrow> i + 6 \<le> n"
  by (auto simp: lel_pos_def split: if_splits)

lemma blanks_agree: "take n a = take n b \<Longrightarrow> k \<le> n \<Longrightarrow> blanks a k = blanks b k"
  unfolding blanks_def using take_agree by metis

lemma blanks_le: "blanks buf n \<le> n"
proof -
  have "blanks buf n \<le> length (take n buf)" unfolding blanks_def by (rule length_takeWhile_le)
  then show ?thesis by simp
qed

lemma parse_ppm_agree:
  assumes a: "take n (acc_buf sc) = take n (acc_buf sc')" and r: "reading sc = reading sc'"
  shows "reading (parse_ppm cvt n sc) = reading (parse_ppm cvt n sc')"
proof (cases "tail_idx 0x6D (acc_buf sc) n")
  case None
  then show ?thesis using tail_idx_agree [OF a] r by (simp add: parse_ppm_def)
next
  case (Some i)
  have i: "i + 2 \<le> n" by (rule tail_idx_less [OF Some])
  have bl: "blanks (acc_buf sc') (i - 3) = blanks (acc_buf sc) (i - 3)"
    using blanks_agree [OF a, of "i - 3"] i by simp
  have sl: "take (i - 3 - blanks (acc_buf sc) (i - 3)) (drop (blanks (acc_buf sc) (i - 3)) (acc_buf sc')) =
      take (i - 3 - blanks (acc_buf sc) (i - 3)) (drop (blanks (acc_buf sc) (i - 3)) (acc_buf sc))"
    by (rule slice_agree [OF a [symmetric]]) (use blanks_le [of "acc_buf sc" "i - 3"] i in linarith)
  have nth: "acc_buf sc' ! (i - 1) = acc_buf sc ! (i - 1)" "acc_buf sc' ! (i - 2) = acc_buf sc ! (i - 2)"
    using nth_agree [OF a, of "i - 1"] nth_agree [OF a, of "i - 2"] i by simp_all
  have t: "tail_idx 0x6D (acc_buf sc') n = Some i" using tail_idx_agree [OF a] Some by simp
  show ?thesis
    unfolding parse_ppm_def Some t option.case Let_def bl sl nth by (simp add: r)
qed

lemma parse_o2_agree:
  assumes a: "take n (acc_buf sc) = take n (acc_buf sc')" and r: "reading sc = reading sc'"
  shows "reading (parse_o2 cvt n sc) = reading (parse_o2 cvt n sc')"
proof (cases "tail_idx 0x25 (acc_buf sc) n")
  case None
  then show ?thesis using tail_idx_agree [OF a] r by (simp add: parse_o2_def)
next
  case (Some i)
  have i: "i + 2 \<le> n" by (rule tail_idx_less [OF Some])
  have tk: "take i (acc_buf sc') = take i (acc_buf sc)" "take (i - 1) (acc_buf sc') = take (i - 1) (acc_buf sc)"
    using take_agree [OF a, of i] take_agree [OF a, of "i - 1"] i by simp_all
  have nth: "acc_buf sc' ! (i - 1) = acc_buf sc ! (i - 1)"
    using nth_agree [OF a, of "i - 1"] i by simp
  have t: "tail_idx 0x25 (acc_buf sc') n = Some i" using tail_idx_agree [OF a] Some by simp
  show ?thesis
    unfolding parse_o2_def Some t option.case Let_def nth using tk by (simp add: r)
qed

lemma parse_ch4_agree:
  assumes a: "take n (acc_buf sc) = take n (acc_buf sc')" and r: "reading sc = reading sc'"
  shows "reading (parse_ch4 cvt n sc) = reading (parse_ch4 cvt n sc')"
proof (cases "lel_pos (acc_buf sc) n")
  case None
  then show ?thesis using lel_pos_agree [OF a] parse_ppm_agree [OF a r] by (simp add: parse_ch4_def)
next
  case (Some i)
  have i: "i + 6 \<le> n" by (rule lel_pos_less [OF Some])
  have bl: "blanks (acc_buf sc') i = blanks (acc_buf sc) i"
    using blanks_agree [OF a, of i] i by simp
  have sl: "take (i - blanks (acc_buf sc) i) (drop (blanks (acc_buf sc) i) (acc_buf sc')) =
      take (i - blanks (acc_buf sc) i) (drop (blanks (acc_buf sc) i) (acc_buf sc))"
    by (rule slice_agree [OF a [symmetric]]) (use blanks_le [of "acc_buf sc" i] i in linarith)
  have nth: "acc_buf sc' ! i = acc_buf sc ! i" using nth_agree [OF a, of i] i by simp
  have t: "lel_pos (acc_buf sc') n = Some i" using lel_pos_agree [OF a] Some by simp
  show ?thesis
    using parse_ppm_agree [OF a r, of cvt]
    unfolding parse_ch4_def Some t option.case Let_def bl sl nth by (simp add: r)
qed

lemma parse_line_agree:
  assumes a: "take n (acc_buf sc) = take n (acc_buf sc')" and r: "reading sc = reading sc'"
  shows "reading (parse_line cvt m n sc) = reading (parse_line cvt m n sc')"
  using parse_o2_agree [OF a r, of cvt] parse_ppm_agree [OF a r, of cvt] parse_ch4_agree [OF a r, of cvt] r
  unfolding parse_line_def by simp

lemma parse_am1002_agree:
  assumes a: "take 22 (acc_buf sc) = take 22 (acc_buf sc')" and r: "reading sc = reading sc'"
  shows "reading (parse_am1002 sc) = reading (parse_am1002 sc')"
proof -
  have nth: "i < 22 \<Longrightarrow> acc_buf sc ! i = acc_buf sc' ! i" for i by (rule nth_agree [OF a])
  have tk: "take 21 (acc_buf sc) = take 21 (acc_buf sc')" by (rule take_agree [OF a]) simp
  show ?thesis unfolding parse_am1002_def Let_def by (simp add: nth tk r)
qed

section \<open>The stream as frames\<close>

text \<open>The reading a complete frame leaves, of a model, after the reading \<open>r\<close>: the parser on a
  fresh buffer that holds the frame.\<close>

definition frame_reading :: "(rat \<Rightarrow> u16) \<Rightarrow> u8 \<Rightarrow> bytes \<Rightarrow> gas_reading \<Rightarrow> gas_reading" where
  "frame_reading cvt m f r =
     (let sc = \<lparr>acc_buf = f @ replicate (ACC_BUF_SIZE - length f) 0, acc_pos = length f,
                reading = r, model = m\<rparr>
      in reading (if m = GAS_MODEL_AM1002 then parse_am1002 sc else parse_line cvt m (length f) sc))"

text \<open>A reference that looks at the whole stream at once: the complete frames in it, and the bytes
  that are left.  A text frame is a line of at most 24 bytes with its line feed; 24 bytes
  without one are thrown away.  A binary frame is 22 bytes from a \<open>0x16\<close>.\<close>

function text_frames :: "bytes \<Rightarrow> bytes list \<times> bytes" where
  "text_frames s =
     (let line = takeWhile (\<lambda>c. c \<noteq> 0x0A) s
      in if length line < length s \<and> length line < ACC_BUF_SIZE then
           let (fs, rest) = text_frames (drop (length line + 1) s) in ((line @ [0x0A]) # fs, rest)
         else if length s \<ge> ACC_BUF_SIZE then text_frames (drop ACC_BUF_SIZE s)
         else ([], s))"
  by pat_completeness auto
termination by (relation "measure length") auto

function am1002_frames :: "bytes \<Rightarrow> bytes list \<times> bytes" where
  "am1002_frames s =
     (let s' = dropWhile (\<lambda>c. c \<noteq> 0x16) s
      in if length s' < 22 then ([], s')
         else let (fs, rest) = am1002_frames (drop 22 s') in (take 22 s' # fs, rest))"
  by pat_completeness auto
termination
proof (relation "measure length")
  show "wf (measure (length :: bytes \<Rightarrow> nat))" by simp
next
  fix s s' :: bytes
  assume "s' = dropWhile (\<lambda>c. c \<noteq> 0x16) s" "\<not> length s' < 22"
  moreover have "length (dropWhile (\<lambda>c. c \<noteq> 0x16) s) \<le> length s" by (rule length_dropWhile_le)
  ultimately show "(drop 22 s', s) \<in> measure length" by simp
qed

declare text_frames.simps [simp del] am1002_frames.simps [simp del]

definition gas_frames :: "u8 \<Rightarrow> bytes \<Rightarrow> bytes list \<times> bytes" where
  "gas_frames m s = (if m = GAS_MODEL_AM1002 then am1002_frames s else text_frames s)"

section \<open>Chunks do not matter\<close>

text \<open>The port holds the bytes \<open>acc\<close> of an incomplete frame.\<close>

definition holds :: "bytes \<Rightarrow> sensor_ctx \<Rightarrow> bool" where
  "holds acc sc \<longleftrightarrow> length (acc_buf sc) = ACC_BUF_SIZE \<and> acc_pos sc = length acc \<and>
     length acc < ACC_BUF_SIZE \<and> take (length acc) (acc_buf sc) = acc"

lemma acc_push_holds:
  assumes "holds acc sc"
  shows "acc_pos (acc_push b sc) = length acc + 1" "length (acc_buf (acc_push b sc)) = ACC_BUF_SIZE"
    "take (length acc + 1) (acc_buf (acc_push b sc)) = acc @ [b]"
    "reading (acc_push b sc) = reading sc" "model (acc_push b sc) = model sc"
proof -
  have h: "length (acc_buf sc) = 24" "acc_pos sc = length acc" "length acc < 24"
    "take (length acc) (acc_buf sc) = acc" using assms by (auto simp: holds_def)
  then show "acc_pos (acc_push b sc) = length acc + 1" "length (acc_buf (acc_push b sc)) = 24"
    "reading (acc_push b sc) = reading sc" "model (acc_push b sc) = model sc"
    by (simp_all add: acc_push_def)
  show "take (length acc + 1) (acc_buf (acc_push b sc)) = acc @ [b]"
    using h by (simp add: acc_push_def take_Suc_conv_app_nth)
qed

lemma holds_reset: "length (acc_buf sc) = ACC_BUF_SIZE \<Longrightarrow> holds [] (sc\<lparr>acc_pos := 0\<rparr>)"
  by (simp add: holds_def)

text \<open>A parser that is given the frame in the buffer of the port.\<close>

lemma frame_reading_line:
  assumes "take (length f) (acc_buf sc) = f" "m \<noteq> GAS_MODEL_AM1002"
  shows "reading (parse_line cvt m (length f) sc) = frame_reading cvt m f (reading sc)"
  using assms(2) unfolding frame_reading_def Let_def
  by (auto intro!: parse_line_agree simp: assms(1))

lemma frame_reading_am1002:
  assumes "take 22 (acc_buf sc) = f" "length f = 22"
  shows "reading (parse_am1002 sc) = frame_reading cvt GAS_MODEL_AM1002 f (reading sc)"
  using assms unfolding frame_reading_def Let_def
  by (auto intro!: parse_am1002_agree)

lemma parse_byte_model [simp]: "model (parse_byte cvt m b sc) = model sc"
  by (simp add: parse_byte_def acc_push_def Let_def)

lemma fold_parse_byte_model [simp]: "model (fold (parse_byte cvt m) s sc) = model sc"
  by (induction s arbitrary: sc) simp_all

lemma text_byte:
  assumes h: "holds acc sc" and m: "m \<noteq> GAS_MODEL_AM1002"
  shows "b = 0x0A \<Longrightarrow> holds [] (parse_byte cvt m b sc) \<and>
      reading (parse_byte cvt m b sc) = frame_reading cvt m (acc @ [0x0A]) (reading sc)"
    and "b \<noteq> 0x0A \<Longrightarrow> length acc = 23 \<Longrightarrow> holds [] (parse_byte cvt m b sc) \<and>
      reading (parse_byte cvt m b sc) = reading sc"
    and "b \<noteq> 0x0A \<Longrightarrow> length acc < 23 \<Longrightarrow> holds (acc @ [b]) (parse_byte cvt m b sc) \<and>
      reading (parse_byte cvt m b sc) = reading sc"
proof -
  define sc1 where "sc1 = acc_push b sc"
  have l: "length acc < 24" using h by (simp add: holds_def)
  note p = acc_push_holds [OF h, of b, folded sc1_def]
  have r: "reading (parse_line cvt m (length acc + 1) sc1) = frame_reading cvt m (acc @ [b]) (reading sc)"
    using frame_reading_line [OF _ m, of "acc @ [b]" sc1 cvt] p by simp
  show "holds [] (parse_byte cvt m b sc) \<and>
      reading (parse_byte cvt m b sc) = frame_reading cvt m (acc @ [0x0A]) (reading sc)" if "b = 0x0A"
    using m p r that unfolding parse_byte_def Let_def sc1_def [symmetric] by (simp add: holds_def)
  show "holds [] (parse_byte cvt m b sc) \<and> reading (parse_byte cvt m b sc) = reading sc"
    if "b \<noteq> 0x0A" "length acc = 23"
    using m p that unfolding parse_byte_def Let_def sc1_def [symmetric] by (simp add: holds_def)
  show "holds (acc @ [b]) (parse_byte cvt m b sc) \<and> reading (parse_byte cvt m b sc) = reading sc"
    if "b \<noteq> 0x0A" "length acc < 23"
    using m p that unfolding parse_byte_def Let_def sc1_def [symmetric] by (simp add: holds_def)
qed

lemma text_frames_cut:
  assumes "0x0A \<notin> set acc" "length acc < ACC_BUF_SIZE"
  shows "text_frames acc = ([], acc)"
    and "text_frames (acc @ 0x0A # s) = ((acc @ [0x0A]) # fst (text_frames s), snd (text_frames s))"
    and "b \<noteq> 0x0A \<Longrightarrow> length acc = 23 \<Longrightarrow> text_frames (acc @ b # s) = text_frames s"
proof -
  have t: "takeWhile (\<lambda>c. c \<noteq> 0x0A) acc = acc"
    "takeWhile (\<lambda>c. c \<noteq> 0x0A) (acc @ 0x0A # s) = acc"
    using assms(1) by (induction acc) auto
  show "text_frames acc = ([], acc)"
    using assms(2) by (subst text_frames.simps) (simp add: t Let_def)
  show "text_frames (acc @ 0x0A # s) = ((acc @ [0x0A]) # fst (text_frames s), snd (text_frames s))"
    by (subst text_frames.simps) (simp add: t assms(2) Let_def split: prod.split)
  show "text_frames (acc @ b # s) = text_frames s" if "b \<noteq> 0x0A" "length acc = 23"
  proof -
    have "takeWhile (\<lambda>c. c \<noteq> 0x0A) (acc @ b # s) = acc @ b # takeWhile (\<lambda>c. c \<noteq> 0x0A) s"
      using assms(1) that(1) by (induction acc) auto
    then show ?thesis using that(2) by (subst text_frames.simps) (simp add: Let_def)
  qed
qed

lemma text_stream:
  assumes "m \<noteq> GAS_MODEL_AM1002"
  shows "holds acc sc \<Longrightarrow> 0x0A \<notin> set acc \<Longrightarrow> text_frames (acc @ s) = (fs, rest) \<Longrightarrow>
    holds rest (fold (parse_byte cvt m) s sc) \<and>
    reading (fold (parse_byte cvt m) s sc) = fold (frame_reading cvt m) fs (reading sc)"
proof (induction s arbitrary: acc sc fs)
  case Nil
  then show ?case using text_frames_cut(1) [of acc] by (auto simp: holds_def)
next
  case (Cons b s)
  have l: "length acc < 24" using Cons.prems(1) by (simp add: holds_def)
  note step = text_byte [OF Cons.prems(1) assms, of b cvt]
  note cut = text_frames_cut [OF Cons.prems(2) l]
  consider "b = 0x0A" | "b \<noteq> 0x0A" "length acc = 23" | "b \<noteq> 0x0A" "length acc < 23"
    using l by linarith
  then show ?case
  proof cases
    case 1
    obtain fs' where fs': "fs = (acc @ [0x0A]) # fs'" "text_frames ([] @ s) = (fs', rest)"
      using Cons.prems(3) 1 cut(2) [of s] by (cases "text_frames s") simp
    with Cons.IH [of "[]" "parse_byte cvt m b sc" fs'] step(1) 1 show ?thesis by simp
  next
    case 2
    with Cons.IH [of "[]" "parse_byte cvt m b sc" fs] step(2) cut(3) [of b s] Cons.prems(3)
    show ?thesis by simp
  next
    case 3
    with Cons.IH [of "acc @ [b]" "parse_byte cvt m b sc" fs] step(3) Cons.prems(2,3)
    show ?thesis by simp
  qed
qed

lemma am1002_byte:
  assumes h: "holds acc sc" "length acc < 22"
  shows "acc = [] \<Longrightarrow> b \<noteq> 0x16 \<Longrightarrow> parse_byte cvt 6 b sc = sc"
    and "acc \<noteq> [] \<or> b = 0x16 \<Longrightarrow> length acc = 21 \<Longrightarrow> holds [] (parse_byte cvt 6 b sc) \<and>
      reading (parse_byte cvt 6 b sc) = frame_reading cvt 6 (acc @ [b]) (reading sc)"
    and "acc \<noteq> [] \<or> b = 0x16 \<Longrightarrow> length acc < 21 \<Longrightarrow> holds (acc @ [b]) (parse_byte cvt 6 b sc) \<and>
      reading (parse_byte cvt 6 b sc) = reading sc"
proof -
  define sc1 where "sc1 = acc_push b sc"
  have pos: "acc_pos sc = 0 \<longleftrightarrow> acc = []" using h by (simp add: holds_def)
  note p = acc_push_holds [OF h(1), of b, folded sc1_def]
  show "parse_byte cvt 6 b sc = sc" if "acc = []" "b \<noteq> 0x16"
    using that pos by (simp add: parse_byte_def)
  have e: "parse_byte cvt 6 b sc = (if acc_pos sc1 \<ge> 22 then (parse_am1002 sc1)\<lparr>acc_pos := 0\<rparr> else sc1)"
    if "acc \<noteq> [] \<or> b = 0x16"
    using that pos unfolding parse_byte_def Let_def sc1_def [symmetric] by auto
  show "holds [] (parse_byte cvt 6 b sc) \<and>
      reading (parse_byte cvt 6 b sc) = frame_reading cvt 6 (acc @ [b]) (reading sc)"
    if "acc \<noteq> [] \<or> b = 0x16" "length acc = 21"
    using frame_reading_am1002 [of sc1 "acc @ [b]" cvt] p that(2) unfolding e [OF that(1)]
    by (simp add: holds_def)
  show "holds (acc @ [b]) (parse_byte cvt 6 b sc) \<and> reading (parse_byte cvt 6 b sc) = reading sc"
    if "acc \<noteq> [] \<or> b = 0x16" "length acc < 21"
    using p that(2) unfolding e [OF that(1)] by (simp add: holds_def)
qed

lemma am1002_frames_cut:
  assumes "acc = [] \<or> hd acc = 0x16" "length acc < 22"
  shows "am1002_frames acc = ([], acc)"
    and "acc = [] \<Longrightarrow> b \<noteq> 0x16 \<Longrightarrow> am1002_frames (acc @ b # s) = am1002_frames s"
    and "acc \<noteq> [] \<or> b = 0x16 \<Longrightarrow> length acc = 21 \<Longrightarrow> am1002_frames (acc @ b # s) =
      ((acc @ [b]) # fst (am1002_frames s), snd (am1002_frames s))"
proof -
  have d: "dropWhile (\<lambda>c. c \<noteq> 0x16) acc = acc" using assms(1) by (cases acc) auto
  show "am1002_frames acc = ([], acc)" by (subst am1002_frames.simps) (simp add: d assms Let_def)
  show "am1002_frames (acc @ b # s) = am1002_frames s" if "acc = []" "b \<noteq> 0x16"
    using that by (subst (1 2) am1002_frames.simps) (simp add: Let_def)
  show "am1002_frames (acc @ b # s) = ((acc @ [b]) # fst (am1002_frames s), snd (am1002_frames s))"
    if "acc \<noteq> [] \<or> b = 0x16" "length acc = 21"
  proof -
    have "dropWhile (\<lambda>c. c \<noteq> 0x16) (acc @ b # s) = acc @ b # s" using assms(1) that(1) by (cases acc) auto
    then show ?thesis using that(2) by (subst am1002_frames.simps) (simp add: Let_def split: prod.split)
  qed
qed

lemma am1002_stream:
  "holds acc sc \<Longrightarrow> acc = [] \<or> hd acc = 0x16 \<Longrightarrow> length acc < 22 \<Longrightarrow> am1002_frames (acc @ s) = (fs, rest) \<Longrightarrow>
    holds rest (fold (parse_byte cvt 6) s sc) \<and>
    reading (fold (parse_byte cvt 6) s sc) = fold (frame_reading cvt 6) fs (reading sc)"
proof (induction s arbitrary: acc sc fs)
  case Nil
  then show ?case using am1002_frames_cut(1) [of acc] by auto
next
  case (Cons b s)
  note step = am1002_byte [OF Cons.prems(1,3), of b cvt]
  note cut = am1002_frames_cut [OF Cons.prems(2,3)]
  consider "acc = []" "b \<noteq> 0x16" | "acc \<noteq> [] \<or> b = 0x16" "length acc = 21"
    | "acc \<noteq> [] \<or> b = 0x16" "length acc < 21" using Cons.prems(3) by linarith
  then show ?case
  proof cases
    case 1
    with Cons.IH [of "[]" sc fs] step(1) cut(2) [of b s] Cons.prems show ?thesis by simp
  next
    case 2
    obtain fs' where fs': "fs = (acc @ [b]) # fs'" "am1002_frames ([] @ s) = (fs', rest)"
      using Cons.prems(4) 2 cut(3) [of b s] by (cases "am1002_frames s") simp
    with Cons.IH [of "[]" "parse_byte cvt 6 b sc" fs'] step(2) 2 show ?thesis by simp
  next
    case 3
    have "hd (acc @ [b]) = 0x16" using Cons.prems(2) 3(1) by (cases acc) auto
    with Cons.IH [of "acc @ [b]" "parse_byte cvt 6 b sc" fs] step(3) 3 Cons.prems(4)
    show ?thesis by simp
  qed
qed

lemma gas_stream_result:
  assumes "holds [] sc" "model sc = m" "gas_frames m (concat chunks) = (fs, rest)"
  shows "holds rest (fold (parse_bytes cvt) chunks sc) \<and> model (fold (parse_bytes cvt) chunks sc) = m \<and>
    reading (fold (parse_bytes cvt) chunks sc) = fold (frame_reading cvt m) fs (reading sc)"
proof -
  have "fold (parse_bytes cvt) cs sc' = fold (parse_byte cvt m) (concat cs) sc'"
    if "model sc' = m" for cs and sc' :: sensor_ctx
    using that by (induction cs arbitrary: sc') (simp_all add: parse_bytes_def)
  then have e: "fold (parse_bytes cvt) chunks sc = fold (parse_byte cvt m) (concat chunks) sc"
    using assms(2) by blast
  show ?thesis
  proof (cases "m = GAS_MODEL_AM1002")
    case True
    then show ?thesis
      using am1002_stream [OF assms(1), of "concat chunks" fs rest cvt] assms(2,3) unfolding e
      by (simp add: gas_frames_def)
  next
    case False
    then show ?thesis
      using text_stream [OF False assms(1), of "concat chunks" fs rest cvt] assms(2,3) unfolding e
      by (simp add: gas_frames_def)
  qed
qed

text \<open>C31: how the USB transfers cut the bytes of a sensor does not matter: after any chunks, the
  reading of the port is the one that the complete frames of the whole stream leave, parsed one
  by one in their order, and the port holds exactly the bytes of the last, incomplete frame;
  what earlier frames left in the buffer has no influence.\<close>

theorem gas_stream_equivalent:
  assumes "holds [] sc" "model sc = m" "gas_frames m (concat chunks) = (fs, rest)"
  shows "holds rest (fold (parse_bytes cvt) chunks sc) \<and> model (fold (parse_bytes cvt) chunks sc) = m \<and>
    reading (fold (parse_bytes cvt) chunks sc) = fold (frame_reading cvt m) fs (reading sc)"
  using assms by (rule gas_stream_result)

section \<open>Well-formed ports\<close>

text \<open>What is true of a port between two transfers: the buffer has its size, the position is
  inside it with room for the next byte, the model is known, and a reading is a non-negative
  float, zero before the first.\<close>

definition reading_ok :: "gas_reading \<Rightarrow> bool" where
  "reading_ok r \<longleftrightarrow> is_f32 (gr_pct r) \<and> gr_pct r \<ge> 0 \<and> (\<not> gr_valid r \<longrightarrow> r = no_reading)"

definition gas_wf :: "sensor_ctx \<Rightarrow> bool" where
  "gas_wf sc \<longleftrightarrow>
     length (acc_buf sc) = ACC_BUF_SIZE \<and> acc_pos sc < ACC_BUF_SIZE \<and> model sc < GAS_MODEL_COUNT \<and>
     reading_ok (reading sc)"

lemma round_half_even_nonneg: "0 \<le> q \<Longrightarrow> 0 \<le> round_half_even q"
  by (simp add: round_half_even_def Let_def)

lemma f32_nonneg [simp]: "0 \<le> x \<Longrightarrow> 0 \<le> f32 x"
  by (auto simp: f32_def intro!: mult_nonneg_nonneg round_half_even_nonneg)

lemma unsigned_rat_nonneg [simp]: "0 \<le> (unsigned (w :: 'a :: len word) :: rat)"
  by (metis of_nat_0_le_iff of_nat_unat)

lemma ascii_loop_nonneg:
  assumes "case s of (integer, fr, dv, _) \<Rightarrow> 0 \<le> integer \<and> 0 \<le> fr \<and> 0 \<le> dv"
  shows "case ascii_loop cs s of (integer, fr, dv, _) \<Rightarrow> 0 \<le> integer \<and> 0 \<le> fr \<and> 0 \<le> dv"
  using assms
proof (induction cs arbitrary: s)
  case (Cons c cs)
  have "case (case s of (integer, fr, dv, in_frac) \<Rightarrow>
        if c \<ge> 0x30 \<and> c \<le> 0x39 then
          let digit = of_nat (unat (c - 0x30))
          in if \<not> in_frac then (f32 (f32 (integer * 10) + digit), fr, dv, in_frac)
             else (integer, f32 (fr + f32 (digit / f32 (dv * 10))), f32 (dv * 10), in_frac)
        else if c = 0x2E then (integer, fr, dv, True)
        else s) of (integer, fr, dv, _) \<Rightarrow> 0 \<le> integer \<and> 0 \<le> fr \<and> 0 \<le> dv"
    using Cons.prems by (cases s) (simp add: Let_def)
  from Cons.IH [OF this] show ?case by simp
qed simp

lemma ascii_to_float_nonneg [simp]: "0 \<le> ascii_to_float s"
  using ascii_loop_nonneg [of "(0, 0, 1, False)" s] by (simp add: ascii_to_float_def split: prod.splits)

lemma is_f32_ascii_to_float [simp]: "is_f32 (ascii_to_float s)"
  by (simp add: ascii_to_float_def split: prod.split)

lemma is_f32_of_nat: "n < 65536 \<Longrightarrow> is_f32 (of_nat n)"
  unfolding is_f32_def by (intro exI [of _ "int n"] exI [of _ 0]) simp

lemma is_f32_u16 [simp]: "is_f32 (unsigned (w :: u16))"
  by (metis is_f32_of_nat of_nat_unat unat_u16_less)

lemma reading_ok_set [simp]:
  "reading_ok \<lparr>gr_valid = True, gr_raw = r, gr_pct = p\<rparr> \<longleftrightarrow> is_f32 p \<and> 0 \<le> p"
  by (simp add: reading_ok_def)

lemma reading_ok_zero [simp]: "reading_ok no_reading"
  using is_f32_of_nat [of 0] by (simp add: reading_ok_def no_reading_def)

lemma reading_ok_parse_ppm: "reading_ok (reading sc) \<Longrightarrow> reading_ok (reading (parse_ppm cvt n sc))"
  by (auto simp: parse_ppm_def Let_def split: option.split)

lemma reading_ok_parse_line: "reading_ok (reading sc) \<Longrightarrow> reading_ok (reading (parse_line cvt m n sc))"
  by (auto simp: parse_line_def parse_o2_def parse_ch4_def Let_def reading_ok_parse_ppm
      split: option.split)

lemma reading_ok_parse_am1002: "reading_ok (reading sc) \<Longrightarrow> reading_ok (reading (parse_am1002 sc))"
  by (auto simp: parse_am1002_def Let_def)

lemma gas_wf_parse_byte:
  assumes w: "gas_wf sc"
  shows "gas_wf (parse_byte cvt m b sc)"
proof -
  define sc1 where "sc1 = acc_push b sc"
  have p: "sc1 = sc\<lparr>acc_buf := (acc_buf sc)[acc_pos sc := b], acc_pos := acc_pos sc + 1\<rparr>"
    using w by (simp add: sc1_def acc_push_def gas_wf_def)
  have w1: "length (acc_buf sc1) = 24" "model sc1 < 7" "reading_ok (reading sc1)"
    using w by (simp_all add: p gas_wf_def)
  show ?thesis
    using w w1 reading_ok_parse_am1002 [OF w1(3)] reading_ok_parse_line [OF w1(3)]
    unfolding parse_byte_def Let_def sc1_def [symmetric] by (simp add: gas_wf_def)
qed

interpretation gas_bytes: event_task "\<lambda>b. True" gas_wf "parse_byte cvt m" for cvt m
  by unfold_locales (rule gas_wf_parse_byte)

lemma gas_wf_parse_bytes: "gas_wf sc \<Longrightarrow> gas_wf (parse_bytes cvt data sc)"
  using gas_bytes.run_inv [of data sc cvt "model sc"] by (simp add: parse_bytes_def list_all_iff)

text \<open>What happens to the ports: a transfer of one of them, or the console menu.\<close>

datatype gas_op = Transfer nat bytes | Choose nat u8

fun gas_do :: "(rat \<Rightarrow> u16) \<Rightarrow> gas_op \<Rightarrow> sensor_ctx list \<Rightarrow> sensor_ctx list" where
  "gas_do cvt (Transfer port data) ss = ftdi_rx_handler cvt port data ss"
| "gas_do cvt (Choose port m) ss = gas_sensor_set_model port m ss"

lemma on_port_wf:
  assumes "length ss = GAS_PORT_COUNT \<and> list_all gas_wf ss" "\<And>sc. gas_wf sc \<Longrightarrow> gas_wf (f sc)" "port < GAS_PORT_COUNT"
  shows "length (on_port port f ss) = GAS_PORT_COUNT \<and> list_all gas_wf (on_port port f ss)"
  using assms by (auto simp: on_port_def list_all_length nth_list_update)

lemma gas_start_wf:
  "length (gas_sensor_start c [sensor_boot, sensor_boot]) = GAS_PORT_COUNT \<and>
   list_all gas_wf (gas_sensor_start c [sensor_boot, sensor_boot])"
proof -
  show ?thesis
    by (simp add: gas_sensor_start_def on_port_def gas_wf_def sensor_boot_def Let_def not_le)
qed

lemma gas_do_wf:
  assumes "length ss = GAS_PORT_COUNT \<and> list_all gas_wf ss"
  shows "length (gas_do cvt op ss) = GAS_PORT_COUNT \<and> list_all gas_wf (gas_do cvt op ss)"
proof (cases op)
  case (Transfer port data)
  show ?thesis unfolding Transfer gas_do.simps ftdi_rx_handler_def
    by (rule on_port_wf [OF assms]) (simp_all add: gas_wf_parse_bytes)
next
  case (Choose port m)
  show ?thesis
  proof (cases "port \<ge> 2 \<or> m \<ge> 7")
    case False
    show ?thesis unfolding Choose gas_do.simps gas_sensor_set_model_def if_not_P [OF False]
      by (rule on_port_wf [OF assms]) (use False in \<open>auto simp: gas_wf_def\<close>)
  qed (use assms Choose in \<open>simp add: gas_sensor_set_model_def\<close>)
qed

interpretation gas_ports: event_task "\<lambda>op. True"
    "\<lambda>ss. length ss = GAS_PORT_COUNT \<and> list_all gas_wf ss" "gas_do cvt" for cvt
  by unfold_locales (rule gas_do_wf)

text \<open>C32: whatever arrives on the ports and whatever models are chosen while it arrives, no byte is
  stored outside a buffer: both ports stay well formed, so that an invalid reading is zero and a
  valid one is a non-negative float.\<close>

theorem gas_ports_well_formed:
  "let ss = fold (gas_do cvt) ops (gas_sensor_start c [sensor_boot, sensor_boot])
   in length ss = GAS_PORT_COUNT \<and> list_all gas_wf ss \<and>
      gr_pct (gas_sensor_get port ss) \<ge> 0 \<and> is_f32 (gr_pct (gas_sensor_get port ss)) \<and>
      gas_sensor_get_model port ss < GAS_MODEL_COUNT"
proof -
  define ss where "ss = fold (gas_do cvt) ops (gas_sensor_start c [sensor_boot, sensor_boot])"
  have w: "length ss = 2 \<and> list_all gas_wf ss"
    unfolding ss_def using gas_ports.run_inv [OF _ gas_start_wf] by (simp only: list.pred_True)
  then have p: "port < 2 \<Longrightarrow> gas_wf (ss ! port)" by (simp add: list_all_length)
  have z: "reading_ok no_reading" by simp
  have "gr_pct (gas_sensor_get port ss) \<ge> 0 \<and> is_f32 (gr_pct (gas_sensor_get port ss)) \<and>
      gas_sensor_get_model port ss < 7"
    using p z by (cases "port < 2") (auto simp: gas_sensor_get_def gas_sensor_get_model_def gas_wf_def reading_ok_def)
  with w show ?thesis unfolding Let_def ss_def [symmetric] by blast
qed

section \<open>What the readings mean\<close>

text \<open>The conversion of a float to 16 bits, where C defines it.\<close>

definition cvt_ok :: "(rat \<Rightarrow> u16) \<Rightarrow> bool" where
  "cvt_ok cvt \<longleftrightarrow> (\<forall>x. 0 \<le> x \<and> x < 65536 \<longrightarrow> cvt x = word_of_int \<lfloor>x\<rfloor>)"

lemma f32_nat: "n < 2 ^ 24 \<Longrightarrow> f32 (of_nat n) = of_nat n"
  using f32_exact [of "int n" 0] by simp

lemma digit_value:
  assumes "digit c"
  shows "c \<ge> 0x30 \<and> c \<le> 0x39" "unat (c - 0x30) = unat c - 48" "unat c - 48 \<le> 9"
proof -
  show "c \<ge> 0x30 \<and> c \<le> 0x39" using assms by (simp add: digit_def)
  then show "unat (c - 0x30) = unat c - 48" by (simp add: unat_sub)
  have "unat c \<le> 57" using \<open>c \<ge> 0x30 \<and> c \<le> 0x39\<close> by (simp add: word_le_nat_alt)
  then show "unat c - 48 \<le> 9" by simp
qed

text \<open>Up to 24 bits, the digits of a whole number are accumulated without rounding.\<close>

lemma ascii_loop_digits:
  "list_all digit s \<Longrightarrow> foldl (\<lambda>v ch. v * 10 + (unat ch - 48)) v s < 2 ^ 24 \<Longrightarrow>
   ascii_loop s (of_nat v, fr, dv, False) =
     (of_nat (foldl (\<lambda>v ch. v * 10 + (unat ch - 48)) v s), fr, dv, False)"
proof (induction s arbitrary: v)
  case (Cons c s)
  define d where "d = unat c - 48"
  have c: "digit c" using Cons.prems(1) by simp
  have "v * 10 + d \<le> foldl (\<lambda>v ch. v * 10 + (unat ch - 48)) (v * 10 + d) s" by (rule decimal_grows)
  then have b: "v * 10 + d < 2 ^ 24" using Cons.prems(2) by (simp add: d_def)
  have "f32 (of_nat v * 10) = of_nat (v * 10)" using f32_nat [of "v * 10"] b by simp
  then have f: "f32 (f32 (of_nat v * 10) + of_nat d) = of_nat (v * 10 + d)"
    using f32_nat [OF b] by simp
  have u: "(unsigned (c - 0x30) :: rat) = of_nat d"
    using digit_value(2) [OF c] by (metis d_def of_nat_unat)
  have "ascii_loop (c # s) (of_nat v, fr, dv, False) = ascii_loop s (of_nat (v * 10 + d), fr, dv, False)"
    using digit_value(1) [OF c] f by (simp add: Let_def u)
  also have "\<dots> = (of_nat (foldl (\<lambda>v ch. v * 10 + (unat ch - 48)) (v * 10 + d) s), fr, dv, False)"
    by (rule Cons.IH) (use Cons.prems in \<open>simp_all add: d_def\<close>)
  finally show ?case by (simp add: d_def)
qed simp

lemma ascii_to_float_digits:
  assumes "list_all digit s" "decimal s < 2 ^ 24"
  shows "ascii_to_float s = of_nat (decimal s)"
  using ascii_loop_digits [of s 0 0 1] assms f32_nat [of "decimal s"]
  by (simp add: ascii_to_float_def decimal_def)

text \<open>A line with the value right-aligned in front of a unit.\<close>

lemma blanks_line:
  assumes "list_all digit s" "s \<noteq> []" "k = n + length s"
  shows "blanks (replicate n 0x20 @ s @ t) k = n"
    and "take (length s) (drop n (replicate n 0x20 @ s @ t)) = s"
proof -
  obtain c cs where c: "s = c # cs" "digit c" using assms(1,2) by (cases s) auto
  have "\<not> digit 0x20" by (simp add: digit_def)
  then have s: "s = c # cs" "c \<noteq> 0x20" using c by auto
  have "take k (replicate n 0x20 @ s @ t) = replicate n 0x20 @ s" by (simp add: assms(3))
  moreover have "takeWhile (\<lambda>c. c = 0x20) (replicate n 0x20 @ s) = replicate n (0x20 :: u8)"
    by (induction n) (simp_all add: s)
  ultimately show "blanks (replicate n 0x20 @ s @ t) k = n" by (simp add: blanks_def)
  show "take (length s) (drop n (replicate n 0x20 @ s @ t)) = s" by simp
qed

definition ppm_line :: "nat \<Rightarrow> bytes \<Rightarrow> bytes" where
  "ppm_line n s = replicate n 0x20 @ s @ [0x20, 0x70, 0x70, 0x6D, 0x0D, 0x0A]"

definition lel_line :: "nat \<Rightarrow> bytes \<Rightarrow> bytes" where
  "lel_line n s = replicate n 0x20 @ s @ [0x25, 0x20, 0x4C, 0x45, 0x4C, 0x0D, 0x0A]"

lemma nth_tail: "length p + i = k \<Longrightarrow> (p @ t) ! k = t ! i"
  by (auto simp: nth_append)

lemma ppm_reading:
  assumes "list_all digit s" "1 \<le> length s" "length s \<le> 8" "decimal s < 2 ^ 24"
    and sc: "acc_buf sc = ppm_line n s @ z"
  shows "parse_ppm cvt (length (ppm_line n s)) sc =
    set_reading (of_nat (decimal s)) (if decimal s > 65535 then 65535 else cvt (of_nat (decimal s))) sc"
proof -
  let ?k = "n + length s"
  have nth: "acc_buf sc ! (?k + i) = ([0x20, 0x70, 0x70, 0x6D, 0x0D, 0x0A] @ z) ! i" for i
    using nth_tail [of "replicate n 0x20 @ s" i "?k + i" "[0x20, 0x70, 0x70, 0x6D, 0x0D, 0x0A] @ z"]
    by (simp add: sc ppm_line_def)
  have l: "length (ppm_line n s) = ?k + 6" by (simp add: ppm_line_def)
  have m: "acc_buf sc ! (?k + 3) = 0x6D" "acc_buf sc ! (?k + 2) = 0x70" "acc_buf sc ! (?k + 1) = 0x70"
    using nth [of 3] nth [of 2] nth [of 1] by simp_all
  have ix: "?k + 6 - 3 = ?k + 3" "?k + 3 - 1 = ?k + 2" "?k + 3 - 2 = ?k + 1" "?k + 3 - 3 = ?k" by simp_all
  have t: "tail_idx 0x6D (acc_buf sc) (?k + 6) = Some (?k + 3)"
    unfolding tail_idx_def ix using m(1) by simp
  have ne: "s \<noteq> []" using assms(2) by auto
  note b = blanks_line [OF assms(1) ne refl, of n "[0x20, 0x70, 0x70, 0x6D, 0x0D, 0x0A] @ z"]
  have bl: "blanks (acc_buf sc) ?k = n" using b(1) by (simp add: sc ppm_line_def)
  have tk: "take (length s) (drop n (acc_buf sc)) = s" using b(2) by (simp add: sc ppm_line_def)
  have v: "(of_nat (decimal s) :: rat) > 65535 \<longleftrightarrow> decimal s > 65535"
    using of_nat_less_iff [of 65535 "decimal s", where ?'a = rat] by simp
  show ?thesis
    unfolding parse_ppm_def l t option.case ix m Let_def bl
    using assms(2,3) ascii_to_float_digits [OF assms(1,4)] by (simp add: tk v ne)
qed

lemma decimal_bound: "list_all digit s \<Longrightarrow> decimal s < 10 ^ length s"
proof (induction s rule: rev_induct)
  case (snoc c s)
  have "decimal (s @ [c]) = decimal s * 10 + (unat c - 48)" by (simp add: decimal_def)
  moreover have "unat c - 48 \<le> 9" using snoc.prems digit_value(3) [of c] by simp
  moreover have "decimal s < 10 ^ length s" using snoc by simp
  ultimately show ?case by simp
qed (simp add: decimal_def)

lemma lel_reading:
  assumes "list_all digit s" "1 \<le> length s" "length s \<le> 3" "2 \<le> n + length s"
    and sc: "acc_buf sc = lel_line n s @ z"
  shows "parse_ch4 cvt (length (lel_line n s)) sc =
    set_reading (of_nat (500 * decimal s))
      (cvt (if 500 * decimal s > 65535 then 65535 else of_nat (500 * decimal s))) sc"
proof -
  let ?k = "n + length s"
  let ?t = "[0x25, 0x20, 0x4C, 0x45, 0x4C, 0x0D, 0x0A] @ z"
  have nth: "acc_buf sc ! (?k + i) = ?t ! i" for i
    using nth_tail [of "replicate n 0x20 @ s" i "?k + i" ?t] by (simp add: sc lel_line_def)
  have l: "length (lel_line n s) = ?k + 7" by (simp add: lel_line_def)
  have m: "acc_buf sc ! ?k = 0x25" "acc_buf sc ! (?k + 2) = 0x4C" "acc_buf sc ! (?k + 3) = 0x45"
    "acc_buf sc ! (?k + 4) = 0x4C"
    using nth [of 0] nth [of 2] nth [of 3] nth [of 4] by simp_all
  have ix: "?k + 7 - 3 = ?k + 4" "?k + 7 - 4 = ?k + 3" "?k + 7 - 5 = ?k + 2" "?k + 7 - 7 = ?k"
    by simp_all
  have p: "lel_pos (acc_buf sc) (?k + 7) = Some ?k"
    unfolding lel_pos_def ix using m assms(4) by simp
  have ne: "s \<noteq> []" using assms(2) by auto
  note b = blanks_line [OF assms(1) ne refl, of n ?t]
  have bl: "blanks (acc_buf sc) ?k = n" using b(1) by (simp add: sc lel_line_def)
  have tk: "take (length s) (drop n (acc_buf sc)) = s" using b(2) by (simp add: sc lel_line_def)
  have "(10::nat) ^ length s \<le> 10 ^ 3" using assms(3) by (intro power_increasing) simp_all
  then have v: "decimal s < 1000" using decimal_bound [OF assms(1)] by simp
  have a: "ascii_to_float s = of_nat (decimal s)"
    by (rule ascii_to_float_digits [OF assms(1)]) (use v in simp)
  have f: "f32 (of_nat (decimal s) * 500) = of_nat (500 * decimal s)"
    using f32_nat [of "500 * decimal s"] v by (simp add: mult.commute)
  have c: "(of_nat (500 * decimal s) :: rat) > 65535 \<longleftrightarrow> 500 * decimal s > 65535"
    using of_nat_less_iff [of 65535 "500 * decimal s", where ?'a = rat] by simp
  have "?k - n = length s" by simp
  then show ?thesis
    unfolding parse_ch4_def l p option.case m if_P [OF refl] Let_def bl
    using assms(2,3) c by (simp only: tk a f) (simp add: ne)
qed


definition o2_line :: "bytes \<Rightarrow> u8 \<Rightarrow> u8 \<Rightarrow> bytes" where
  "o2_line s f1 f2 = s @ [0x2E, f1, f2, 0x25, 0x0D, 0x0A]"

lemma o2_parse:
  assumes "1 \<le> length s" "length s \<le> 4" "digit f2"
    and sc: "acc_buf sc = o2_line s f1 f2 @ z"
  shows "parse_o2 cvt (length (o2_line s f1 f2)) sc =
    (let pct = ascii_to_float (s @ [0x2E, f1, f2]) in set_reading pct (cvt (f32 (pct * 100))) sc)"
proof -
  let ?k = "length s"
  have nth: "acc_buf sc ! (?k + i) = ([0x2E, f1, f2, 0x25, 0x0D, 0x0A] @ z) ! i" for i
    using nth_tail [of s i "?k + i" "[0x2E, f1, f2, 0x25, 0x0D, 0x0A] @ z"] by (simp add: sc o2_line_def)
  have l: "length (o2_line s f1 f2) = ?k + 6" by (simp add: o2_line_def)
  have m: "acc_buf sc ! (?k + 3) = 0x25" "acc_buf sc ! (?k + 2) = f2" using nth [of 3] nth [of 2] by simp_all
  have ix: "?k + 6 - 3 = ?k + 3" "?k + 3 - 1 = ?k + 2" by simp_all
  have t: "tail_idx 0x25 (acc_buf sc) (?k + 6) = Some (?k + 3)" unfolding tail_idx_def ix using m(1) by simp
  have tk: "take (?k + 3) (acc_buf sc) = s @ [0x2E, f1, f2]" by (simp add: sc o2_line_def)
  have "\<not> digit 0x20" by (simp add: digit_def)
  then have "f2 \<noteq> 0x20" using assms(3) by auto
  then show ?thesis
    unfolding parse_o2_def l t option.case ix m Let_def using assms(1,2) by (simp add: tk)
qed

lemma ascii_loop_append: "ascii_loop (a @ b) st = ascii_loop b (ascii_loop a st)"
  by (induction a arbitrary: st) simp_all

lemma f32_idem [simp]: "f32 (f32 x) = f32 x"
  by (rule f32_id) simp

lemma o2_value:
  assumes "list_all digit s" "decimal s < 2 ^ 24" "digit f1" "digit f2"
  defines "d1 \<equiv> unat f1 - 48" and "d2 \<equiv> unat f2 - 48"
  shows "ascii_to_float (s @ [0x2E, f1, f2]) =
    f32 (of_nat (decimal s) + f32 (f32 (of_nat d1 / 10) + f32 (of_nat d2 / 100)))"
proof -
  have u: "(unsigned (f1 - 0x30) :: rat) = of_nat d1" "(unsigned (f2 - 0x30) :: rat) = of_nat d2"
    using digit_value(2) [OF assms(3)] digit_value(2) [OF assms(4)]
    by (metis d1_def of_nat_unat, metis d2_def of_nat_unat)
  have t: "f32 10 = 10" "f32 100 = 100" using f32_nat [of 10] f32_nat [of 100] by simp_all
  have "ascii_loop s (0, 0, 1, False) = (of_nat (decimal s), 0, 1, False)"
    using ascii_loop_digits [OF assms(1), of 0] assms(2) by (simp add: decimal_def)
  then have "ascii_loop (s @ [0x2E, f1, f2]) (0, 0, 1, False) =
      (of_nat (decimal s), f32 (f32 (of_nat d1 / 10) + f32 (of_nat d2 / 100)), 100, True)"
    using digit_value(1) [OF assms(3)] digit_value(1) [OF assms(4)]
    by (simp add: ascii_loop_append Let_def u t)
  then show ?thesis by (simp add: ascii_to_float_def)
qed

lemma near: "\<bar>x - y\<bar> \<le> e \<Longrightarrow> x \<le> y + e" "\<bar>x - y\<bar> \<le> e \<Longrightarrow> y - e \<le> x" for x y e :: rat
  by linarith+

text \<open>The rounding errors of a reading below 100, and of its hundredfold.\<close>

lemma o2_error:
  fixes i d1 d2 :: nat
  assumes "i < 100" "d1 \<le> 9" "d2 \<le> 9"
  defines "p \<equiv> f32 (of_nat i + f32 (f32 (of_nat d1 / 10) + f32 (of_nat d2 / 100)))"
    and "v \<equiv> of_nat i + of_nat d1 / 10 + of_nat d2 / 100 :: rat"
  shows "\<bar>p - v\<bar> \<le> 1 / 2 ^ 17" "\<bar>f32 (p * 100) - 100 * v\<bar> \<le> 1 / 500" "0 \<le> f32 (p * 100)"
proof -
  define a b where "a = f32 (of_nat d1 / 10)" and "b = f32 (of_nat d2 / 100)"
  define q where "q = f32 (a + b)"
  have d: "(of_nat d1 :: rat) \<le> 9" "(of_nat d2 :: rat) \<le> 9" "(of_nat i :: rat) \<le> 99"
    using assms(1-3) of_nat_le_iff [of d1 9, where ?'a = rat] of_nat_le_iff [of d2 9, where ?'a = rat]
      of_nat_le_iff [of i 99, where ?'a = rat] by simp_all
  have nn: "(0 :: rat) \<le> of_nat d1" "(0 :: rat) \<le> of_nat d2" "(0 :: rat) \<le> of_nat i" by simp_all
  have pw: "pow2 (24 + - 24) = 1" "pow2 (- 24) / 2 = (1 / 2 ^ 25 :: rat)"
    "pow2 (24 + - 23) = 2" "pow2 (- 23) / 2 = (1 / 2 ^ 24 :: rat)"
    "pow2 (24 + - 17) = 128" "pow2 (- 17) / 2 = (1 / 2 ^ 18 :: rat)"
    "pow2 (24 + - 10) = 16384" "pow2 (- 10) / 2 = (1 / 2 ^ 11 :: rat)"
    by (simp_all add: power_int_minus field_simps)
  have ea: "\<bar>a - of_nat d1 / 10\<bar> \<le> 1 / 2 ^ 25"
    unfolding a_def using f32_error [of "of_nat d1 / 10" "- 24"] d nn by (simp add: pw)
  have eb: "\<bar>b - of_nat d2 / 100\<bar> \<le> 1 / 2 ^ 25"
    unfolding b_def using f32_error [of "of_nat d2 / 100" "- 24"] d nn by (simp add: pw)
  note A = near [OF ea] and B = near [OF eb]
  have pq: "(1 / 2 ^ 25 :: rat) \<le> 1 / 1000000" "(1 / 2 ^ 24 :: rat) \<le> 1 / 1000000"
    "(1 / 2 ^ 18 :: rat) \<le> 1 / 1000" "(1 / 2 ^ 17 :: rat) \<le> 1 / 131072"
    "(1 / 2 ^ 25 :: rat) + 1 / 2 ^ 25 + 1 / 2 ^ 24 + 1 / 2 ^ 18 \<le> 1 / 2 ^ 17"
    "(1 / 2 ^ 11 :: rat) + 100 / 2 ^ 17 \<le> 1 / 500" by simp_all
  have "a + b < 2" "- 2 < a + b" using A B d nn pq by linarith+
  then have "\<bar>a + b\<bar> < pow2 (24 + - 23)" unfolding pw by linarith
  then have eq: "\<bar>q - (a + b)\<bar> \<le> 1 / 2 ^ 24"
    unfolding q_def using f32_error [of "a + b" "- 23"] unfolding pw by simp
  note Q = near [OF eq]
  have "of_nat i + q < 128" "- 128 < of_nat i + q" using A B Q d nn pq by linarith+
  then have "\<bar>of_nat i + q\<bar> < pow2 (24 + - 17)" unfolding pw by linarith
  then have ep: "\<bar>p - (of_nat i + q)\<bar> \<le> 1 / 2 ^ 18"
    unfolding p_def a_def [symmetric] b_def [symmetric] q_def [symmetric]
    using f32_error [of "of_nat i + q" "- 17"] unfolding pw by simp
  note P = near [OF ep]
  have vd: "v = of_nat i + of_nat d1 / 10 + of_nat d2 / 100" by (simp add: v_def)
  show pv: "\<bar>p - v\<bar> \<le> 1 / 2 ^ 17"
    by (rule abs_leI; use A B Q P vd pq in linarith)
  note V = near [OF pv]
  have "p * 100 < 16384" "- 16384 < p * 100" using V vd d nn pq by linarith+
  then have "\<bar>p * 100\<bar> < pow2 (24 + - 10)" unfolding pw by linarith
  then have eh: "\<bar>f32 (p * 100) - p * 100\<bar> \<le> 1 / 2 ^ 11"
    using f32_error [of "p * 100" "- 10"] unfolding pw by simp
  note H = near [OF eh]
  show "\<bar>f32 (p * 100) - 100 * v\<bar> \<le> 1 / 500"
    by (rule abs_leI; use H V pq in linarith)
  have "0 \<le> p" unfolding p_def by (intro f32_nonneg add_nonneg_nonneg divide_nonneg_nonneg) simp_all
  then show "0 \<le> f32 (p * 100)" by simp
qed

text \<open>C34: an oxygen line of a value below 100 with two decimals gives a reading within
  \<open>2 \<^sup>- \<^sup>1\<^sup>7\<close> of the printed value, and its 16-bit value in hundredths is the printed
  one or, because the product with 100 is truncated, one less.\<close>

theorem gas_o2_reading:
  fixes r :: gas_reading
  assumes cvt: "cvt_ok cvt" and s: "list_all digit s" "1 \<le> length s" "length s \<le> 4" "decimal s < 100"
    and f: "digit f1" "digit f2"
  defines "n \<equiv> 100 * decimal s + 10 * (unat f1 - 48) + (unat f2 - 48)"
    and "g \<equiv> frame_reading cvt GAS_MODEL_O2_SM30 (o2_line s f1 f2) r"
  shows "gr_valid g \<and> \<bar>gr_pct g - of_nat n / 100\<bar> \<le> 1 / 2 ^ 17 \<and>
    gr_raw g \<in> {word_of_nat n, word_of_nat (n - 1)}"
proof -
  define d1 d2 where "d1 = unat f1 - 48" and "d2 = unat f2 - 48"
  have d: "d1 \<le> 9" "d2 \<le> 9" using f digit_value(3) by (simp_all add: d1_def d2_def)
  define p where "p = f32 (of_nat (decimal s) + f32 (f32 (of_nat d1 / 10) + f32 (of_nat d2 / 100)))"
  have p: "p = ascii_to_float (s @ [0x2E, f1, f2])"
    using o2_value [OF s(1) _ f] s(4) by (simp add: p_def d1_def d2_def)
  have g: "g = \<lparr>gr_valid = True, gr_raw = cvt (f32 (p * 100)), gr_pct = p\<rparr>"
    unfolding g_def frame_reading_def Let_def p using o2_parse [OF s(2,3) f(2)]
    by (simp add: parse_line_def Let_def)
  have n: "(of_nat n :: rat) = 100 * (of_nat (decimal s) + of_nat d1 / 10 + of_nat d2 / 100)"
    by (simp add: n_def d1_def d2_def)
  then have nn: "of_nat n / 100 = (of_nat (decimal s) + of_nat d1 / 10 + of_nat d2 / 100 :: rat)"
    by simp
  note E = o2_error [OF s(4) d, folded p_def]
  have b: "\<bar>f32 (p * 100) - of_nat n\<bar> \<le> 1 / 500" using E(2) unfolding n .
  note B = near [OF b]
  have nb: "n \<le> 9999" using s(4) d unfolding n_def d1_def d2_def by linarith
  then have nr: "(of_nat n :: rat) \<le> 9999" using of_nat_le_iff [of n 9999, where ?'a = rat] by simp
  have "f32 (p * 100) < 65536" using B nr by linarith
  then have c: "cvt (f32 (p * 100)) = word_of_int \<lfloor>f32 (p * 100)\<rfloor>" using cvt E(3) by (simp add: cvt_ok_def)
  have fl: "\<lfloor>f32 (p * 100)\<rfloor> \<in> {int n, int n - 1}"
  proof (cases "f32 (p * 100) \<ge> of_nat n")
    case True
    then have "\<lfloor>f32 (p * 100)\<rfloor> = int n" using B
      by (intro floor_unique; unfold of_int_of_nat_eq; linarith)
    then show ?thesis by simp
  next
    case False
    then have "\<lfloor>f32 (p * 100)\<rfloor> = int n - 1" using B
      by (intro floor_unique; unfold of_int_of_nat_eq of_int_diff of_int_1; linarith)
    then show ?thesis by simp
  qed
  define k where "k = \<lfloor>f32 (p * 100)\<rfloor>"
  have "0 \<le> k" using E(3) by (simp add: k_def)
  then have "k \<in> {int n, int (n - 1)}" using fl [folded k_def] by (cases n) auto
  then have "gr_raw g \<in> {word_of_nat n, word_of_nat (n - 1)}"
    unfolding g gas_reading.simps c k_def [symmetric] by (metis insert_iff singletonD of_int_of_nat_eq)
  moreover have "\<bar>gr_pct g - of_nat n / 100\<bar> \<le> 1 / 2 ^ 17" using E(1)
    unfolding g gas_reading.simps nn .
  ultimately show ?thesis by (simp add: g)
qed

definition sample_cvt :: "rat \<Rightarrow> u16" where
  "sample_cvt x = word_of_int \<lfloor>x\<rfloor>"

lemma sample_cvt_ok: "cvt_ok sample_cvt"
  by (simp add: cvt_ok_def sample_cvt_def)


lemma gas_o2_reading_witness:
  "let g = frame_reading sample_cvt GAS_MODEL_O2_SM30 (o2_line [0x32, 0x30] 0x37 0x30) no_reading in
   gr_valid g \<and> \<bar>gr_pct g - of_nat 2070 / 100\<bar> \<le> 1 / 2 ^ 17 \<and>
     gr_raw g \<in> {word_of_nat 2070, word_of_nat 2069}"
  unfolding Let_def
  using gas_o2_reading [OF sample_cvt_ok, where s = "[0x32, 0x30]" and ?f1.0 = "0x37" and ?f2.0 = "0x30" and r = no_reading]
  by (simp add: digit_def decimal_def)

definition sample_port :: sensor_ctx where
  "sample_port = sensor_boot\<lparr>model := GAS_MODEL_CO_SM30\<rparr>"

text \<open>The end of a line, a whole line and the start of the next, in two chunks.\<close>

lemma gas_stream_equivalent_witness:
  "let chunks = [[0x6D, 0x0D, 0x0A, 0x37], [0x20, 0x70, 0x70, 0x6D, 0x0D, 0x0A, 0x38]] in
   holds [0x38] (fold (parse_bytes sample_cvt) chunks sample_port) \<and>
   model (fold (parse_bytes sample_cvt) chunks sample_port) = GAS_MODEL_CO_SM30 \<and>
   reading (fold (parse_bytes sample_cvt) chunks sample_port) =
     fold (frame_reading sample_cvt GAS_MODEL_CO_SM30)
       [[0x6D, 0x0D, 0x0A], [0x37, 0x20, 0x70, 0x70, 0x6D, 0x0D, 0x0A]] no_reading"
proof -
  let ?c = "[[0x6D, 0x0D, 0x0A, 0x37], [0x20, 0x70, 0x70, 0x6D, 0x0D, 0x0A, 0x38]] :: bytes list"
  have h: "holds [] sample_port" by (simp add: holds_def sample_port_def sensor_boot_def)
  have m: "model sample_port = GAS_MODEL_CO_SM30" and r: "reading sample_port = no_reading"
    by (simp_all add: sample_port_def sensor_boot_def)
  have g: "gas_frames GAS_MODEL_CO_SM30 (concat ?c) =
      ([[0x6D, 0x0D, 0x0A], [0x37, 0x20, 0x70, 0x70, 0x6D, 0x0D, 0x0A]], [0x38])"
    by code_simp
  show ?thesis unfolding Let_def using gas_stream_equivalent [OF h m g, of sample_cvt] r by simp
qed

text \<open>The line \<^verbatim>\<open>02.09%\<close> is stored as 208 hundredths.\<close>

lemma o2_raw_truncated:
  "gr_raw (frame_reading sample_cvt GAS_MODEL_O2_SM30 (o2_line [0x30, 0x32] 0x30 0x39) no_reading) = 208"
  by code_simp

end
