(* ===== verification/Ftdi_Usb.thy ===== *)
theory Ftdi_Usb
  imports Gas_Sensor
begin

text \<open>
  \<^verbatim>\<open>src/ftdi_usb.c\<close>: the driver of the FTDI serial adapters on the two USB host ports.  A port
  reads one bulk transfer after the other; the completion callback of the USB stack stores the
  data without the two status bytes and wakes the reader.  The USB stack is a script: what its
  functions answer to each read, and when it calls the callback.  The calls to it and the
  deliveries to the receive callback of the port are a log.
\<close>

unbundle bit_operations_syntax

section \<open>State\<close>

abbreviation (input) FTDI_PORT_USB1 :: nat where "FTDI_PORT_USB1 \<equiv> 0"
abbreviation (input) FTDI_PORT_USB0 :: nat where "FTDI_PORT_USB0 \<equiv> 1"
abbreviation (input) FTDI_PORT_COUNT :: nat where "FTDI_PORT_COUNT \<equiv> 2"
abbreviation (input) FTDI_VID :: u16 where "FTDI_VID \<equiv> 0x0403"
abbreviation (input) FTDI_PID_FT2232D :: u16 where "FTDI_PID_FT2232D \<equiv> 0x6001"
abbreviation (input) FTDI_PID_FT2232H :: u16 where "FTDI_PID_FT2232H \<equiv> 0x6010"
abbreviation (input) FTDI_REQ_RESET :: u8 where "FTDI_REQ_RESET \<equiv> 0x00"
abbreviation (input) FTDI_REQ_SET_FLOW :: u8 where "FTDI_REQ_SET_FLOW \<equiv> 0x02"
abbreviation (input) FTDI_REQ_SET_BAUD :: u8 where "FTDI_REQ_SET_BAUD \<equiv> 0x03"
abbreviation (input) FTDI_REQ_SET_DATA :: u8 where "FTDI_REQ_SET_DATA \<equiv> 0x04"
abbreviation (input) FTDI_DATA_8N1 :: u16 where "FTDI_DATA_8N1 \<equiv> 0x0008"
abbreviation (input) FTDI_INTERFACE_A :: u16 where "FTDI_INTERFACE_A \<equiv> 0x0000"
abbreviation (input) BULK_BUF_SIZE :: nat where "BULK_BUF_SIZE \<equiv> 64"
abbreviation (input) ftdi_ENOMEM :: int where "ftdi_ENOMEM \<equiv> - 12"
abbreviation (input) ftdi_EINVAL :: int where "ftdi_EINVAL \<equiv> - 22"
abbreviation (input) ftdi_ETIMEDOUT :: int where "ftdi_ETIMEDOUT \<equiv> - 116"

text \<open>A callback: the error and the received buffer, which may be null.\<close>

type_synonym completion = "int \<times> bytes option"

text \<open>The log: allocations and releases of a transfer and its buffer, the hand-over to the USB
  stack, the callback of the transfer, the request to cancel it and its callback after that, a
  control request, a delivery.\<close>

datatype ftdi_io =
    Xfer_alloc | Buf_alloc | Enqueue | Completed completion | Dequeue | Cancelled completion
  | Buf_free | Xfer_free | Ctrl u8 u16 u16 | Deliver bytes

record ftdi_ctx =
  ft_id :: nat
  rx_done :: nat
  rx_data :: bytes
  rx_len :: nat
  rx_err :: int
  connected :: bool
  rx_cb :: bool
  ft_log :: "ftdi_io list"

definition ftdi_boot :: "nat \<Rightarrow> ftdi_ctx" where
  "ftdi_boot i = \<lparr>ft_id = i, rx_done = 0, rx_data = replicate BULK_BUF_SIZE 0, rx_len = 0, rx_err = 0,
                  connected = False, rx_cb = False, ft_log = []\<rparr>"

definition ft_io :: "ftdi_io \<Rightarrow> ftdi_ctx \<Rightarrow> ftdi_ctx" where
  "ft_io e c = c\<lparr>ft_log := ft_log c @ [e]\<rparr>"

text \<open>What the USB stack answers to one read.  \<open>bt_done\<close> is the callback within the two seconds
  of the first wait, if it comes; \<open>bt_cancel\<close> the callback that the
  cancellation causes within the 200 ms of the second.  \<open>bt_configured\<close> is the state of the
  device when the loop asks for it.\<close>

record bulk_turn =
  bt_configured :: bool
  bt_xfer :: bool
  bt_buf :: bool
  bt_add :: int
  bt_enqueue :: int
  bt_done :: "completion option"
  bt_cancel :: "completion option"

text \<open>A callback that comes after its read has given up is an event of its own.\<close>

datatype ftdi_event = Read bulk_turn | Late completion

section \<open>Operations\<close>

definition bulk_rx_callback :: "completion \<Rightarrow> ftdi_ctx \<Rightarrow> ftdi_ctx" where
  "bulk_rx_callback cmpl ctx =
     (case cmpl of (err, buf) \<Rightarrow>
        let c1 = ctx\<lparr>rx_err := err, rx_len := 0\<rparr>;
            c2 = (case buf of
                    None \<Rightarrow> c1
                  | Some b \<Rightarrow>
                      if err = 0 \<and> length b > 2 then
                        let data_len = min (length b - 2) BULK_BUF_SIZE
                        in c1\<lparr>rx_data := take data_len (drop 2 b) @ drop data_len (rx_data c1),
                              rx_len := data_len\<rparr>
                      else c1)
        in c2\<lparr>rx_done := min 1 (rx_done c2 + 1)\<rparr>)"

definition ftdi_release :: "ftdi_ctx \<Rightarrow> ftdi_ctx" where
  "ftdi_release c = ft_io Xfer_free (ft_io Buf_free c)"

definition ftdi_bulk_read_once :: "bulk_turn \<Rightarrow> ftdi_ctx \<Rightarrow> int \<times> ftdi_ctx" where
  "ftdi_bulk_read_once t ctx =
     (if \<not> bt_xfer t then (ftdi_ENOMEM, ctx)
      else
        let c1 = ft_io Xfer_alloc ctx
        in if \<not> bt_buf t then (ftdi_ENOMEM, ft_io Xfer_free c1)
           else
             let c2 = ft_io Buf_alloc c1
             in if bt_add t \<noteq> 0 then (bt_add t, ftdi_release c2)
                else if bt_enqueue t \<noteq> 0 then (bt_enqueue t, ftdi_release c2)
                else
                  let c3 = ft_io Enqueue c2;
                      c4 = (if rx_done c3 > 0 then c3
                            else case bt_done t of None \<Rightarrow> c3 | Some cmpl \<Rightarrow> bulk_rx_callback cmpl (ft_io (Completed cmpl) c3))
                  in if rx_done c4 = 0 then
                       let c5 = ft_io Dequeue c4;
                           c6 = (case bt_cancel t of None \<Rightarrow> c5
                                 | Some cmpl \<Rightarrow> (bulk_rx_callback cmpl (ft_io (Cancelled cmpl) c5))\<lparr>rx_done := 0\<rparr>)
                       in (ftdi_ETIMEDOUT, ftdi_release c6)
                     else
                       let c5 = ftdi_release (c4\<lparr>rx_done := rx_done c4 - 1\<rparr>)
                       in if rx_err c5 \<noteq> 0 then (rx_err c5, c5)
                          else if rx_len c5 > 0 \<and> rx_cb c5
                          then (0, ft_io (Deliver (take (rx_len c5) (rx_data c5))) c5)
                          else (0, c5))"

text \<open>The inner loop of the task; a script that is used up is a device that has been unplugged.\<close>

fun ftdi_read_loop :: "ftdi_event list \<Rightarrow> ftdi_ctx \<Rightarrow> ftdi_ctx" where
  "ftdi_read_loop [] c = c"
| "ftdi_read_loop (Late cmpl # es) c = ftdi_read_loop es (bulk_rx_callback cmpl c)"
| "ftdi_read_loop (Read t # es) c =
     (if \<not> bt_configured t then c
      else case ftdi_bulk_read_once t c of (ret, c1) \<Rightarrow>
             if ret = ftdi_ETIMEDOUT then ftdi_read_loop es c1
             else if ret < 0 then c1
             else ftdi_read_loop es c1)"

text \<open>A turn of the outer loop: the device found with its identifiers, the answers to the control
  requests, the events of the reads.\<close>

record ftdi_turn =
  fu_device :: "(u16 \<times> u16) option"
  fu_ctrl :: "u8 \<Rightarrow> int"
  fu_events :: "ftdi_event list"

definition ftdi_ctrl :: "ftdi_turn \<Rightarrow> u8 \<Rightarrow> u16 \<Rightarrow> u16 \<Rightarrow> ftdi_ctx \<Rightarrow> int \<times> ftdi_ctx" where
  "ftdi_ctrl t req v idx c = (fu_ctrl t req, ft_io (Ctrl req v idx) c)"

definition ftdi_configure :: "ftdi_turn \<Rightarrow> u16 \<Rightarrow> ftdi_ctx \<Rightarrow> int \<times> ftdi_ctx" where
  "ftdi_configure t pid c =
     (let baud_val = (if pid = FTDI_PID_FT2232H then 0x0139 else 0x404F);
          baud_idx = (if pid = FTDI_PID_FT2232H then 0x0002 else 0x0000);
          (r1, c1) = ftdi_ctrl t FTDI_REQ_RESET 0 FTDI_INTERFACE_A c;
          (r2, c2) = ftdi_ctrl t FTDI_REQ_SET_BAUD baud_val baud_idx c1;
          (r3, c3) = ftdi_ctrl t FTDI_REQ_SET_DATA FTDI_DATA_8N1 FTDI_INTERFACE_A c2;
          (r4, c4) = ftdi_ctrl t FTDI_REQ_SET_FLOW 0 FTDI_INTERFACE_A c3
      in (((r1 OR r2) OR r3) OR r4, c4))"

definition ftdi_cycle :: "ftdi_turn \<Rightarrow> ftdi_ctx \<Rightarrow> ftdi_ctx" where
  "ftdi_cycle t c =
     (case fu_device t of
        None \<Rightarrow> c\<lparr>connected := False\<rparr>
      | Some (vid, pid) \<Rightarrow>
          if vid \<noteq> FTDI_VID \<or> (pid \<noteq> FTDI_PID_FT2232D \<and> pid \<noteq> FTDI_PID_FT2232H) then c
          else case ftdi_configure t pid c of (ret, c1) \<Rightarrow>
            if ret \<noteq> 0 then c1
            else (ftdi_read_loop (fu_events t) (c1\<lparr>connected := True\<rparr>))\<lparr>connected := False\<rparr>)"

text \<open>The task: the two answers of the start of the host stack, then the turns.\<close>

definition ftdi_task :: "int \<Rightarrow> int \<Rightarrow> ftdi_turn list \<Rightarrow> ftdi_ctx \<Rightarrow> ftdi_ctx" where
  "ftdi_task init_result enable_result ts c =
     (if init_result \<noteq> 0 then c else if enable_result \<noteq> 0 then c else fold ftdi_cycle ts c)"

text \<open>The contexts of the two ports; \<open>cb\<close> says whether the callback is not null.\<close>

definition ftdi_usb_init :: "nat \<Rightarrow> bool \<Rightarrow> ftdi_ctx list \<Rightarrow> int \<times> ftdi_ctx list" where
  "ftdi_usb_init port cb ps =
     (if port \<ge> FTDI_PORT_COUNT \<or> \<not> cb then (ftdi_EINVAL, ps)
      else (0, ps[port := (ps ! port)\<lparr>rx_cb := cb, connected := False, rx_done := 0\<rparr>]))"

definition ftdi_usb_connected :: "nat \<Rightarrow> ftdi_ctx list \<Rightarrow> bool" where
  "ftdi_usb_connected port ps = (if port \<ge> FTDI_PORT_COUNT then False else connected (ps ! port))"

text \<open>\<open>gas_sensor_connected\<close> of \<^verbatim>\<open>gas_sensor.c\<close>, and the start of the two drivers in
  \<open>gas_sensor_start\<close>.\<close>

definition gas_sensor_connected :: "nat \<Rightarrow> ftdi_ctx list \<Rightarrow> bool" where
  "gas_sensor_connected type ps =
     (if type \<ge> GAS_PORT_COUNT then False
      else ftdi_usb_connected (if type = GAS_PORT_USB1 then FTDI_PORT_USB1 else FTDI_PORT_USB0) ps)"

definition gas_usb_start :: "ftdi_ctx list \<Rightarrow> ftdi_ctx list" where
  "gas_usb_start ps =
     snd (ftdi_usb_init FTDI_PORT_USB0 True (snd (ftdi_usb_init FTDI_PORT_USB1 True ps)))"

section \<open>The life of a transfer\<close>

text \<open>What may be done with the transfer and its buffer, one at a time; nothing may be released
  while the USB stack has the transfer.\<close>

datatype usb_res = No_xfer | Xfer | Xfer_buf | In_flight | Returned | Buf_freed

fun usb_step :: "usb_res \<Rightarrow> ftdi_io \<Rightarrow> usb_res option" where
  "usb_step No_xfer Xfer_alloc = Some Xfer"
| "usb_step No_xfer (Ctrl req v idx) = Some No_xfer"
| "usb_step No_xfer (Deliver d) = Some No_xfer"
| "usb_step Xfer Buf_alloc = Some Xfer_buf"
| "usb_step Xfer Xfer_free = Some No_xfer"
| "usb_step Xfer_buf Enqueue = Some In_flight"
| "usb_step Xfer_buf Buf_free = Some Buf_freed"
| "usb_step In_flight (Completed cmpl) = Some Returned"
| "usb_step In_flight Dequeue = Some In_flight"
| "usb_step In_flight (Cancelled cmpl) = Some Returned"
| "usb_step Returned Buf_free = Some Buf_freed"
| "usb_step Buf_freed Xfer_free = Some No_xfer"
| "usb_step r e = None"

fun usb_run :: "usb_res \<Rightarrow> ftdi_io list \<Rightarrow> usb_res option" where
  "usb_run r [] = Some r"
| "usb_run r (e # es) = (case usb_step r e of None \<Rightarrow> None | Some r' \<Rightarrow> usb_run r' es)"

lemma usb_run_append:
  "usb_run r (es @ fs) = (case usb_run r es of None \<Rightarrow> None | Some r' \<Rightarrow> usb_run r' fs)"
  by (induction es arbitrary: r) (auto split: option.split)

text \<open>The bytes of the serial line in a transfer: without the two status bytes.\<close>

definition line_bytes :: "completion \<Rightarrow> bytes" where
  "line_bytes cmpl =
     (case cmpl of (err, buf) \<Rightarrow>
        case buf of None \<Rightarrow> [] | Some b \<Rightarrow> if err = 0 then take BULK_BUF_SIZE (drop 2 b) else [])"

fun completions :: "ftdi_io list \<Rightarrow> completion list" where
  "completions [] = []"
| "completions (Completed cmpl # es) = cmpl # completions es"
| "completions (e # es) = completions es"

fun deliveries :: "ftdi_io list \<Rightarrow> bytes list" where
  "deliveries [] = []"
| "deliveries (Deliver d # es) = d # deliveries es"
| "deliveries (e # es) = deliveries es"

lemma completions_append [simp]: "completions (es @ fs) = completions es @ completions fs"
  by (induction es rule: completions.induct) simp_all

lemma deliveries_append [simp]: "deliveries (es @ fs) = deliveries es @ deliveries fs"
  by (induction es rule: deliveries.induct) simp_all

text \<open>A log that is in order: everything released, and what was delivered is what arrived.\<close>

definition log_ok :: "ftdi_io list \<Rightarrow> bool" where
  "log_ok es \<longleftrightarrow> usb_run No_xfer es = Some No_xfer \<and>
     deliveries es = filter (\<lambda>d. d \<noteq> []) (map line_bytes (completions es))"

lemma log_ok_append: "log_ok es \<Longrightarrow> log_ok fs \<Longrightarrow> log_ok (es @ fs)"
  by (simp add: log_ok_def usb_run_append)

lemma log_ok_Nil [simp]: "log_ok []"
  by (simp add: log_ok_def)

text \<open>Between two reads nothing has been signalled and the receive callback is set.\<close>

definition ft_calm :: "ftdi_ctx \<Rightarrow> bool" where
  "ft_calm c \<longleftrightarrow> rx_done c = 0 \<and> rx_cb c \<and> length (rx_data c) = BULK_BUF_SIZE \<and> log_ok (ft_log c)"

text \<open>The USB stack answers a cancellation within the 200 ms.\<close>

fun event_calm :: "ftdi_event \<Rightarrow> bool" where
  "event_calm (Read t) \<longleftrightarrow> bt_done t \<noteq> None \<or> bt_cancel t \<noteq> None"
| "event_calm (Late cmpl) \<longleftrightarrow> False"

lemma ft_io_same [simp]:
  "ft_id (ft_io e c) = ft_id c" "rx_done (ft_io e c) = rx_done c" "rx_data (ft_io e c) = rx_data c"
  "rx_len (ft_io e c) = rx_len c" "rx_err (ft_io e c) = rx_err c" "connected (ft_io e c) = connected c"
  "rx_cb (ft_io e c) = rx_cb c" "ft_log (ft_io e c) = ft_log c @ [e]"
  by (simp_all add: ft_io_def)

lemma callback_effect:
  fixes c :: ftdi_ctx and cmpl :: completion
  assumes "length (rx_data c) = BULK_BUF_SIZE"
  defines "c' \<equiv> bulk_rx_callback cmpl c"
  shows "rx_done c' = 1" "length (rx_data c') = BULK_BUF_SIZE" "rx_cb c' = rx_cb c" "ft_log c' = ft_log c"
    "rx_err c' = fst cmpl" "take (rx_len c') (rx_data c') = line_bytes cmpl"
    "rx_len c' = length (line_bytes cmpl)" "ft_id c' = ft_id c" "connected c' = connected c"
  using assms(1) unfolding c'_def
  by (auto simp: bulk_rx_callback_def line_bytes_def Let_def min_def split: prod.split option.split)

lemma release_same [simp]:
  "rx_done (ftdi_release c) = rx_done c" "rx_data (ftdi_release c) = rx_data c"
  "rx_len (ftdi_release c) = rx_len c" "rx_err (ftdi_release c) = rx_err c"
  "rx_cb (ftdi_release c) = rx_cb c" "ft_log (ftdi_release c) = ft_log c @ [Buf_free, Xfer_free]"
  "connected (ftdi_release c) = connected c"
  by (simp_all add: ftdi_release_def)

lemma bulk_read_calm:
  assumes c: "ft_calm c" and t: "event_calm (Read t)"
  shows "ft_calm (snd (ftdi_bulk_read_once t c))"
proof -
  have d: "rx_done c = 0" "rx_cb c" "length (rx_data c) = BULK_BUF_SIZE" "log_ok (ft_log c)"
    using c by (auto simp: ft_calm_def)
  have l: "ft_calm c'" if "rx_done c' = 0" "rx_cb c'" "length (rx_data c') = BULK_BUF_SIZE"
    "ft_log c' = ft_log c @ io" "log_ok io" for c' io
    using that d(4) log_ok_append by (auto simp: ft_calm_def)
  note unf = ftdi_bulk_read_once_def Let_def
  consider "\<not> bt_xfer t" | "bt_xfer t" "\<not> bt_buf t"
    | "bt_xfer t" "bt_buf t" "bt_add t \<noteq> 0 \<or> bt_enqueue t \<noteq> 0"
    | cmpl where "bt_xfer t" "bt_buf t" "bt_add t = 0" "bt_enqueue t = 0" "bt_done t = Some cmpl"
    | cmpl where "bt_xfer t" "bt_buf t" "bt_add t = 0" "bt_enqueue t = 0" "bt_done t = None"
        "bt_cancel t = Some cmpl"
    using t by fastforce
  then show ?thesis
  proof cases
    case 1
    then show ?thesis using c by (simp add: unf)
  next
    case 2
    then show ?thesis by (intro l [of _ "[Xfer_alloc, Xfer_free]"]) (simp_all add: unf d log_ok_def)
  next
    case 3
    then show ?thesis
      by (intro l [of _ "[Xfer_alloc, Buf_alloc, Buf_free, Xfer_free]"]) (auto simp: unf d log_ok_def)
  next
    case (4 cmpl)
    define c3 where "c3 = ft_io (Completed cmpl) (ft_io Enqueue (ft_io Buf_alloc (ft_io Xfer_alloc c)))"
    have c3: "length (rx_data c3) = BULK_BUF_SIZE" "ft_log c3 = ft_log c @ [Xfer_alloc, Buf_alloc, Enqueue, Completed cmpl]"
      "rx_cb c3" by (simp_all add: c3_def d)
    note cb = callback_effect [OF c3(1), of cmpl]
    define c5 where "c5 = ftdi_release ((bulk_rx_callback cmpl c3)\<lparr>rx_done := 0\<rparr>)"
    have r: "snd (ftdi_bulk_read_once t c) = (if rx_err c5 \<noteq> 0 then c5
        else if rx_len c5 > 0 \<and> rx_cb c5 then ft_io (Deliver (take (rx_len c5) (rx_data c5))) c5 else c5)"
      unfolding unf c5_def c3_def using 4 d(1) cb(1) unfolding c3_def by simp
    have z: "line_bytes cmpl = [] \<or> fst cmpl = 0" by (auto simp: line_bytes_def split: prod.split option.split)
    show ?thesis unfolding r
      by (rule l [of _ "[Xfer_alloc, Buf_alloc, Enqueue, Completed cmpl, Buf_free, Xfer_free] @
            (if line_bytes cmpl = [] \<or> \<not> fst cmpl = 0 then [] else [Deliver (line_bytes cmpl)])"])
        (use z cb(6) [unfolded cb(7)] in \<open>auto simp: c5_def cb c3 log_ok_def\<close>)
  next
    case (5 cmpl)
    define c3 where "c3 = ft_io (Cancelled cmpl) (ft_io Dequeue (ft_io Enqueue (ft_io Buf_alloc (ft_io Xfer_alloc c))))"
    have c3: "length (rx_data c3) = BULK_BUF_SIZE"
      "ft_log c3 = ft_log c @ [Xfer_alloc, Buf_alloc, Enqueue, Dequeue, Cancelled cmpl]" "rx_cb c3"
      by (simp_all add: c3_def d)
    note cb = callback_effect [OF c3(1), of cmpl]
    have r: "snd (ftdi_bulk_read_once t c) = ftdi_release ((bulk_rx_callback cmpl c3)\<lparr>rx_done := 0\<rparr>)"
      unfolding unf c3_def using 5 d(1) by simp
    show ?thesis unfolding r
      by (intro l [of _ "[Xfer_alloc, Buf_alloc, Enqueue, Dequeue, Cancelled cmpl, Buf_free, Xfer_free]"])
        (simp_all add: cb c3 log_ok_def)
  qed
qed

section \<open>The task\<close>

lemma read_loop_calm:
  "list_all event_calm es \<Longrightarrow> ft_calm c \<Longrightarrow> ft_calm (ftdi_read_loop es c)"
proof (induction es c rule: ftdi_read_loop.induct)
  case (3 t es c)
  then show ?case using bulk_read_calm [of c t] by (auto split: prod.split)
qed simp_all

lemma configure_log:
  "\<exists>r v. ftdi_configure t pid c = (r, c\<lparr>ft_log := ft_log c @ v\<rparr>) \<and> log_ok v"
proof -
  let ?v = "[Ctrl 0 0 0, Ctrl 3 (if pid = FTDI_PID_FT2232H then 0x0139 else 0x404F)
      (if pid = FTDI_PID_FT2232H then 0x0002 else 0x0000), Ctrl 4 8 0, Ctrl 2 0 0]"
  have "\<exists>r. ftdi_configure t pid c = (r, c\<lparr>ft_log := ft_log c @ ?v\<rparr>)"
    by (simp add: ftdi_configure_def ftdi_ctrl_def ft_io_def)
  moreover have "log_ok ?v" by (simp add: log_ok_def)
  ultimately show ?thesis by blast
qed

lemma ft_calm_connected [simp]: "ft_calm (x\<lparr>connected := b\<rparr>) = ft_calm x"
  by (simp add: ft_calm_def)

lemma ftdi_cycle_calm:
  assumes c: "ft_calm c" and t: "list_all event_calm (fu_events t)"
  shows "ft_calm (ftdi_cycle t c)"
proof -
  have k: "ft_calm (c\<lparr>ft_log := ft_log c @ v\<rparr>)" if "log_ok v" for v
    using c that by (simp add: ft_calm_def log_ok_append)
  show ?thesis
  proof (cases "fu_device t")
    case (Some d)
    obtain vid pid where d: "d = (vid, pid)" by fastforce
    obtain r v where v: "ftdi_configure t pid c = (r, c\<lparr>ft_log := ft_log c @ v\<rparr>)" "log_ok v"
      using configure_log by blast
    have kc: "ft_calm ((c\<lparr>ft_log := ft_log c @ v\<rparr>)\<lparr>connected := True\<rparr>)" using k [OF v(2)] by simp
    show ?thesis
      using c k [OF v(2)] read_loop_calm [OF t kc]
      unfolding ftdi_cycle_def Some d option.case prod.case v(1) by simp
  qed (use c in \<open>simp add: ftdi_cycle_def\<close>)
qed

lemma ftdi_cycle_unconnected: "\<not> connected c \<Longrightarrow> \<not> connected (ftdi_cycle t c)"
  by (auto simp: ftdi_cycle_def ftdi_configure_def ftdi_ctrl_def split: option.split prod.split)

interpretation usb: event_task "\<lambda>t. list_all event_calm (fu_events t)" ft_calm ftdi_cycle
  by unfold_locales (simp add: ftdi_cycle_calm)

interpretation usb_down: event_task "\<lambda>t. True" "\<lambda>c. \<not> connected c" ftdi_cycle
  by unfold_locales (simp add: ftdi_cycle_unconnected)

lemma ftdi_task_unconnected: "\<not> connected c \<Longrightarrow> \<not> connected (ftdi_task i e ts c)"
  using usb_down.run_inv [of ts c] by (simp add: ftdi_task_def list_all_iff)

lemma ftdi_task_calm:
  "\<forall>t \<in> set ts. list_all event_calm (fu_events t) \<Longrightarrow> ft_calm c \<Longrightarrow> ft_calm (ftdi_task i e ts c)"
  using usb.run_inv [of ts c] by (simp add: ftdi_task_def list_all_iff)

lemma ft_calm_init:
  assumes "ft_log (ps ! port) = []" "length (rx_data (ps ! port)) = BULK_BUF_SIZE" "port < length ps"
    and "ftdi_usb_init port True ps = (0, ps')"
  shows "ft_calm (ps' ! port)"
  using assms by (auto simp: ftdi_usb_init_def ft_calm_def split: if_splits)

text \<open>C36: as long as the USB stack answers every cancellation in time, the driver of a port,
  whatever devices are plugged in and however their transfers end, never releases a transfer or
  its buffer while the stack has them and releases each exactly once, and it hands on exactly the
  bytes of the serial line: those of every transfer that completed without an error before its
  timeout, without the two status bytes, in
  their order; between the devices it reports no connection.\<close>

theorem ftdi_transfers_safe:
  fixes init_result enable_result :: int and ts :: "ftdi_turn list"
  assumes "ftdi_usb_init port True [ftdi_boot 0, ftdi_boot 1] = (0, ps)"
    and "\<forall>t \<in> set ts. list_all event_calm (fu_events t)"
  defines "c \<equiv> ftdi_task init_result enable_result ts (ps ! port)"
  defines "es \<equiv> ft_log c"
  shows "usb_run No_xfer es = Some No_xfer \<and> \<not> connected c \<and>
    deliveries es = filter (\<lambda>d. d \<noteq> []) (map line_bytes (completions es))"
proof -
  have "port < 2" using assms(1) by (simp add: ftdi_usb_init_def split: if_splits)
  then have "port \<in> {0, 1}" by auto
  then have "ft_calm (ps ! port)"
    by (intro ft_calm_init [OF _ _ _ assms(1)]) (auto simp: ftdi_boot_def)
  note calm = ftdi_task_calm [OF assms(2) this, of init_result enable_result, folded c_def]
  have "\<not> connected (ps ! port)"
    using assms(1) \<open>port \<in> {0, 1}\<close> by (auto simp: ftdi_usb_init_def)
  then have "\<not> connected c" unfolding c_def by (rule ftdi_task_unconnected)
  with calm show ?thesis unfolding es_def ft_calm_def log_ok_def by blast
qed

section \<open>From the USB port to the reading\<close>

text \<open>The receive callback of the port: every delivery goes to the gas sensor parser.\<close>

definition usb_feed :: "(rat \<Rightarrow> u16) \<Rightarrow> nat \<Rightarrow> ftdi_io list \<Rightarrow> sensor_ctx list \<Rightarrow> sensor_ctx list" where
  "usb_feed cvt port es ss = fold (ftdi_rx_handler cvt port) (deliveries es) ss"

lemma handler_fold:
  assumes "port < 2" "length ss = 2"
  shows "fold (ftdi_rx_handler cvt port) ds ss ! port = fold (parse_bytes cvt) ds (ss ! port) \<and>
    length (fold (ftdi_rx_handler cvt port) ds ss) = 2 \<and>
    fold (ftdi_rx_handler cvt port) ds ss ! (1 - port) = ss ! (1 - port)"
proof -
  have h: "ftdi_rx_handler cvt port d s = s[port := parse_bytes cvt d (s ! port)]" for d s
    using assms(1) by (auto simp: ftdi_rx_handler_def on_port_def less_2_cases_iff)
  have p: "1 - port \<noteq> port" using assms(1) by (auto simp: less_2_cases_iff)
  show ?thesis
    using assms(2) by (induction ds arbitrary: ss) (use assms(1) p in \<open>simp_all add: h\<close>)
qed

lemma concat_nonempty: "concat (filter (\<lambda>d. d \<noteq> []) ds) = concat ds"
  by (induction ds) simp_all

lemma gas_start_port:
  assumes "port < 2" "ss = gas_sensor_start cfg [sensor_boot, sensor_boot]"
  shows "length ss = 2" "holds [] (ss ! port)" "reading (ss ! port) = no_reading"
  using assms by (auto simp: gas_sensor_start_def Let_def on_port_def holds_def sensor_boot_def less_2_cases_iff)

text \<open>C37: from the plug to the reading: the reading of a port is what the complete frames of
  the serial line leave, parsed one by one by the parser of the configured model; how the USB
  packets cut the line, their status bytes, packets that failed and unplugged adapters do not
  matter, and the other port is not touched.\<close>

theorem usb_gas_reading:
  fixes cfg :: gw_config and init_result enable_result :: int
  assumes "ftdi_usb_init port True [ftdi_boot 0, ftdi_boot 1] = (0, ps)"
    and "\<forall>t \<in> set ts. list_all event_calm (fu_events t)"
  defines "es \<equiv> ft_log (ftdi_task init_result enable_result ts (ps ! port))"
    and "ss \<equiv> gas_sensor_start cfg [sensor_boot, sensor_boot]"
  assumes "gas_frames (gas_sensor_get_model port ss) (concat (map line_bytes (completions es))) = (fs, rest)"
  shows "gas_sensor_get port (usb_feed cvt port es ss) =
      fold (frame_reading cvt (gas_sensor_get_model port ss)) fs no_reading \<and>
    gas_sensor_get (1 - port) (usb_feed cvt port es ss) = no_reading"
proof -
  have p: "port < 2" using assms(1) by (simp add: ftdi_usb_init_def split: if_splits)
  then have q: "1 - port < 2" by simp
  have "port \<in> {0, 1}" using p by auto
  then have "ft_calm (ps ! port)"
    by (intro ft_calm_init [OF _ _ _ assms(1)]) (auto simp: ftdi_boot_def)
  from ftdi_task_calm [OF assms(2) this, of init_result enable_result]
  have d: "deliveries es = filter (\<lambda>d. d \<noteq> []) (map line_bytes (completions es))"
    unfolding es_def ft_calm_def log_ok_def by blast
  note g = gas_start_port [OF p ss_def [THEN meta_eq_to_obj_eq]]
    and g' = gas_start_port [OF q ss_def [THEN meta_eq_to_obj_eq]]
  have m: "model (ss ! port) = gas_sensor_get_model port ss" using p by (simp add: gas_sensor_get_model_def)
  have "gas_frames (gas_sensor_get_model port ss) (concat (deliveries es)) = (fs, rest)"
    unfolding d concat_nonempty by (rule assms(5))
  note e = gas_stream_result [OF g(2) m this, of cvt]
  show ?thesis
    using handler_fold [OF p g(1), of cvt "deliveries es"] e g(3) g'(3) p q
    by (simp add: usb_feed_def gas_sensor_get_def)
qed

section \<open>Closed examples\<close>

text \<open>A carbon monoxide sensor on the first port: a line in two packets, the second after a read
  that timed out; then the adapter is unplugged.\<close>

definition sample_read :: "completion option \<Rightarrow> ftdi_event" where
  "sample_read cmpl =
     Read \<lparr>bt_configured = True, bt_xfer = True, bt_buf = True, bt_add = 0, bt_enqueue = 0,
           bt_done = cmpl, bt_cancel = Some (- 104, None)\<rparr>"

definition sample_usb_turns :: "ftdi_turn list" where
  "sample_usb_turns =
     [\<lparr>fu_device = Some (FTDI_VID, FTDI_PID_FT2232D), fu_ctrl = (\<lambda>_. 0),
       fu_events = [sample_read (Some (0, Some [0x31, 0x60, 0x37, 0x20, 0x70])), sample_read None,
                    sample_read (Some (0, Some [0x31, 0x60, 0x70, 0x6D, 0x0D, 0x0A]))]\<rparr>,
      \<lparr>fu_device = None, fu_ctrl = (\<lambda>_. 0), fu_events = []\<rparr>]"

definition sample_gas_config :: gw_config where
  "sample_gas_config =
     (g_gw_config sample_cfg_state)\<lparr>sensor_model_usb1 := GAS_MODEL_CO_SM30, sensor_model_usb0 := 9\<rparr>"

lemma sample_usb_calm: "\<forall>t \<in> set sample_usb_turns. list_all event_calm (fu_events t)"
  by (simp add: sample_usb_turns_def sample_read_def)

lemma sample_usb_log:
  "completions (ft_log (ftdi_task 0 0 sample_usb_turns
     (snd (ftdi_usb_init 0 True [ftdi_boot 0, ftdi_boot 1]) ! 0))) =
   [(0, Some [0x31, 0x60, 0x37, 0x20, 0x70]), (0, Some [0x31, 0x60, 0x70, 0x6D, 0x0D, 0x0A])]"
  by code_simp

lemma sample_usb_init:
  "ftdi_usb_init 0 True [ftdi_boot 0, ftdi_boot 1] = (0, snd (ftdi_usb_init 0 True [ftdi_boot 0, ftdi_boot 1]))"
  by (simp add: ftdi_usb_init_def)

lemma ftdi_transfers_safe_witness:
  "let c = ftdi_task 0 0 sample_usb_turns (snd (ftdi_usb_init 0 True [ftdi_boot 0, ftdi_boot 1]) ! 0)
   in usb_run No_xfer (ft_log c) = Some No_xfer \<and> \<not> connected c \<and>
      deliveries (ft_log c) = [[0x37, 0x20, 0x70], [0x70, 0x6D, 0x0D, 0x0A]]"
  using ftdi_transfers_safe [OF sample_usb_init sample_usb_calm, of 0 0]
  unfolding sample_usb_log Let_def by (simp add: line_bytes_def)

lemma usb_gas_reading_witness:
  "let es = ft_log (ftdi_task 0 0 sample_usb_turns (snd (ftdi_usb_init 0 True [ftdi_boot 0, ftdi_boot 1]) ! 0));
       ss = gas_sensor_start sample_gas_config [sensor_boot, sensor_boot]
   in gas_sensor_get 0 (usb_feed sample_cvt 0 es ss) =
        fold (frame_reading sample_cvt GAS_MODEL_CO_SM30) [[0x37, 0x20, 0x70, 0x70, 0x6D, 0x0D, 0x0A]] no_reading \<and>
      gas_sensor_get 1 (usb_feed sample_cvt 0 es ss) = no_reading"
proof -
  let ?ss = "gas_sensor_start sample_gas_config [sensor_boot, sensor_boot]"
  have m: "gas_sensor_get_model 0 ?ss = GAS_MODEL_CO_SM30"
    by (simp add: gas_sensor_get_model_def gas_sensor_start_def on_port_def sample_gas_config_def Let_def)
  have g: "gas_frames (gas_sensor_get_model 0 ?ss) (concat (map line_bytes (completions
      (ft_log (ftdi_task 0 0 sample_usb_turns (snd (ftdi_usb_init 0 True [ftdi_boot 0, ftdi_boot 1]) ! 0)))))) =
    ([[0x37, 0x20, 0x70, 0x70, 0x6D, 0x0D, 0x0A]], [])"
    unfolding m sample_usb_log by code_simp
  show ?thesis
    unfolding Let_def
    using usb_gas_reading [OF sample_usb_init sample_usb_calm g, of sample_cvt] unfolding m by simp
qed

text \<open>When the stack does not answer the cancellation in time, the transfer and its buffer are
  released while the stack still has them.\<close>

lemma late_answer_released_in_flight:
  assumes "bt_xfer t" "bt_buf t" "bt_add t = 0" "bt_enqueue t = 0" "bt_done t = None" "bt_cancel t = None"
    and "rx_done c = 0" "ft_log c = []"
  shows "usb_run No_xfer (ft_log (snd (ftdi_bulk_read_once t c))) = None"
  using assms by (simp add: ftdi_bulk_read_once_def Let_def)

end
