(* ===== verification/Gas_Menu.thy ===== *)
theory Gas_Menu
  imports Ftdi_Usb
begin

text \<open>
  The gas sensor submenu of \<^verbatim>\<open>src/config_nvs.c\<close>: it shows the readings every two seconds and lets
  the user choose the sensor model of a port, which takes effect at once and is stored at once.
  Of the screens, the main menu's and the submenu's, it is modelled what they say about a port.
\<close>

section \<open>Operations\<close>

definition nvs_save_sensor_models :: "'s nvs_ops \<Rightarrow> 's cfg_state \<Rightarrow> 's cfg_state" where
  "nvs_save_sensor_models N st =
     (if \<not> nvs_ok st then st
      else st\<lparr>nvs := nvs_write_all N
                [(KEY_SENSOR_USB1, [sensor_model_usb1 (g_gw_config st)]),
                 (KEY_SENSOR_USB0, [sensor_model_usb0 (g_gw_config st)])] (nvs st)\<rparr>)"

text \<open>The wait for a key between two screens: at most \<open>n\<close> polls of the console.\<close>

fun gas_menu_wait :: "nat \<Rightarrow> u8 option list \<Rightarrow> u8 option \<times> u8 option list" where
  "gas_menu_wait 0 ps = (None, ps)"
| "gas_menu_wait (Suc n) [] = (None, [])"
| "gas_menu_wait (Suc n) (None # ps) = gas_menu_wait n ps"
| "gas_menu_wait (Suc n) (Some c # ps) =
     (if c \<noteq> 0x0D \<and> c \<noteq> 0x0A then (Some c, ps) else gas_menu_wait n ps)"

text \<open>A chosen model.\<close>

definition gas_menu_choose ::
    "'s nvs_ops \<Rightarrow> nat \<Rightarrow> u8 \<Rightarrow> 's cfg_state \<times> sensor_ctx list \<Rightarrow> 's cfg_state \<times> sensor_ctx list" where
  "gas_menu_choose N port mv x =
     (case x of (st, ss) \<Rightarrow>
        let ss1 = gas_sensor_set_model port mv ss;
            c = g_gw_config st;
            c1 = (if port = GAS_PORT_USB1 then c\<lparr>sensor_model_usb1 := mv\<rparr> else c\<lparr>sensor_model_usb0 := mv\<rparr>)
        in (nvs_save_sensor_models N (st\<lparr>g_gw_config := c1\<rparr>), ss1))"

lemma gas_menu_wait_length:
  "ps \<noteq> [] \<Longrightarrow> gas_menu_wait (Suc n) ps = (k, ps') \<Longrightarrow> length ps' < length ps"
proof -
  have le: "gas_menu_wait n ps = (k, ps') \<Longrightarrow> length ps' \<le> length ps" for n k ps ps'
    by (induction n ps arbitrary: k rule: gas_menu_wait.induct) (fastforce split: if_splits)+
  show "ps \<noteq> [] \<Longrightarrow> gas_menu_wait (Suc n) ps = (k, ps') \<Longrightarrow> length ps' < length ps"
    using le by (cases ps; cases "hd ps") (fastforce split: if_splits)+
qed

lemma gas_menu_poll_size:
  assumes "rx_script con \<noteq> []" "(k, ps) = gas_menu_wait 20 (rx_script con)"
  shows "console_size (con\<lparr>rx_script := ps\<rparr>) < console_size con"
  using gas_menu_wait_length [of "rx_script con" 19 k ps] assms
  by (auto simp: console_size_def numeral_eq_Suc)

lemma gas_menu_line_size:
  assumes "read_line CFG_MENU_BUF (con\<lparr>rx_script := ps\<rparr>) = Some (buf, con2)"
    and "rx_script con \<noteq> []" "(k, ps) = gas_menu_wait 20 (rx_script con)"
  shows "console_size con2 < console_size con"
  using gas_menu_poll_size [OF assms(2,3)] read_line_size [OF assms(1)] by simp

text \<open>The loop; the result says whether it was left, or waits for a key that does not come.\<close>

function gas_menu ::
    "'s nvs_ops \<Rightarrow> console \<Rightarrow> 's cfg_state \<times> sensor_ctx list \<Rightarrow>
     bool \<times> console \<times> 's cfg_state \<times> sensor_ctx list" where
  "gas_menu N con x =
     (if rx_script con = [] then (False, con, x)
      else
        case gas_menu_wait 20 (rx_script con) of (k, ps) \<Rightarrow>
          let con1 = con\<lparr>rx_script := ps\<rparr>
          in case k of
               None \<Rightarrow> gas_menu N con1 x
             | Some c \<Rightarrow>
                 if upper_key c = 0x51 then (True, con1, x)
                 else if upper_key c = 0x31 \<or> upper_key c = 0x32 then
                   case read_line CFG_MENU_BUF con1 of
                     None \<Rightarrow> (False, con1, x)
                   | Some (buf, con2) \<Rightarrow>
                       if buf \<noteq> [] \<and> hd buf \<ge> 0x30 \<and> hd buf \<le> 0x36
                       then gas_menu N con2 (gas_menu_choose N
                              (if upper_key c = 0x31 then GAS_PORT_USB1 else GAS_PORT_USB0) (hd buf - 0x30) x)
                       else gas_menu N con2 x
                 else gas_menu N con1 x)"
  by pat_completeness auto
termination
  by (relation "measure (\<lambda>(N, con, x). console_size con)") (auto dest: gas_menu_poll_size gas_menu_line_size)

declare gas_menu.simps [simp del]

section \<open>What a choice changes\<close>

lemma gas_menu_invariant:
  assumes choose: "\<And>x port mv. P x \<Longrightarrow> port < 2 \<Longrightarrow> mv < 7 \<Longrightarrow> P (gas_menu_choose N port mv x)"
  shows "P x \<Longrightarrow> gas_menu N con x = (left, con', x') \<Longrightarrow> P x'"
proof (induction "console_size con" arbitrary: con x rule: less_induct)
  case less
  show ?case
  proof (cases "rx_script con = []")
    case True
    then show ?thesis using less.prems by (subst (asm) gas_menu.simps) simp
  next
    case False
    obtain k ps where w: "gas_menu_wait 20 (rx_script con) = (k, ps)" by fastforce
    define con1 where "con1 = con\<lparr>rx_script := ps\<rparr>"
    have s1: "console_size con1 < console_size con"
      unfolding con1_def by (rule gas_menu_poll_size [OF False w [symmetric]])
    note e = less.prems(2) [unfolded gas_menu.simps [of N con] if_not_P [OF False] w prod.case Let_def,
        folded con1_def]
    show ?thesis
    proof (cases "\<exists>c. k = Some c \<and> upper_key c \<noteq> 0x51 \<and> (upper_key c = 0x31 \<or> upper_key c = 0x32) \<and>
        read_line CFG_MENU_BUF con1 \<noteq> None")
      case True
      then obtain c buf con2 where c: "k = Some c" "upper_key c \<noteq> 0x51" "upper_key c = 0x31 \<or> upper_key c = 0x32"
        "read_line CFG_MENU_BUF con1 = Some (buf, con2)" by auto
      have s2: "console_size con2 < console_size con"
        using gas_menu_line_size [OF c(4) [unfolded con1_def] False w [symmetric]] .
      define port where "port = (if upper_key c = 0x31 then GAS_PORT_USB1 else GAS_PORT_USB0)"
      have p: "port < 2" by (simp add: port_def)
      note e' = e [unfolded c(1,4) option.case prod.case if_not_P [OF c(2)] if_P [OF c(3)], folded port_def]
      show ?thesis
      proof (cases "buf \<noteq> [] \<and> hd buf \<ge> 0x30 \<and> hd buf \<le> 0x36")
        case True
        have "d - 0x30 < 7" if "0x30 \<le> d \<and> d \<le> 0x36" for d :: u8
        proof -
          have "48 \<le> unat d" "unat d \<le> 54" "unat (d - 0x30) = unat d - 48"
            using that by (simp_all add: word_le_nat_alt unat_sub)
          then have "unat (d - 0x30) < 7" by linarith
          then show ?thesis by (simp add: word_less_nat_alt)
        qed
        then have "hd buf - 0x30 < 7" using True by blast
        from less.hyps [OF s2 choose [OF less.prems(1) p this] e' [unfolded if_P [OF True]]]
        show ?thesis .
      next
        case False
        from less.hyps [OF s2 less.prems(1) e' [unfolded if_not_P [OF False]]] show ?thesis .
      qed
    next
      case False
      then show ?thesis
        using e less.hyps [OF s1 less.prems(1)] less.prems(1)
        by (auto split: option.splits if_splits)
    qed
  qed
qed

definition models_of :: "gw_config \<Rightarrow> u8 list" where
  "models_of c = [sensor_model_usb1 c, sensor_model_usb0 c]"

text \<open>The state of the submenu: the parsers run the configured models, and the storage keeps its
  other entries.\<close>

definition gas_menu_inv ::
    "'s nvs_ops \<Rightarrow> 's cfg_state \<Rightarrow> 's cfg_state \<times> sensor_ctx list \<Rightarrow> bool" where
  "gas_menu_inv N st0 x \<longleftrightarrow>
     (case x of (st, ss) \<Rightarrow>
        cfg_wf (g_gw_config st) \<and> nvs_ok st \<and> map model ss = models_of (g_gw_config st) \<and>
        (\<exists>a b. g_gw_config st = (g_gw_config st0)\<lparr>sensor_model_usb1 := a, sensor_model_usb0 := b\<rparr>) \<and>
        (\<forall>key. key \<noteq> KEY_SENSOR_USB1 \<and> key \<noteq> KEY_SENSOR_USB0 \<longrightarrow>
           nvs_read N (nvs st) key = nvs_read N (nvs st0) key) \<and>
        (st = st0 \<or> map (nvs_read N (nvs st)) [KEY_SENSOR_USB1, KEY_SENSOR_USB0] =
                      map (\<lambda>m. Some [m]) (models_of (g_gw_config st))))"

lemma gas_menu_choose_inv:
  assumes N: "nvs_laws N" and x: "gas_menu_inv N st0 x" and p: "port < 2" "mv < 7"
  shows "gas_menu_inv N st0 (gas_menu_choose N port mv x)"
proof -
  obtain st ss where xs: "x = (st, ss)" by fastforce
  have i: "cfg_wf (g_gw_config st)" "nvs_ok st" "map model ss = models_of (g_gw_config st)"
    "\<And>key. key \<noteq> KEY_SENSOR_USB1 \<Longrightarrow> key \<noteq> KEY_SENSOR_USB0 \<Longrightarrow> nvs_read N (nvs st) key = nvs_read N (nvs st0) key"
    using x unfolding gas_menu_inv_def xs prod.case by blast+
  obtain u v where uv: "g_gw_config st = (g_gw_config st0)\<lparr>sensor_model_usb1 := u, sensor_model_usb0 := v\<rparr>"
    using x unfolding gas_menu_inv_def xs prod.case by blast
  obtain a b where ab: "ss = [a, b]" using i(3) by (auto simp: models_of_def)
  define c1 where "c1 = (if port = GAS_PORT_USB1 then (g_gw_config st)\<lparr>sensor_model_usb1 := mv\<rparr>
      else (g_gw_config st)\<lparr>sensor_model_usb0 := mv\<rparr>)"
  define s1 where "s1 = nvs_write_all N [(KEY_SENSOR_USB1, [sensor_model_usb1 c1]),
      (KEY_SENSOR_USB0, [sensor_model_usb0 c1])] (nvs st)"
  define ss1 where "ss1 = gas_sensor_set_model port mv ss"
  have e: "gas_menu_choose N port mv x = (st\<lparr>g_gw_config := c1, nvs := s1\<rparr>, ss1)"
    using i(2) by (simp add: gas_menu_choose_def xs nvs_save_sensor_models_def c1_def s1_def ss1_def Let_def)
  have p01: "port = 0 \<or> port = 1" using p(1) by auto
  have nv: "\<not> (port \<ge> 2 \<or> mv \<ge> 7)" using p by auto
  have w1: "cfg_wf c1" using i(1) p(2) by (simp add: c1_def cfg_wf_def)
  have m1: "map model ss1 = models_of c1"
    using p01 i(3) by (auto simp: ss1_def gas_sensor_set_model_def nv on_port_def ab c1_def models_of_def)
  have g1: "\<exists>u v. c1 = (g_gw_config st0)\<lparr>sensor_model_usb1 := u, sensor_model_usb0 := v\<rparr>"
  proof (cases "port = GAS_PORT_USB1")
    case True
    then have "c1 = (g_gw_config st0)\<lparr>sensor_model_usb1 := mv, sensor_model_usb0 := v\<rparr>"
      by (simp add: c1_def uv)
    then show ?thesis by blast
  next
    case False
    then have "c1 = (g_gw_config st0)\<lparr>sensor_model_usb1 := u, sensor_model_usb0 := mv\<rparr>"
      by (simp add: c1_def uv)
    then show ?thesis by blast
  qed
  have r: "nvs_read N s1 key = (if key = KEY_SENSOR_USB0 then Some [sensor_model_usb0 c1]
      else if key = KEY_SENSOR_USB1 then Some [sensor_model_usb1 c1] else nvs_read N (nvs st) key)" for key
    using N by (simp add: s1_def nvs_write_all_def nvs_laws_def)
  show ?thesis
    unfolding e gas_menu_inv_def prod.case
    using w1 m1 g1 i(2,4) by (simp add: r models_of_def)
qed

text \<open>What the next boot makes of the two entries.\<close>

lemma loaded_models:
  assumes l: "config_nvs_load N k True 0 (boot\<lparr>nvs := s\<rparr>) = Some b"
    and e: "map (nvs_read N s) [KEY_SENSOR_USB1, KEY_SENSOR_USB0] = map (\<lambda>m. Some [m]) (models_of c)"
    and w: "cfg_wf c"
  shows "models_of (g_gw_config b) =
    (if nvs_rd_u16 (nvs_read N s KEY_SCHEMA_VER) 0 = NVS_SCHEMA_VERSION then models_of c
     else models_of (load_defaults k))"
proof (cases "nvs_rd_u16 (nvs_read N s KEY_SCHEMA_VER) 0 = NVS_SCHEMA_VERSION")
  case True
  have f: "models_of (g_gw_config (cfg_force_boot_mode N k x)) = models_of (g_gw_config x)" for x
    by (simp add: cfg_force_boot_mode_def config_nvs_save_boot_mode_def models_of_def Let_def)
  have m: "models_of (cfg_build_boot_mode k x) = models_of x" for x
    by (simp add: cfg_build_boot_mode_def models_of_def)
  obtain x where x: "cfg_read_fields (nvs_read N s) (load_defaults k) = Some x"
    "models_of (g_gw_config b) = models_of x"
    using l True by (auto simp: config_nvs_load_def nvs_init_fs_def bind_eq_Some_conv f m)
  have "models_of x = models_of c"
    using x(1) e w by (auto simp: cfg_read_fields_def bind_eq_Some_conv models_of_def cfg_wf_def)
  then show ?thesis using True x(2) by simp
next
  case False
  then show ?thesis using l by (auto simp: config_nvs_load_def nvs_init_fs_def)
qed

section \<open>The screens\<close>

text \<open>What a screen says of a port: the name of its model and, when there is one, the reading with its
  unit.\<close>

datatype gas_shown = No_model | Unconnected | Waiting_for_data | Shown rat string

definition configured_model :: "gw_config \<Rightarrow> nat \<Rightarrow> u8" where
  "configured_model c p = (if p = GAS_PORT_USB1 then sensor_model_usb1 c else sensor_model_usb0 c)"

definition main_screen_gas :: "gw_config \<Rightarrow> ftdi_ctx list \<Rightarrow> sensor_ctx list \<Rightarrow> (string \<times> gas_shown) list" where
  "main_screen_gas c ps ss = map (\<lambda>p.
     let m = configured_model c p
     in (gas_model_name m,
         if gas_sensor_connected p ps
         then let r = gas_sensor_get p ss
              in if gr_valid r then Shown (gr_pct r) (gas_model_unit m) else Waiting_for_data
         else Unconnected)) [0..<GAS_PORT_COUNT]"

definition submenu_screen_gas :: "gw_config \<Rightarrow> ftdi_ctx list \<Rightarrow> sensor_ctx list \<Rightarrow> (string \<times> gas_shown) list" where
  "submenu_screen_gas c ps ss = map (\<lambda>p.
     let m = configured_model c p
     in (gas_model_name m,
         if m \<noteq> GAS_MODEL_NONE \<and> gas_sensor_connected p ps
         then let r = gas_sensor_get p ss
              in if gr_valid r then Shown (gr_pct r) (gas_model_unit m) else Waiting_for_data
         else if m = GAS_MODEL_NONE then No_model
         else Unconnected)) [0..<GAS_PORT_COUNT]"

text \<open>As long as the parsers run the configured models, as they do after the start and in the
  submenu (\<open>gas_menu_invariant\<close>), a reading is labelled with the model that produced it.\<close>

lemma screens_name_parsers:
  assumes "map model ss = models_of c"
  shows "map fst (main_screen_gas c ps ss) = map (gas_model_name \<circ> model) ss"
    and "map fst (submenu_screen_gas c ps ss) = map (gas_model_name \<circ> model) ss"
    and "(n, Shown r u) \<in> set (main_screen_gas c ps ss) \<union> set (submenu_screen_gas c ps ss) \<Longrightarrow>
      \<exists>sc \<in> set ss. n = gas_model_name (model sc) \<and> u = gas_model_unit (model sc) \<and>
        gr_valid (reading sc) \<and> r = gr_pct (reading sc)"
proof -
  obtain a b where ss: "ss = [a, b]" "model a = sensor_model_usb1 c" "model b = sensor_model_usb0 c"
    using assms by (auto simp: models_of_def)
  show "map fst (main_screen_gas c ps ss) = map (gas_model_name \<circ> model) ss"
    "map fst (submenu_screen_gas c ps ss) = map (gas_model_name \<circ> model) ss"
    by (simp_all add: main_screen_gas_def submenu_screen_gas_def configured_model_def ss upt_rec Let_def)
  show "(n, Shown r u) \<in> set (main_screen_gas c ps ss) \<union> set (submenu_screen_gas c ps ss) \<Longrightarrow>
      \<exists>sc \<in> set ss. n = gas_model_name (model sc) \<and> u = gas_model_unit (model sc) \<and>
        gr_valid (reading sc) \<and> r = gr_pct (reading sc)"
    by (auto simp: main_screen_gas_def submenu_screen_gas_def configured_model_def gas_sensor_get_def
        ss upt_rec Let_def split: if_splits)
qed

text \<open>The reset of the main menu changes the configured models but not the parsers: a carbon monoxide
  sensor on the first port is then shown as percent of oxygen, until the next boot.\<close>

lemma reset_mislabels_reading:
  assumes "gas_sensor_connected GAS_PORT_USB1 ps" "length ss = 2" "gr_valid (reading (ss ! 0))"
  shows "main_screen_gas (g_gw_config (cfg_reset_to_defaults N k erase st)) ps ss ! 0 =
    (''O2-SM30'', Shown (gr_pct (reading (ss ! 0))) ''%Vol'')"
  using assms
  by (simp add: main_screen_gas_def configured_model_def cfg_reset_to_defaults_def load_defaults_def
      gas_sensor_get_def gas_model_name_def gas_model_unit_def Let_def upt_rec)

section \<open>The submenu\<close>


section \<open>A closed example\<close>

text \<open>A stored configuration, the keys 1, 3 and Q, and the parsers as they were started.\<close>

definition sample_stored :: "(nat \<Rightarrow> bytes option) cfg_state" where
  "sample_stored = config_nvs_save ram_nvs sample_cfg_state"

definition sample_keys :: "u8 option list" where
  "sample_keys = [Some 0x31, Some 0x33, Some 0x0A, Some 0x71]"

abbreviation sample_console :: "u8 option list \<Rightarrow> console" where
  "sample_console ps \<equiv> \<lparr>rx_pushback = None, rx_script = ps\<rparr>"

definition sample_sensors :: "sensor_ctx list" where
  "sample_sensors = gas_sensor_start (g_gw_config sample_stored) [sensor_boot, sensor_boot]"

lemma sample_stored_facts:
  "g_gw_config sample_stored = load_defaults sample_kconfig" "nvs_ok sample_stored"
  by (simp_all add: sample_stored_def config_nvs_save_def sample_cfg_state_def)

lemma sample_typed:
  "gas_menu_wait 20 [Some 0x31, Some 0x33, Some 0x0A, Some 0x71] = (Some 0x31, [Some 0x33, Some 0x0A, Some 0x71])"
  "read_line CFG_MENU_BUF (sample_console [Some 0x33, Some 0x0A, Some 0x71]) = Some ([0x33], sample_console [Some 0x71])"
  "gas_menu_wait 20 [Some 0x71] = (Some 0x71, [])"
  "upper_key 0x31 = 0x31" "upper_key 0x71 = 0x51"
  by code_simp+

lemma sample_gas_menu_run:
  "gas_menu N (sample_console sample_keys) x = (True, sample_console [], gas_menu_choose N GAS_PORT_USB1 3 x)"
proof -
  have "gas_menu N (sample_console sample_keys) x =
      gas_menu N (sample_console [Some 0x71]) (gas_menu_choose N GAS_PORT_USB1 3 x)"
    by (subst gas_menu.simps [of N "sample_console sample_keys"]) (simp add: sample_keys_def sample_typed)
  also have "\<dots> = (True, sample_console [], gas_menu_choose N GAS_PORT_USB1 3 x)"
    by (subst gas_menu.simps) (simp add: sample_typed)
  finally show ?thesis .
qed


text \<open>After the reset of the main menu the storage has no schema version.\<close>

lemma reset_removes_schema:
  assumes "nvs_laws N" "nvs_ok st"
  shows "nvs_rd_u16 (nvs_read N (nvs (cfg_reset_to_defaults N k True st)) KEY_SCHEMA_VER) 0 \<noteq> NVS_SCHEMA_VERSION"
proof -
  have "nvs_read N (nvs_delete_all N s) KEY_SCHEMA_VER = None" for s
    using assms(1) unfolding nvs_delete_all_def nvs_laws_def by (simp add: upt_rec)
  then show ?thesis using assms(2) by (simp add: cfg_reset_to_defaults_def nvs_rd_u16_def Let_def)
qed

end
