(* ===== verification/Di_Do.thy ===== *)
theory Di_Do
  imports Config_Nvs
begin

text \<open>
  \<^verbatim>\<open>src/di_do.c\<close>: the digital inputs and outputs behind two I2C port expanders (PCA9554) and the
  two switched supplies, and the submenu of \<^verbatim>\<open>src/config_nvs.c\<close> that operates them.  The I2C bus
  is indexed by a tick that every transfer advances; the transfers and the pins are a log.
\<close>

unbundle bit_operations_syntax

section \<open>State\<close>

abbreviation (input) PCA9554_DI_ADDR :: u8 where "PCA9554_DI_ADDR \<equiv> 0x21"
abbreviation (input) PCA9554_DO_ADDR :: u8 where "PCA9554_DO_ADDR \<equiv> 0x22"
abbreviation (input) PCA9554_REG_INPUT :: u8 where "PCA9554_REG_INPUT \<equiv> 0x00"
abbreviation (input) PCA9554_REG_OUTPUT :: u8 where "PCA9554_REG_OUTPUT \<equiv> 0x01"
abbreviation (input) PCA9554_REG_POLARITY :: u8 where "PCA9554_REG_POLARITY \<equiv> 0x02"
abbreviation (input) PCA9554_REG_CONFIG :: u8 where "PCA9554_REG_CONFIG \<equiv> 0x03"
abbreviation (input) EXT_PWR1_PIN :: nat where "EXT_PWR1_PIN \<equiv> 24"
abbreviation (input) EXT_PWR2_PIN :: nat where "EXT_PWR2_PIN \<equiv> 25"
abbreviation (input) DO_INT_PIN :: nat where "DO_INT_PIN \<equiv> 0"
abbreviation (input) DI_INT_PIN :: nat where "DI_INT_PIN \<equiv> 1"

text \<open>What the platform answers: \<open>device_is_ready\<close> of the four devices in the order of the tests,
  the results of the register writes, and the results and values of the register reads.\<close>

record di_do_env =
  de_ready :: "nat \<Rightarrow> bool"
  de_write :: "nat \<Rightarrow> int"
  de_read :: "nat \<Rightarrow> int \<times> u8"

text \<open>A write with its result; \<open>gpio_pin_configure\<close> and \<open>gpio_pin_set\<close>, with the port.\<close>

datatype di_do_io =
    Reg_write u8 u8 u8 int | Reg_read u8 u8
  | Pin_output_inactive nat nat | Pin_input nat nat | Pin_set nat nat bool

record di_do_state =
  s_do_val :: u8
  s_di_val :: u8
  s_pwr1_on :: bool
  s_pwr2_on :: bool
  dd_tick :: nat
  dd_log :: "di_do_io list"

definition di_do_boot :: di_do_state where
  "di_do_boot = \<lparr>s_do_val = 0, s_di_val = 0, s_pwr1_on = False, s_pwr2_on = False, dd_tick = 0, dd_log = []\<rparr>"

definition dd_io :: "di_do_io \<Rightarrow> di_do_state \<Rightarrow> di_do_state" where
  "dd_io e s = s\<lparr>dd_log := dd_log s @ [e]\<rparr>"

section \<open>Operations\<close>

definition pca_wr :: "di_do_env \<Rightarrow> u8 \<Rightarrow> u8 \<Rightarrow> u8 \<Rightarrow> di_do_state \<Rightarrow> int \<times> di_do_state" where
  "pca_wr env addr reg v s =
     (let ret = de_write env (dd_tick s)
      in (ret, dd_io (Reg_write addr reg v ret) (s\<lparr>dd_tick := dd_tick s + 1\<rparr>)))"

definition pca_rd :: "di_do_env \<Rightarrow> u8 \<Rightarrow> u8 \<Rightarrow> di_do_state \<Rightarrow> (int \<times> u8) \<times> di_do_state" where
  "pca_rd env addr reg s =
     (de_read env (dd_tick s), dd_io (Reg_read addr reg) (s\<lparr>dd_tick := dd_tick s + 1\<rparr>))"

definition do_set :: "di_do_env \<Rightarrow> u8 \<Rightarrow> di_do_state \<Rightarrow> int \<times> di_do_state" where
  "do_set env msk s =
     (case pca_wr env PCA9554_DO_ADDR PCA9554_REG_OUTPUT (NOT msk) s of
        (ret, s1) \<Rightarrow> (ret, if ret = 0 then s1\<lparr>s_do_val := msk\<rparr> else s1))"

definition do_get :: "di_do_state \<Rightarrow> u8" where
  "do_get s = s_do_val s"

definition di_read :: "di_do_env \<Rightarrow> di_do_state \<Rightarrow> (int \<times> u8) \<times> di_do_state" where
  "di_read env s =
     (case pca_rd env PCA9554_DI_ADDR PCA9554_REG_INPUT s of
        ((ret, v), s1) \<Rightarrow> ((ret, v), if ret = 0 then s1\<lparr>s_di_val := v\<rparr> else s1))"

definition di_get :: "di_do_state \<Rightarrow> u8" where
  "di_get s = s_di_val s"

definition ext_pwr1_set :: "bool \<Rightarrow> di_do_state \<Rightarrow> di_do_state" where
  "ext_pwr1_set on s = (dd_io (Pin_set 0 EXT_PWR1_PIN on) s)\<lparr>s_pwr1_on := on\<rparr>"

definition ext_pwr2_set :: "bool \<Rightarrow> di_do_state \<Rightarrow> di_do_state" where
  "ext_pwr2_set on s = (dd_io (Pin_set 0 EXT_PWR2_PIN on) s)\<lparr>s_pwr2_on := on\<rparr>"

definition di_do_hw_init :: "di_do_env \<Rightarrow> di_do_state \<Rightarrow> int \<times> di_do_state" where
  "di_do_hw_init env s =
     (let (r1, s1) = pca_wr env PCA9554_DI_ADDR PCA9554_REG_POLARITY 0xFF s
      in if r1 \<noteq> 0 then (r1, s1)
         else let (r2, s2) = pca_wr env PCA9554_DI_ADDR PCA9554_REG_CONFIG 0xFF s1
              in if r2 \<noteq> 0 then (r2, s2)
                 else let s3 = s2\<lparr>s_do_val := 0\<rparr>;
                          (r4, s4) = pca_wr env PCA9554_DO_ADDR PCA9554_REG_OUTPUT (NOT (s_do_val s3)) s3
                      in if r4 \<noteq> 0 then (r4, s4)
                         else let (r5, s5) = pca_wr env PCA9554_DO_ADDR PCA9554_REG_CONFIG 0x00 s4
                              in if r5 \<noteq> 0 then (r5, s5) else (0, s5))"

definition di_do_init :: "di_do_env \<Rightarrow> di_do_state \<Rightarrow> errno option \<times> di_do_state" where
  "di_do_init env s =
     (if \<not> de_ready env 0 then (Some ENODEV, s)
      else if \<not> de_ready env 1 then (Some ENODEV, s)
      else if \<not> de_ready env 2 then (Some ENODEV, s)
      else if \<not> de_ready env 3 then (Some ENODEV, s)
      else
        let s1 = dd_io (Pin_output_inactive 0 EXT_PWR2_PIN) (dd_io (Pin_output_inactive 0 EXT_PWR1_PIN) s);
            s2 = dd_io (Pin_input 3 DI_INT_PIN) (dd_io (Pin_input 3 DO_INT_PIN) s1);
            (ret, s3) = di_do_hw_init env s2
        in if ret \<noteq> 0 then (Some EIO, s3)
           else (None, ext_pwr2_set False (ext_pwr1_set False s3)))"

text \<open>A pass of the polling task; \<open>di_prev\<close> is the value it printed last.\<close>

definition di_do_poll :: "di_do_env \<Rightarrow> u8 \<Rightarrow> di_do_state \<Rightarrow> u8 \<times> di_do_state" where
  "di_do_poll env di_prev s =
     (case di_read env s of ((ret, v), s1) \<Rightarrow> (if ret = 0 \<and> v \<noteq> di_prev then v else di_prev, s1))"

section \<open>The submenu\<close>

text \<open>\<open>cfg_di_do_getkey\<close>: a change of the inputs is the key 0; \<open>None\<close>: the script of the
  console is used up and the menu waits.\<close>

fun di_do_getkey ::
    "di_do_env \<Rightarrow> u8 \<Rightarrow> u8 option list \<Rightarrow> di_do_state \<Rightarrow> (u8 \<times> u8 option list) option \<times> di_do_state" where
  "di_do_getkey env di_snap [] s = (None, snd (di_read env s))"
| "di_do_getkey env di_snap (p # ps) s =
     (case di_read env s of ((ret, di_now), s1) \<Rightarrow>
        if ret = 0 \<and> di_now \<noteq> di_snap then (Some (0, p # ps), s1)
        else case p of
               Some c \<Rightarrow> if c = 0x0D \<or> c = 0x0A then di_do_getkey env di_snap ps s1 else (Some (c, ps), s1)
             | None \<Rightarrow> di_do_getkey env di_snap ps s1)"

text \<open>What an upper-case key does.\<close>

definition di_do_key :: "di_do_env \<Rightarrow> u8 \<Rightarrow> di_do_state \<Rightarrow> di_do_state" where
  "di_do_key env dsel s =
     (if dsel \<ge> 0x30 \<and> dsel \<le> 0x37
      then snd (do_set env (do_get s XOR push_bit (unat (dsel - 0x30)) 1) s)
      else if dsel = 0x41 then snd (do_set env 0xFF s)
      else if dsel = 0x5A then snd (do_set env 0x00 s)
      else if dsel = 0x50 then ext_pwr1_set (\<not> s_pwr1_on s) s
      else if dsel = 0x58 then ext_pwr2_set (\<not> s_pwr2_on s) s
      else s)"

text \<open>The loop of the submenu, for at most \<open>n\<close> screens.  The result says whether it was left.\<close>

fun di_do_menu ::
    "di_do_env \<Rightarrow> nat \<Rightarrow> u8 option list \<Rightarrow> di_do_state \<Rightarrow> bool \<times> u8 option list \<times> di_do_state" where
  "di_do_menu env 0 ps s = (False, ps, s)"
| "di_do_menu env (Suc n) ps s =
     (let s1 = snd (di_read env s)
      in case di_do_getkey env (di_get s1) ps s1 of
           (None, s2) \<Rightarrow> (False, [], s2)
         | (Some (dsel, ps2), s2) \<Rightarrow>
             if dsel = 0 then di_do_menu env n ps2 s2
             else if upper_key dsel = 0x51 then (True, ps2, s2)
             else di_do_menu env n ps2 (di_do_key env (upper_key dsel) s2))"

text \<open>The block of the main menu's screen: it reads the inputs and shows them, the outputs and the
  supplies.\<close>

definition di_do_screen :: "di_do_env \<Rightarrow> di_do_state \<Rightarrow> (u8 \<times> u8 \<times> bool \<times> bool) \<times> di_do_state" where
  "di_do_screen env s =
     (let dov = do_get s;
          ((ret, di), s1) = di_read env s
      in ((di, dov, s_pwr1_on s1, s_pwr2_on s1), s1))"

section \<open>The outputs and what the program believes of them\<close>

text \<open>The output register of the DO expander after a log: the last write it acknowledged.  The
  pins of a supply.\<close>

fun out_latch :: "di_do_io list \<Rightarrow> u8 option \<Rightarrow> u8 option" where
  "out_latch [] r = r"
| "out_latch (Reg_write addr reg v ret # es) r =
     out_latch es (if addr = PCA9554_DO_ADDR \<and> reg = PCA9554_REG_OUTPUT \<and> ret = 0 then Some v else r)"
| "out_latch (e # es) r = out_latch es r"

fun supply_pin :: "nat \<Rightarrow> di_do_io list \<Rightarrow> bool option \<Rightarrow> bool option" where
  "supply_pin n [] r = r"
| "supply_pin n (Pin_output_inactive port p # es) r =
     supply_pin n es (if port = 0 \<and> p = n then Some False else r)"
| "supply_pin n (Pin_set port p on # es) r = supply_pin n es (if port = 0 \<and> p = n then Some on else r)"
| "supply_pin n (e # es) r = supply_pin n es r"

lemma out_latch_append: "out_latch (es @ fs) r = out_latch fs (out_latch es r)"
  by (induction es r rule: out_latch.induct) simp_all

lemma supply_pin_append: "supply_pin n (es @ fs) r = supply_pin n fs (supply_pin n es r)"
  by (induction n es r rule: supply_pin.induct) simp_all

text \<open>What the program believes is what the hardware has; the outputs are active low.\<close>

definition dd_ok :: "di_do_state \<Rightarrow> bool" where
  "dd_ok s \<longleftrightarrow> out_latch (dd_log s) None = Some (NOT (s_do_val s)) \<and>
     supply_pin EXT_PWR1_PIN (dd_log s) None = Some (s_pwr1_on s) \<and>
     supply_pin EXT_PWR2_PIN (dd_log s) None = Some (s_pwr2_on s)"

lemmas dd_simps = dd_ok_def dd_io_def out_latch_append supply_pin_append

lemma dd_ok_read [simp]: "dd_ok (snd (di_read env s)) = dd_ok s"
  by (auto simp: di_read_def pca_rd_def dd_simps split: prod.split)

lemma dd_ok_screen [simp]: "dd_ok (snd (di_do_screen env s)) = dd_ok s"
  by (simp add: di_do_screen_def case_prod_unfold Let_def)

lemma do_set_effect:
  "do_set env v s =
    (de_write env (dd_tick s),
     s\<lparr>dd_tick := dd_tick s + 1,
       dd_log := dd_log s @ [Reg_write PCA9554_DO_ADDR PCA9554_REG_OUTPUT (NOT v) (de_write env (dd_tick s))],
       s_do_val := (if de_write env (dd_tick s) = 0 then v else s_do_val s)\<rparr>)"
  by (simp add: do_set_def pca_wr_def dd_io_def Let_def)

lemma dd_ok_do_set: "dd_ok s \<Longrightarrow> dd_ok (snd (do_set env v s))"
  by (simp add: do_set_effect dd_simps)

lemma dd_ok_pwr: "dd_ok s \<Longrightarrow> dd_ok (ext_pwr1_set on s)" "dd_ok s \<Longrightarrow> dd_ok (ext_pwr2_set on s)"
  by (simp_all add: ext_pwr1_set_def ext_pwr2_set_def dd_simps)

lemma dd_ok_key: "dd_ok s \<Longrightarrow> dd_ok (di_do_key env k s)"
  by (simp add: di_do_key_def dd_ok_do_set dd_ok_pwr)

lemma dd_ok_getkey: "dd_ok s \<Longrightarrow> dd_ok (snd (di_do_getkey env d ps s))"
proof (induction env d ps s rule: di_do_getkey.induct)
  case (2 env d p ps s)
  obtain ret v s1 where r: "di_read env s = ((ret, v), s1)" by (metis prod.exhaust)
  then have "dd_ok s1" using 2(3) dd_ok_read [of env s] by simp
  then show ?case using 2 r by (auto split: option.split)
qed simp

lemma dd_ok_menu: "dd_ok s \<Longrightarrow> dd_ok (snd (snd (di_do_menu env n ps s)))"
proof (induction n arbitrary: ps s)
  case (Suc n)
  define s1 where "s1 = snd (di_read env s)"
  obtain k s2 where g: "di_do_getkey env (di_get s1) ps s1 = (k, s2)" by fastforce
  have "dd_ok s1" using Suc.prems by (simp add: s1_def)
  then have s2: "dd_ok s2" using dd_ok_getkey [of s1 env "di_get s1" ps] g by simp
  have "di_do_menu env (Suc n) ps s = (case k of None \<Rightarrow> (False, [], s2)
         | Some (dsel, ps2) \<Rightarrow>
             if dsel = 0 then di_do_menu env n ps2 s2
             else if upper_key dsel = 0x51 then (True, ps2, s2)
             else di_do_menu env n ps2 (di_do_key env (upper_key dsel) s2))"
    using g by (simp add: s1_def Let_def split: option.split)
  then show ?case using s2 Suc.IH dd_ok_key by (auto split: option.split)
qed simp

lemma init_ok:
  assumes "di_do_init env di_do_boot = (None, s)"
  shows "dd_ok s \<and> s_do_val s = 0 \<and> \<not> s_pwr1_on s \<and> \<not> s_pwr2_on s"
  using assms
  by (auto simp: di_do_init_def di_do_hw_init_def pca_wr_def ext_pwr1_set_def ext_pwr2_set_def dd_simps
      di_do_boot_def Let_def split: if_splits)

text \<open>The two that use the expanders at the same time: passes of the polling task, with the value it
  printed last, and the console, with screens of the main menu, single keys or whole visits of the
  submenu.\<close>

datatype dd_event = Pass | Screen | Press u8 | Visit nat "u8 option list"

fun dd_do :: "di_do_env \<Rightarrow> dd_event \<Rightarrow> u8 \<times> di_do_state \<Rightarrow> u8 \<times> di_do_state" where
  "dd_do env Pass (di_prev, s) = di_do_poll env di_prev s"
| "dd_do env Screen (di_prev, s) = (di_prev, snd (di_do_screen env s))"
| "dd_do env (Press k) (di_prev, s) = (di_prev, di_do_key env k s)"
| "dd_do env (Visit n ps) (di_prev, s) = (di_prev, snd (snd (di_do_menu env n ps s)))"

text \<open>The task alone, for a number of passes.\<close>

definition di_do_task :: "di_do_env \<Rightarrow> nat \<Rightarrow> di_do_state \<Rightarrow> u8 \<times> di_do_state" where
  "di_do_task env n s = fold (dd_do env) (replicate n Pass) (0xFF, s)"

interpretation di_do: event_task "\<lambda>ev. True" "\<lambda>p. dd_ok (snd p)" "dd_do env" for env
proof unfold_locales
  fix ev and p :: "u8 \<times> di_do_state"
  assume "dd_ok (snd p)"
  moreover have "dd_ok (snd (di_do_poll env d s)) = dd_ok s" for d s
  proof -
    obtain r v s1 where r: "di_read env s = ((r, v), s1)" by (metis prod.exhaust)
    then show ?thesis using dd_ok_read [of env s] by (simp add: di_do_poll_def)
  qed
  ultimately show "dd_ok (snd (dd_do env ev p))"
    by (cases ev; cases p) (simp_all add: dd_ok_key dd_ok_menu)
qed


text \<open>A bus that works, all inputs off; the keys 3, P and Q.\<close>

definition sample_di_do :: di_do_env where
  "sample_di_do = \<lparr>de_ready = (\<lambda>_. True), de_write = (\<lambda>_. 0), de_read = (\<lambda>_. (0, 0))\<rparr>"


end
